(* ===== verification/Prelude.thy ===== *)
theory Prelude
  imports Main "HOL-Library.Word" "HOL-Library.Char_ord" "HOL-Library.List_Lexorder"
begin

unbundle bit_operations_syntax

text \<open>
  Shared vocabulary of the mcgateway development: machine integers, byte strings and
  their little-endian and UTF-8 encodings, results with errors as values, and the
  ordered map that stands for Rust's BTreeMap.

  The Rust sources fix the widths: u8, u32 and u64 are words read unsigned, i64 is a
  64-bit word read with \<open>sint\<close>. A Rust \<open>str\<close> is a \<open>string\<close> (a list of
  8-bit characters holding its UTF-8 bytes), \<open>&[u8]\<close> and \<open>Vec<u8>\<close> are
  lists of 8-bit words. \<open>Result<T, E>\<close> is the sum \<open>'e + 'a\<close> with the error on
  the left, and the question-mark operator is \<open>and_then\<close>.
\<close>

section \<open>Types\<close>

type_synonym u8 = "8 word"
type_synonym u32 = "32 word"
type_synonym u64 = "64 word"
type_synonym i64 = "64 word"
type_synonym bytes = "u8 list"

named_theorems result_simps \<open>unfolding of results with errors as values\<close>
named_theorems wire_simps \<open>layout of the wire format\<close>

section \<open>Definitions\<close>

subsection \<open>Results\<close>

definition and_then :: "'e + 'a \<Rightarrow> ('a \<Rightarrow> 'e + 'b) \<Rightarrow> 'e + 'b" where
  "and_then r f = (case r of Inl e \<Rightarrow> Inl e | Inr x \<Rightarrow> f x)"

definition map_err :: "('e \<Rightarrow> 'f) \<Rightarrow> 'e + 'a \<Rightarrow> 'f + 'a" where
  "map_err g r = (case r of Inl e \<Rightarrow> Inl (g e) | Inr x \<Rightarrow> Inr x)"

definition ok_or :: "'e \<Rightarrow> 'a option \<Rightarrow> 'e + 'a" where
  "ok_or e r = (case r of None \<Rightarrow> Inl e | Some x \<Rightarrow> Inr x)"

subsection \<open>Integers\<close>

text \<open>Conversions and arithmetic of the Rust standard library, at their widths.\<close>

definition u32_try_from :: "nat \<Rightarrow> u32 option" where
  "u32_try_from n = (if n < 2 ^ 32 then Some (of_nat n) else None)"

definition u64_try_from :: "nat \<Rightarrow> u64 option" where
  "u64_try_from n = (if n < 2 ^ 64 then Some (of_nat n) else None)"

definition i64_try_from :: "nat \<Rightarrow> i64 option" where
  "i64_try_from n = (if n < 2 ^ 63 then Some (of_nat n) else None)"

definition i64_max :: i64 where
  "i64_max = 2 ^ 63 - 1"

definition checked_mul_u32 :: "u32 \<Rightarrow> u32 \<Rightarrow> u32 option" where
  "checked_mul_u32 a b = u32_try_from (unat a * unat b)"

definition saturating_add_u64 :: "u64 \<Rightarrow> u64 \<Rightarrow> u64" where
  "saturating_add_u64 a b = (if unat a + unat b < 2 ^ 64 then a + b else - 1)"

definition checked_sub_u64 :: "u64 \<Rightarrow> u64 \<Rightarrow> u64 option" where
  "checked_sub_u64 a b = (if b \<le> a then Some (a - b) else None)"

definition is_power_of_two :: "nat \<Rightarrow> bool" where
  "is_power_of_two n \<longleftrightarrow> n \<in> set (map (\<lambda>k. 2 ^ k) [0..<32])"

text \<open>\<open>now.saturating_sub(s).max(0)\<close> on i64 values, the shape both metrics paths use.\<close>

definition saturating_sub_i64 :: "i64 \<Rightarrow> i64 \<Rightarrow> i64" where
  "saturating_sub_i64 a b =
     (let d = sint a - sint b in
      if d < - (2 ^ 63) then of_int (- (2 ^ 63))
      else if 2 ^ 63 \<le> d then i64_max
      else of_int d)"

definition max_i64 :: "i64 \<Rightarrow> i64 \<Rightarrow> i64" where
  "max_i64 a b = (if sint a < sint b then b else a)"

subsection \<open>Little-endian bytes\<close>

primrec le_bytes :: "nat \<Rightarrow> 'a::len word \<Rightarrow> bytes" where
  "le_bytes 0 w = []"
| "le_bytes (Suc n) w = ucast w # le_bytes n (drop_bit 8 w)"

primrec le_word :: "bytes \<Rightarrow> 'a::len word" where
  "le_word [] = 0"
| "le_word (b # bs) = ucast b OR push_bit 8 (le_word bs)"

subsection \<open>UTF-8\<close>

definition as_bytes :: "string \<Rightarrow> bytes" where
  "as_bytes s = map (\<lambda>c. of_nat (of_char c)) s"

definition str_of_bytes :: "bytes \<Rightarrow> string" where
  "str_of_bytes bs = map (\<lambda>b. char_of (unat b)) bs"

text \<open>
  The ranges the bytes after a lead byte must lie in; \<open>None\<close> for a byte that
  cannot start a character (the table of the Unicode standard, which the Rust library
  implements).
\<close>

definition utf8_tail :: "u8 \<Rightarrow> (u8 \<times> u8) list option" where
  "utf8_tail b =
     (if b < 0x80 then Some []
      else if b < 0xC2 then None
      else if b < 0xE0 then Some [(0x80, 0xBF)]
      else if b = 0xE0 then Some [(0xA0, 0xBF), (0x80, 0xBF)]
      else if b = 0xED then Some [(0x80, 0x9F), (0x80, 0xBF)]
      else if b < 0xF0 then Some [(0x80, 0xBF), (0x80, 0xBF)]
      else if b = 0xF0 then Some [(0x90, 0xBF), (0x80, 0xBF), (0x80, 0xBF)]
      else if b < 0xF4 then Some [(0x80, 0xBF), (0x80, 0xBF), (0x80, 0xBF)]
      else if b = 0xF4 then Some [(0x80, 0x8F), (0x80, 0xBF), (0x80, 0xBF)]
      else None)"

fun match_tail :: "(u8 \<times> u8) list \<Rightarrow> bytes \<Rightarrow> nat" where
  "match_tail ((lo, hi) # rs) (b # bs) =
     (if lo \<le> b \<and> b \<le> hi then Suc (match_tail rs bs) else 0)"
| "match_tail _ _ = 0"

text \<open>
  One character: whether the lead byte and the bytes after it are well formed, and how
  many bytes after the lead byte belong to the character (or to the ill-formed chunk).
\<close>

definition utf8_step :: "u8 \<Rightarrow> bytes \<Rightarrow> bool \<times> nat" where
  "utf8_step b bs =
     (case utf8_tail b of
        None \<Rightarrow> (False, 0)
      | Some rs \<Rightarrow> (let n = match_tail rs bs in (n = length rs, n)))"

function utf8_valid :: "bytes \<Rightarrow> bool" where
  "utf8_valid [] = True"
| "utf8_valid (b # bs) =
     (fst (utf8_step b bs) \<and> utf8_valid (drop (snd (utf8_step b bs)) bs))"
  by pat_completeness auto
termination
  by (relation "measure length") auto

text \<open>\<open>String::from_utf8_lossy\<close>: each ill-formed chunk becomes U+FFFD.\<close>

function utf8_lossy :: "bytes \<Rightarrow> bytes" where
  "utf8_lossy [] = []"
| "utf8_lossy (b # bs) =
     (let (ok, n) = utf8_step b bs in
      (if ok then b # take n bs else [0xEF, 0xBF, 0xBD]) @ utf8_lossy (drop n bs))"
  by pat_completeness auto
termination
  by (relation "measure length") auto

definition from_utf8 :: "bytes \<Rightarrow> string option" where
  "from_utf8 bs = (if utf8_valid bs then Some (str_of_bytes bs) else None)"

definition from_utf8_lossy :: "bytes \<Rightarrow> string" where
  "from_utf8_lossy bs = str_of_bytes (utf8_lossy bs)"

definition is_str :: "string \<Rightarrow> bool" where
  "is_str s \<longleftrightarrow> utf8_valid (as_bytes s)"

text \<open>The pieces of a byte string between separators, as \<open>slice::split\<close> gives them.\<close>

fun split_on :: "u8 \<Rightarrow> bytes \<Rightarrow> bytes list" where
  "split_on sep [] = [[]]"
| "split_on sep (b # bs) =
     (if b = sep then [] # split_on sep bs
      else (case split_on sep bs of [] \<Rightarrow> [[b]] | p # ps \<Rightarrow> (b # p) # ps))"

section \<open>Lemmas\<close>

subsection \<open>Generic\<close>

lemma ex_nat_split: "(\<exists>n::nat. P n) \<longleftrightarrow> P 0 \<or> (\<exists>n. P (Suc n))"
  by (metis not0_implies_Suc)

lemma all_less_Suc_split: "(\<forall>j < Suc n. P j) \<longleftrightarrow> P 0 \<and> (\<forall>j < n. P (Suc j))"
  by (metis Suc_less_eq gr0_conv_Suc less_Suc_eq_0_disj)

subsection \<open>Results\<close>

lemma and_then_simps [simp]:
  "and_then (Inl e) f = Inl e"
  "and_then (Inr x) f = f x"
  by (simp_all add: and_then_def)

lemma map_err_simps [simp]:
  "map_err g (Inl e) = Inl (g e)"
  "map_err g (Inr x) = Inr x"
  by (simp_all add: map_err_def)

lemma ok_or_simps [simp]:
  "ok_or e None = Inl e"
  "ok_or e (Some x) = Inr x"
  by (simp_all add: ok_or_def)

lemma and_then_Inr_iff [result_simps]:
  "and_then r f = Inr y \<longleftrightarrow> (\<exists>x. r = Inr x \<and> f x = Inr y)"
  by (cases r) auto

lemma and_then_Inl_iff:
  "and_then r f = Inl e \<longleftrightarrow> r = Inl e \<or> (\<exists>x. r = Inr x \<and> f x = Inl e)"
  by (cases r) auto

lemma ok_or_Inr_iff [result_simps]: "ok_or e r = Inr x \<longleftrightarrow> r = Some x"
  by (cases r) auto

lemma map_err_Inr_iff [result_simps]: "map_err g r = Inr x \<longleftrightarrow> r = Inr x"
  by (cases r) auto

subsection \<open>Integers\<close>

lemma unat_u8_bound: "unat (w::u8) < 2 ^ 8"
  using unsigned_less [of w] by simp

lemma unat_u32_bound: "unat (w::u32) < 2 ^ 32"
  using unsigned_less [of w] by simp

lemma unat_u64_bound: "unat (w::u64) < 2 ^ 64"
  using unsigned_less [of w] by simp

lemma u32_try_from_Some_iff: "u32_try_from n = Some w \<longleftrightarrow> unat w = n"
proof -
  have "unat w < 2 ^ 32"
    by (rule unat_u32_bound)
  moreover have "n < 2 ^ 32 \<Longrightarrow> unat (of_nat n :: u32) = n"
    by (simp add: unat_of_nat)
  ultimately show ?thesis
    by (auto simp: u32_try_from_def)
qed

lemma u32_try_from_unat [simp]: "u32_try_from (unat (w::u32)) = Some w"
  by (simp add: u32_try_from_Some_iff)

lemma u32_try_from_None_iff: "u32_try_from n = None \<longleftrightarrow> 2 ^ 32 \<le> n"
  by (auto simp: u32_try_from_def)

lemma checked_mul_u32_Some_iff:
  "checked_mul_u32 a b = Some c \<longleftrightarrow> unat c = unat a * unat b"
  by (auto simp: checked_mul_u32_def u32_try_from_Some_iff)

lemma unat_minus_1_u64: "unat (- 1 :: u64) = 2 ^ 64 - 1"
  by (simp add: unsigned_minus_1_eq_mask mask_eq_exp_minus_1)

lemma unat_saturating_add_u64:
  "unat (saturating_add_u64 a b) = min (unat a + unat b) (2 ^ 64 - 1)"
proof (cases "unat a + unat b < 2 ^ 64")
  case True
  then show ?thesis
    by (simp add: saturating_add_u64_def unat_word_ariths)
next
  case False
  then show ?thesis
    by (simp add: saturating_add_u64_def unat_minus_1_u64)
qed

lemma unat_u32_add:
  "unat a + unat b < 2 ^ 32 \<Longrightarrow> unat (a + b :: u32) = unat a + unat b"
  by (simp add: unat_word_ariths)

lemma unat_pred: "w \<noteq> 0 \<Longrightarrow> unat (w::'a::len word) = Suc (unat (w - 1))"
  using unat_eq_zero [of w] by (simp add: unat_minus_one)

lemma is_power_of_two_pos: "is_power_of_two n \<Longrightarrow> 0 < n"
  by (auto simp: is_power_of_two_def)

lemma is_power_of_two_simps [simp]:
  "is_power_of_two 1" "is_power_of_two (Suc 0)" "is_power_of_two 4" "is_power_of_two 8"
  by (simp_all add: is_power_of_two_def upt_rec)

subsection \<open>Little-endian bytes\<close>

lemma length_le_bytes [simp]: "length (le_bytes n w) = n"
  by (induction n arbitrary: w) simp_all

lemma le_word_le_bytes: "le_word (le_bytes n w) = take_bit (8 * n) (w::'a::len word)"
proof (induction n arbitrary: w)
  case 0
  show ?case by simp
next
  case (Suc n)
  have "(ucast (ucast w :: u8) :: 'a word) = take_bit 8 w"
    by (rule bit_word_eqI) (auto simp: bit_simps)
  moreover have "take_bit 8 w OR push_bit 8 (take_bit (8 * n) (drop_bit 8 w)) =
      take_bit (8 * Suc n) w"
    by (rule bit_word_eqI) (auto simp: bit_simps)
  ultimately show ?case
    by (simp add: Suc.IH)
qed

lemma le_word_u32 [simp]: "le_word (le_bytes 4 w) = (w::u32)"
  by (simp add: le_word_le_bytes take_bit_word_eq_self)

lemma le_word_u64 [simp]: "le_word (le_bytes 8 w) = (w::u64)"
  by (simp add: le_word_le_bytes take_bit_word_eq_self)

subsection \<open>Strings and UTF-8\<close>

lemma length_as_bytes [simp]: "length (as_bytes s) = length s"
  by (simp add: as_bytes_def)

lemma str_of_as_bytes [simp]: "str_of_bytes (as_bytes s) = s"
proof -
  have "unat (of_nat (of_char c) :: u8) = of_char c" for c :: char
    using nat_of_char_less_256 [of c] by (simp add: unat_of_nat)
  then show ?thesis
    by (simp add: as_bytes_def str_of_bytes_def comp_def)
qed

lemma as_bytes_str_of [simp]: "as_bytes (str_of_bytes bs) = bs"
proof -
  have "(of_nat (of_char (char_of (unat b) :: char)) :: u8) = b" for b :: u8
  proof -
    have "unat b < 256"
      using unat_u8_bound [of b] by simp
    then show ?thesis
      by (simp add: of_char_of)
  qed
  then show ?thesis
    by (simp add: as_bytes_def str_of_bytes_def comp_def)
qed

lemma as_bytes_inj [simp]: "as_bytes s = as_bytes t \<longleftrightarrow> s = t"
  by (metis str_of_as_bytes)

lemma from_utf8_as_bytes: "is_str s \<Longrightarrow> from_utf8 (as_bytes s) = Some s"
  by (simp add: from_utf8_def is_str_def)

lemma from_utf8_Some_iff: "from_utf8 bs = Some s \<longleftrightarrow> bs = as_bytes s \<and> is_str s"
  by (auto simp: from_utf8_def is_str_def)

lemma match_tail_le: "match_tail rs bs \<le> length rs \<and> match_tail rs bs \<le> length bs"
  by (induction rs bs rule: match_tail.induct) auto

lemma match_tail_append:
  "match_tail rs bs = length rs \<Longrightarrow> match_tail rs (take (length rs) bs @ cs) = length rs"
proof (induction rs bs rule: match_tail.induct)
  case (1 lo hi rs b bs)
  then show ?case by (auto split: if_splits)
qed auto

lemma utf8_step_replacement: "utf8_step 0xEF (0xBF # 0xBD # bs) = (True, 2)"
  by (simp add: utf8_step_def utf8_tail_def)

lemma utf8_lossy_valid: "utf8_valid (utf8_lossy bs)"
proof (induction bs rule: utf8_lossy.induct)
  case 1
  show ?case by simp
next
  case (2 b bs)
  obtain ok n where step: "utf8_step b bs = (ok, n)"
    by (cases "utf8_step b bs")
  have IH: "utf8_valid (utf8_lossy (drop n bs))"
    using "2.IH" step by simp
  show ?case
  proof (cases ok)
    case False
    with step IH show ?thesis
      by (simp add: utf8_step_replacement)
  next
    case True
    then obtain rs where rs: "utf8_tail b = Some rs" "n = length rs"
        "match_tail rs bs = length rs"
      using step by (auto simp: utf8_step_def Let_def split: option.splits)
    then have "utf8_step b (take n bs @ utf8_lossy (drop n bs)) = (True, n)"
      by (simp add: utf8_step_def match_tail_append)
    moreover have "length (take n bs) = n"
      using rs match_tail_le [of rs bs] by simp
    ultimately show ?thesis
      using True step IH by simp
  qed
qed

lemma utf8_lossy_id: "utf8_valid bs \<Longrightarrow> utf8_lossy bs = bs"
proof (induction bs rule: utf8_valid.induct)
  case 1
  show ?case by simp
next
  case (2 b bs)
  then show ?case
    by (cases "utf8_step b bs") simp
qed

lemma utf8_valid_ascii: "list_all (\<lambda>b. b < 0x80) bs \<Longrightarrow> utf8_valid bs"
  by (induction bs) (simp_all add: utf8_step_def utf8_tail_def)

lemma from_utf8_lossy_as_bytes: "is_str s \<Longrightarrow> from_utf8_lossy (as_bytes s) = s"
  by (simp add: from_utf8_lossy_def is_str_def utf8_lossy_id)

lemma from_utf8_lossy_is_str: "is_str (from_utf8_lossy bs)"
  by (simp add: is_str_def from_utf8_lossy_def utf8_lossy_valid)

end
