(* ===== verification/BTreeMap.thy ===== *)
theory BTreeMap
  imports Prelude
begin

text \<open>
  The ordered map of the Rust standard library (BTreeMap), used by the merge registry,
  by the table of WASM modules and by the profile merge: an association list kept
  strictly increasing in its keys. The locale \<open>ordered_map\<close> is the contract its
  clients rely on; the operations below are its interpretation.
\<close>

section \<open>Definitions\<close>

type_synonym ('k, 'v) btree = "('k \<times> 'v) list"

fun bt_insert :: "'k::linorder \<Rightarrow> 'v \<Rightarrow> ('k, 'v) btree \<Rightarrow> ('k, 'v) btree" where
  "bt_insert k v [] = [(k, v)]"
| "bt_insert k v ((k', v') # m) =
     (if k' < k then (k', v') # bt_insert k v m
      else if k' = k then (k, v) # m
      else (k, v) # (k', v') # m)"

definition bt_get :: "('k, 'v) btree \<Rightarrow> 'k \<Rightarrow> 'v option" where
  "bt_get m k = map_of m k"

definition bt_contains_key :: "('k, 'v) btree \<Rightarrow> 'k \<Rightarrow> bool" where
  "bt_contains_key m k \<longleftrightarrow> bt_get m k \<noteq> None"

definition bt_keys :: "('k, 'v) btree \<Rightarrow> 'k list" where
  "bt_keys m = map fst m"

definition bt_ok :: "('k::linorder, 'v) btree \<Rightarrow> bool" where
  "bt_ok m \<longleftrightarrow> sorted_wrt (<) (map fst m)"

section \<open>The contract of an ordered map\<close>

locale ordered_map =
  fixes empty :: 'm
    and insert :: "'k::linorder \<Rightarrow> 'v \<Rightarrow> 'm \<Rightarrow> 'm"
    and get :: "'m \<Rightarrow> 'k \<Rightarrow> 'v option"
    and keys :: "'m \<Rightarrow> 'k list"
    and ok :: "'m \<Rightarrow> bool"
  assumes get_empty: "get empty k = None"
    and get_insert: "ok m \<Longrightarrow> get (insert k v m) = (get m)(k \<mapsto> v)"
    and keys_sorted: "ok m \<Longrightarrow> sorted_wrt (<) (keys m)"
    and keys_dom: "ok m \<Longrightarrow> set (keys m) = dom (get m)"
    and ok_empty: "ok empty"
    and ok_insert: "ok m \<Longrightarrow> ok (insert k v m)"
begin

definition insert_all :: "('k \<times> 'v) list \<Rightarrow> 'm \<Rightarrow> 'm" where
  "insert_all kvs m = fold (\<lambda>(k, v). insert k v) kvs m"

lemma insert_all_simps:
  "insert_all [] m = m"
  "insert_all ((k, v) # kvs) m = insert_all kvs (insert k v m)"
  by (simp_all add: insert_all_def)

lemma ok_insert_all: "ok m \<Longrightarrow> ok (insert_all kvs m)"
  by (induction kvs arbitrary: m) (auto simp: insert_all_simps ok_insert)

text \<open>The last binding of a key wins.\<close>

lemma get_insert_all: "ok m \<Longrightarrow> get (insert_all kvs m) = get m ++ map_of (rev kvs)"
proof (induction kvs arbitrary: m)
  case Nil
  show ?case by (simp add: insert_all_simps)
next
  case (Cons kv kvs)
  then show ?case
    by (cases kv) (auto simp: insert_all_simps ok_insert get_insert map_add_def fun_eq_iff split: option.splits)
qed

text \<open>The keys come out in order, whatever the order of insertion.\<close>

lemma keys_determined:
  assumes "ok m" "ok m'" "dom (get m) = dom (get m')"
  shows "keys m = keys m'"
  using assms by (intro strict_sorted_equal) (simp_all add: keys_sorted keys_dom)

lemma keys_eq_sorted_list_of_set:
  assumes "ok m"
  shows "keys m = sorted_list_of_set (dom (get m))"
proof -
  have "sorted_wrt (<) (sorted_list_of_set (set (keys m)))"
    by (rule strict_sorted_list_of_set)
  then show ?thesis
    using assms by (intro strict_sorted_equal) (simp_all add: keys_sorted flip: keys_dom)
qed

lemma distinct_keys: "ok m \<Longrightarrow> distinct (keys m)"
  using keys_sorted strict_sorted_iff by blast

end

section \<open>The sorted association list is an ordered map\<close>

lemma bt_get_eq: "bt_get m = map_of m"
  by (simp add: fun_eq_iff bt_get_def)

lemma bt_get_insert: "bt_ok m \<Longrightarrow> bt_get (bt_insert k v m) = (bt_get m)(k \<mapsto> v)"
proof (induction k v m rule: bt_insert.induct)
  case (1 k v)
  show ?case by (simp add: bt_get_def)
next
  case (2 k v k' v' m)
  then show ?case
    by (auto simp: bt_get_def bt_ok_def fun_eq_iff)
qed

lemma keys_bt_insert: "set (map fst (bt_insert k v m)) = insert k (set (map fst m))"
  by (induction k v m rule: bt_insert.induct) auto

lemma bt_ok_insert: "bt_ok m \<Longrightarrow> bt_ok (bt_insert k v m)"
proof (induction k v m rule: bt_insert.induct)
  case (1 k v)
  show ?case by (simp add: bt_ok_def)
next
  case (2 k v k' v' m)
  then show ?case
    using keys_bt_insert [of k v m] by (auto simp: bt_ok_def)
qed

interpretation bt: ordered_map "[]" bt_insert bt_get bt_keys bt_ok
proof unfold_locales
  show "bt_get [] k = None" for k :: "'a::linorder"
    by (simp add: bt_get_def)
  show "bt_get (bt_insert k v m) = (bt_get m)(k \<mapsto> v)"
    if "bt_ok m" for k and v :: 'b and m :: "('a, 'b) btree"
    using that by (rule bt_get_insert)
  show "sorted_wrt (<) (bt_keys m)" if "bt_ok m" for m :: "('a, 'b) btree"
    using that by (simp add: bt_ok_def bt_keys_def)
  show "set (bt_keys m) = dom (bt_get m)" if "bt_ok m" for m :: "('a, 'b) btree"
    by (simp add: bt_keys_def bt_get_eq dom_map_of_conv_image_fst)
  show "bt_ok ([] :: ('a, 'b) btree)"
    by (simp add: bt_ok_def)
  show "bt_ok (bt_insert k v m)"
    if "bt_ok m" for k and v :: 'b and m :: "('a, 'b) btree"
    using that by (rule bt_ok_insert)
qed

lemma bt_contains_key_iff: "bt_contains_key m k \<longleftrightarrow> k \<in> dom (bt_get m)"
  by (auto simp: bt_contains_key_def)

lemma bt_length_keys: "bt_ok m \<Longrightarrow> length m = card (dom (bt_get m))"
  using distinct_card [of "bt_keys m"] bt.distinct_keys [of m] bt.keys_dom [of m]
  by (simp add: bt_keys_def)

end
