(* ===== verification/Core_Merge.thy ===== *)
theory Core_Merge
  imports BTreeMap
begin

text \<open>
  The crate mcgateway-core: the types of the merge path (\<open>Status\<close>, \<open>Entry\<close>,
  \<open>MergeResult\<close>), the \<open>Merge\<close> trait, the registry of named merges and the three
  built-in strategies.

  A trait object \<open>Arc<dyn Merge>\<close> is a record of its two methods. The state type
  \<open>'w\<close> is what an implementation may touch besides its arguments (the metrics and the
  log, for merges loaded from disk); the built-ins leave it alone.
\<close>

section \<open>Definitions\<close>

datatype status = StHit | StMiss | StError

record entry =
  e_key :: bytes
  e_pool :: string
  e_status :: status
  e_t :: "i64 option"
  e_value :: "bytes option"
  e_line :: "bytes option"

datatype merge_result = Winner nat | Synthesized bytes | Miss

record 'w merge =
  merge_apply :: "entry list \<Rightarrow> 'w \<Rightarrow> merge_result \<times> 'w"
  merge_flags :: string

text \<open>The default of \<open>Merge::required_flags\<close>.\<close>

definition default_required_flags :: string where
  "default_required_flags = ''''"

subsection \<open>The registry\<close>

record 'w registry =
  by_name :: "(string, 'w merge) btree"

definition registry_new :: "'w registry" where
  "registry_new = \<lparr>by_name = []\<rparr>"

definition registry_insert :: "string \<Rightarrow> 'w merge \<Rightarrow> 'w registry \<Rightarrow> 'w registry" where
  "registry_insert name m r = r\<lparr>by_name := bt_insert name m (by_name r)\<rparr>"

definition registry_get :: "'w registry \<Rightarrow> string \<Rightarrow> 'w merge option" where
  "registry_get r name = bt_get (by_name r) name"

definition registry_has :: "'w registry \<Rightarrow> string \<Rightarrow> bool" where
  "registry_has r name = bt_contains_key (by_name r) name"

definition registry_names :: "'w registry \<Rightarrow> string list" where
  "registry_names r = bt_keys (by_name r)"

definition registry_ok :: "'w registry \<Rightarrow> bool" where
  "registry_ok r \<longleftrightarrow> bt_ok (by_name r)"

subsection \<open>The built-in strategies\<close>

text \<open>\<open>FirstHit\<close>: the loop over \<open>entries.iter().enumerate()\<close> from index \<open>i\<close>.\<close>

fun first_hit_from :: "nat \<Rightarrow> entry list \<Rightarrow> merge_result" where
  "first_hit_from i [] = Miss"
| "first_hit_from i (e # es) =
     (if e_status e = StHit then Winner i else first_hit_from (Suc i) es)"

definition first_hit :: "entry list \<Rightarrow> merge_result" where
  "first_hit es = first_hit_from 0 es"

definition pool_preferred :: "entry list \<Rightarrow> merge_result" where
  "pool_preferred es = first_hit es"

text \<open>\<open>LastWriteWins\<close>: one step of the loop and the loop, with its mutable \<open>best\<close>.\<close>

definition lww_step ::
  "(nat \<times> i64 option) option \<Rightarrow> nat \<Rightarrow> entry \<Rightarrow> (nat \<times> i64 option) option" where
  "lww_step best i e =
     (if e_status e \<noteq> StHit then best
      else (case best of
        None \<Rightarrow> Some (i, e_t e)
      | Some (_, best_t) \<Rightarrow>
          (case e_t e of
             None \<Rightarrow> best
           | Some this_t \<Rightarrow>
               (case best_t of
                  None \<Rightarrow> Some (i, Some this_t)
                | Some bt \<Rightarrow>
                    if sint bt < sint this_t then Some (i, Some this_t) else best))))"

fun lww_loop ::
  "(nat \<times> i64 option) option \<Rightarrow> nat \<Rightarrow> entry list \<Rightarrow> (nat \<times> i64 option) option" where
  "lww_loop best i [] = best"
| "lww_loop best i (e # es) = lww_loop (lww_step best i e) (Suc i) es"

definition last_write_wins :: "entry list \<Rightarrow> merge_result" where
  "last_write_wins es =
     (case lww_loop None 0 es of Some (i, _) \<Rightarrow> Winner i | None \<Rightarrow> Miss)"

definition pure_merge :: "(entry list \<Rightarrow> merge_result) \<Rightarrow> string \<Rightarrow> 'w merge" where
  "pure_merge f flags = \<lparr>merge_apply = (\<lambda>es w. (f es, w)), merge_flags = flags\<rparr>"

definition FirstHit :: "'w merge" where
  "FirstHit = pure_merge first_hit default_required_flags"

definition PoolPreferred :: "'w merge" where
  "PoolPreferred = pure_merge pool_preferred default_required_flags"

definition LastWriteWins :: "'w merge" where
  "LastWriteWins = pure_merge last_write_wins ''t''"

definition register :: "'w registry \<Rightarrow> 'w registry" where
  "register reg =
     registry_insert ''last-write-wins'' LastWriteWins
       (registry_insert ''pool-preferred'' PoolPreferred
         (registry_insert ''first-hit'' FirstHit reg))"

subsection \<open>Specifications\<close>

definition is_hit :: "entry list \<Rightarrow> nat \<Rightarrow> bool" where
  "is_hit es i \<longleftrightarrow> i < length es \<and> e_status (es ! i) = StHit"

text \<open>A known remaining TTL beats an unknown one; known ones compare as signed numbers.\<close>

fun ttl_less :: "i64 option \<Rightarrow> i64 option \<Rightarrow> bool" where
  "ttl_less None (Some _) = True"
| "ttl_less (Some a) (Some b) = (sint a < sint b)"
| "ttl_less _ None = False"

text \<open>The earliest hit of maximal TTL among the candidates.\<close>

definition best_ttl :: "(entry \<Rightarrow> bool) \<Rightarrow> entry list \<Rightarrow> nat \<Rightarrow> bool" where
  "best_ttl cand es i \<longleftrightarrow>
     i < length es \<and> cand (es ! i) \<and>
     (\<forall>j < length es. cand (es ! j) \<longrightarrow> \<not> ttl_less (e_t (es ! i)) (e_t (es ! j))) \<and>
     (\<forall>j < i. cand (es ! j) \<longrightarrow> ttl_less (e_t (es ! j)) (e_t (es ! i)))"

section \<open>The contract of a selecting merge\<close>

text \<open>
  What the dispatch path needs of a strategy that picks one of the entries: it never
  makes up a value and its winner is a hit of the list it was given.
\<close>

locale selecting_merge =
  fixes pick :: "entry list \<Rightarrow> merge_result"
  assumes pick_hit: "pick es = Winner i \<Longrightarrow> is_hit es i"
    and pick_no_value: "pick es \<noteq> Synthesized v"
begin

lemma pick_cases:
  obtains (Win) i where "pick es = Winner i" "is_hit es i" | (None) "pick es = Miss"
  by (cases "pick es") (auto simp: pick_no_value dest: pick_hit)

lemma pick_empty: "pick [] = Miss"
  by (rule pick_cases [of "[]"]) (auto simp: is_hit_def)

lemma pick_no_hits: "(\<And>i. \<not> is_hit es i) \<Longrightarrow> pick es = Miss"
  by (rule pick_cases [of es]) auto

lemma pick_in_range: "pick es = Winner i \<Longrightarrow> i < length es"
  using pick_hit by (simp add: is_hit_def)

end

text \<open>A strategy that also never drops a hit.\<close>

locale complete_merge = selecting_merge +
  assumes pick_some: "is_hit es i \<Longrightarrow> pick es \<noteq> Miss"
begin

lemma pick_miss_iff: "pick es = Miss \<longleftrightarrow> (\<forall>i. \<not> is_hit es i)"
  using pick_some pick_no_hits by blast

end

section \<open>Lemmas\<close>

subsection \<open>Registry\<close>

lemmas registry_defs =
  registry_new_def registry_insert_def registry_get_def registry_has_def
  registry_names_def registry_ok_def

lemma registry_ok_new [simp]: "registry_ok registry_new"
  by (simp add: registry_defs bt.ok_empty)

lemma registry_ok_insert [simp]: "registry_ok r \<Longrightarrow> registry_ok (registry_insert n m r)"
  by (simp add: registry_defs bt.ok_insert)

lemma registry_get_new [simp]: "registry_get registry_new n = None"
  by (simp add: registry_defs bt.get_empty)

lemma registry_get_insert [simp]:
  "registry_ok r \<Longrightarrow>
   registry_get (registry_insert n m r) n' = (if n' = n then Some m else registry_get r n')"
  by (simp add: registry_defs bt.get_insert)

lemma registry_has_iff: "registry_has r n \<longleftrightarrow> registry_get r n \<noteq> None"
  by (simp add: registry_defs bt_contains_key_def)

lemma registry_names_sorted:
  "registry_ok r \<Longrightarrow> sorted_wrt (<) (registry_names r)"
  by (simp add: registry_defs bt.keys_sorted)

lemma set_registry_names: "registry_ok r \<Longrightarrow> set (registry_names r) = {n. registry_has r n}"
  by (auto simp: registry_defs bt.keys_dom bt_contains_key_def)

lemma registry_ok_register: "registry_ok r \<Longrightarrow> registry_ok (register r)"
  by (simp add: register_def)

lemma registry_get_register:
  "registry_ok r \<Longrightarrow>
   registry_get (register r) n =
     (if n = ''last-write-wins'' then Some LastWriteWins
      else if n = ''pool-preferred'' then Some PoolPreferred
      else if n = ''first-hit'' then Some FirstHit
      else registry_get r n)"
  by (simp add: register_def)

lemma pure_merge_simps [simp]:
  "merge_apply (pure_merge f fl) es w = (f es, w)"
  "merge_flags (pure_merge f fl) = fl"
  by (simp_all add: pure_merge_def)

subsection \<open>First hit\<close>

lemma is_hit_Nil [simp]: "\<not> is_hit [] i"
  by (simp add: is_hit_def)

lemma is_hit_Cons_Suc [simp]: "is_hit (e # es) (Suc i) \<longleftrightarrow> is_hit es i"
  by (simp add: is_hit_def)

lemma is_hit_Cons_0 [simp]: "is_hit (e # es) 0 \<longleftrightarrow> e_status e = StHit"
  by (simp add: is_hit_def)

lemma first_hit_from_Winner:
  "first_hit_from k es = Winner i \<longleftrightarrow>
   (\<exists>j. i = k + j \<and> is_hit es j \<and> (\<forall>j' < j. \<not> is_hit es j'))"
proof (induction k es rule: first_hit_from.induct)
  case (1 k)
  show ?case by simp
next
  case (2 k e es)
  then show ?case
    by (subst ex_nat_split) (auto simp: all_less_Suc_split)
qed

lemma first_hit_from_Miss: "first_hit_from k es = Miss \<longleftrightarrow> (\<forall>i. \<not> is_hit es i)"
proof (induction k es rule: first_hit_from.induct)
  case (2 k e es)
  have "(\<forall>i. \<not> is_hit (e # es) i) \<longleftrightarrow> e_status e \<noteq> StHit \<and> (\<forall>i. \<not> is_hit es i)"
    by (metis is_hit_Cons_0 is_hit_Cons_Suc not0_implies_Suc)
  with 2 show ?case by simp
qed simp

lemma first_hit_from_not_Synthesized: "first_hit_from k es \<noteq> Synthesized v"
  by (induction k es rule: first_hit_from.induct) auto

lemma first_hit_Winner:
  "first_hit es = Winner i \<longleftrightarrow> is_hit es i \<and> (\<forall>j < i. \<not> is_hit es j)"
  by (auto simp: first_hit_def first_hit_from_Winner)

interpretation fh: complete_merge first_hit
proof unfold_locales
  show "is_hit es i" if "first_hit es = Winner i" for es i
    using that by (simp add: first_hit_Winner)
  show "first_hit es \<noteq> Synthesized v" for es v
    by (simp add: first_hit_def first_hit_from_not_Synthesized)
  show "first_hit es \<noteq> Miss" if "is_hit es i" for es i
    using that by (auto simp: first_hit_def first_hit_from_Miss)
qed

interpretation pp: complete_merge pool_preferred
  using fh.complete_merge_axioms by (simp add: pool_preferred_def [abs_def])

subsection \<open>Greatest TTL\<close>

lemma ttl_less_irrefl [simp]: "\<not> ttl_less a a"
  by (cases a) auto

lemma ttl_less_le_trans: "\<not> ttl_less b a \<Longrightarrow> ttl_less b c \<Longrightarrow> ttl_less a c"
  by (cases a; cases b; cases c) auto

lemma ttl_less_asym: "ttl_less a b \<Longrightarrow> \<not> ttl_less b a"
  by (cases a; cases b) auto

lemma best_ttl_unique:
  assumes "best_ttl cand es i" "best_ttl cand es j"
  shows "i = j"
proof (rule ccontr)
  assume "i \<noteq> j"
  then consider "i < j" | "j < i"
    by linarith
  then show False
    using assms by cases (auto simp: best_ttl_def)
qed

lemma best_ttl_snoc_new:
  assumes best: "best_ttl cand ps i" and e: "cand e" "ttl_less (e_t (ps ! i)) (e_t e)"
  shows "best_ttl cand (ps @ [e]) (length ps)"
proof -
  have less: "ttl_less (e_t (ps ! j)) (e_t e)" if "j < length ps" "cand (ps ! j)" for j
    using best e that by (auto simp: best_ttl_def intro: ttl_less_le_trans)
  then have "\<not> ttl_less (e_t e) (e_t (ps ! j))" if "j < length ps" "cand (ps ! j)" for j
    using that ttl_less_asym by blast
  with less e show ?thesis
    by (auto simp: best_ttl_def nth_append less_Suc_eq)
qed

lemma best_ttl_snoc_keep:
  assumes "best_ttl cand ps i" "cand e \<Longrightarrow> \<not> ttl_less (e_t (ps ! i)) (e_t e)"
  shows "best_ttl cand (ps @ [e]) i"
  using assms by (auto simp: best_ttl_def nth_append less_Suc_eq)

lemma best_ttl_snoc_first:
  assumes "\<forall>p \<in> set ps. \<not> cand p" "cand e"
  shows "best_ttl cand (ps @ [e]) (length ps)"
  using assms by (auto simp: best_ttl_def nth_append less_Suc_eq)

text \<open>The loop invariant: \<open>best\<close> is the best hit of the prefix already seen.\<close>

definition best_inv ::
  "(entry \<Rightarrow> bool) \<Rightarrow> entry list \<Rightarrow> (nat \<times> i64 option) option \<Rightarrow> bool" where
  "best_inv cand ps best =
     (case best of
        None \<Rightarrow> \<forall>p \<in> set ps. \<not> cand p
      | Some (i, t) \<Rightarrow> best_ttl cand ps i \<and> t = e_t (ps ! i))"

lemma best_inv_Some_iff:
  assumes "best_inv cand es best"
  shows "(\<exists>t. best = Some (i, t)) \<longleftrightarrow> best_ttl cand es i"
proof (cases best)
  case None
  with assms have "\<not> best_ttl cand es i"
    by (auto simp: best_inv_def best_ttl_def)
  with None show ?thesis by simp
next
  case (Some it)
  with assms show ?thesis
    by (cases it) (auto simp: best_inv_def dest: best_ttl_unique)
qed

lemma best_inv_None_iff:
  assumes "best_inv cand es best"
  shows "best = None \<longleftrightarrow> (\<forall>i < length es. \<not> cand (es ! i))"
proof (cases best)
  case None
  with assms show ?thesis
    by (auto simp: best_inv_def)
next
  case (Some it)
  with assms show ?thesis
    by (cases it) (auto simp: best_inv_def best_ttl_def)
qed

lemma lww_step_inv:
  assumes "best_inv (\<lambda>e. e_status e = StHit) ps best"
  shows "best_inv (\<lambda>e. e_status e = StHit) (ps @ [e]) (lww_step best (length ps) e)"
proof (cases best)
  case None
  then show ?thesis
    using assms best_ttl_snoc_first [of ps "\<lambda>e. e_status e = StHit" e]
    by (auto simp: lww_step_def best_inv_def)
next
  case (Some it)
  then obtain i where it: "best = Some (i, e_t (ps ! i))"
    and best: "best_ttl (\<lambda>e. e_status e = StHit) ps i"
    using assms by (cases it) (auto simp: best_inv_def)
  then have i: "i < length ps"
    by (simp add: best_ttl_def)
  show ?thesis
    using best_ttl_snoc_new [OF best, of e] best_ttl_snoc_keep [OF best, of e] i
    by (auto simp: it lww_step_def best_inv_def nth_append split: option.splits)
qed

lemma lww_loop_inv:
  "best_inv (\<lambda>e. e_status e = StHit) ps best \<Longrightarrow>
   best_inv (\<lambda>e. e_status e = StHit) (ps @ es) (lww_loop best (length ps) es)"
proof (induction es arbitrary: ps best)
  case Nil
  then show ?case by simp
next
  case (Cons e es)
  from Cons.IH [OF lww_step_inv [OF Cons.prems]] show ?case
    by simp
qed

lemma lww_inv: "best_inv (\<lambda>e. e_status e = StHit) es (lww_loop None 0 es)"
  using lww_loop_inv [of "[]" None es] by (simp add: best_inv_def)

lemma last_write_wins_Winner:
  "last_write_wins es = Winner i \<longleftrightarrow> best_ttl (\<lambda>e. e_status e = StHit) es i"
  using best_inv_Some_iff [OF lww_inv, of es i]
  by (auto simp: last_write_wins_def split: option.splits)

lemma last_write_wins_Miss: "last_write_wins es = Miss \<longleftrightarrow> (\<forall>i. \<not> is_hit es i)"
  using best_inv_None_iff [OF lww_inv, of es]
  by (auto simp: last_write_wins_def is_hit_def split: option.splits)

interpretation lww: complete_merge last_write_wins
proof unfold_locales
  show "is_hit es i" if "last_write_wins es = Winner i" for es i
    using that by (simp add: last_write_wins_Winner best_ttl_def is_hit_def)
  show "last_write_wins es \<noteq> Synthesized v" for es v
    by (auto simp: last_write_wins_def split: option.splits)
  show "last_write_wins es \<noteq> Miss" if "is_hit es i" for es i
    using that by (auto simp: last_write_wins_Miss)
qed

section \<open>Properties\<close>

text \<open>
  C6. Last-write-wins picks exactly the earliest hit of greatest remaining TTL: a known TTL
  beats an unknown one, TTLs compare as signed 64-bit numbers, and a tie goes to the
  entry seen first. It answers a miss exactly when no entry is a hit.
\<close>

theorem last_write_wins_spec:
  "(last_write_wins es = Winner i \<longleftrightarrow> best_ttl (\<lambda>e. e_status e = StHit) es i) \<and>
   (last_write_wins es = Miss \<longleftrightarrow> (\<forall>j. \<not> is_hit es j)) \<and>
   last_write_wins es \<noteq> Synthesized v"
  by (simp add: last_write_wins_Winner last_write_wins_Miss lww.pick_no_value)

text \<open>
  C10. Why the strategy has its name: when every hit was written with the same initial TTL
  \<open>ttl\<close>, so that the remaining TTL of a copy written at time \<open>wr e\<close> is
  \<open>wr e + ttl - now\<close>, the winner is a copy with the latest write time.
\<close>

theorem last_write_wins_latest:
  assumes "\<And>e. e \<in> set es \<Longrightarrow> e_status e = StHit \<Longrightarrow>
      \<exists>t. e_t e = Some t \<and> sint t = wr e + ttl - now"
    and "last_write_wins es = Winner i" "e \<in> set es" "e_status e = StHit"
  shows "wr e \<le> wr (es ! i)"
proof -
  obtain j where j: "j < length es" "es ! j = e"
    using assms(3) by (auto simp: in_set_conv_nth)
  have i: "i < length es" "e_status (es ! i) = StHit" "\<not> ttl_less (e_t (es ! i)) (e_t e)"
    using assms(2,4) j by (auto simp: last_write_wins_Winner best_ttl_def)
  obtain t where "e_t e = Some t" "sint t = wr e + ttl - now"
    using assms(1) [OF assms(3,4)] by blast
  moreover obtain u where "e_t (es ! i) = Some u" "sint u = wr (es ! i) + ttl - now"
    using assms(1) [OF nth_mem [OF i(1)] i(2)] by blast
  ultimately show ?thesis
    using i(3) by simp
qed

theorem last_write_wins_latest_witness:
  defines "hit t \<equiv> \<lparr>e_key = [1], e_pool = ''a'', e_status = StHit, e_t = Some t,
    e_value = None, e_line = None\<rparr>"
  shows "last_write_wins [hit 10, hit 30, hit 20] = Winner 1 \<and>
    sint (10::i64) + 100 \<le> (\<lambda>e. sint (the (e_t e)) + 100) ([hit 10, hit 30, hit 20] ! 1)"
proof -
  have w: "last_write_wins [hit 10, hit 30, hit 20] = Winner 1"
    by (simp add: hit_def last_write_wins_def lww_step_def)
  have "(\<lambda>e. sint (the (e_t e)) + 100) (hit 10) \<le>
      (\<lambda>e. sint (the (e_t e)) + 100) ([hit 10, hit 30, hit 20] ! 1)"
    by (rule last_write_wins_latest [where ttl = 200 and now = 300, OF _ w])
      (auto simp: hit_def)
  then show ?thesis
    using w by (simp add: hit_def)
qed

text \<open>
  First-hit, and pool-preferred with it, picks the hit of lowest index and misses
  exactly when there is none.
\<close>

lemma first_hit_spec:
  "(first_hit es = Winner i \<longleftrightarrow> is_hit es i \<and> (\<forall>j < i. \<not> is_hit es j)) \<and>
   (first_hit es = Miss \<longleftrightarrow> (\<forall>j. \<not> is_hit es j)) \<and>
   pool_preferred es = first_hit es"
  by (simp add: first_hit_Winner fh.pick_miss_iff pool_preferred_def)

text \<open>
  After \<open>register\<close> the three built-in names resolve to the built-in strategies, only
  last-write-wins asks for a memcached flag, every other name resolves as before, and the
  names are listed in order without repetition.
\<close>

lemma register_spec:
  assumes "registry_ok r"
  shows "registry_get (register r) ''first-hit'' = Some FirstHit \<and>
    registry_get (register r) ''pool-preferred'' = Some PoolPreferred \<and>
    registry_get (register r) ''last-write-wins'' = Some LastWriteWins \<and>
    (merge_flags FirstHit, merge_flags PoolPreferred, merge_flags LastWriteWins) = ([], [], ''t'') \<and>
    (n \<notin> {''first-hit'', ''pool-preferred'', ''last-write-wins''} \<longrightarrow>
      registry_get (register r) n = registry_get r n) \<and>
    sorted_wrt (<) (registry_names (register r)) \<and>
    set (registry_names (register r)) =
      {''first-hit'', ''pool-preferred'', ''last-write-wins''} \<union> set (registry_names r)"
  using assms
  by (auto simp: registry_get_register registry_ok_register registry_names_sorted
      set_registry_names registry_has_iff FirstHit_def PoolPreferred_def LastWriteWins_def
      default_required_flags_def)

end
