(* ===== verification/Wasm_Abi.thy ===== *)
theory Wasm_Abi
  imports Core_Merge
begin

text \<open>
  The crate mcgateway-wasm-host, first part: the constants of the ABI, the errors of a
  merge call and their classification, the per-call store data and the \<open>mcgw.log\<close>
  import.

  Wasmtime and the compiled guest are not part of the repository. Here they are the
  record \<open>exports\<close>, a parameter of every definition that calls into them: the memory
  accessors (\<open>Memory::read\<close> and \<open>Memory::write\<close>, failing out of bounds) and the
  typed functions a module may export, each on an opaque store state \<open>'s\<close>. A missing
  export is \<open>None\<close>.
\<close>

section \<open>Definitions\<close>

subsection \<open>Constants\<close>

definition ABI_VERSION :: u32 where "ABI_VERSION = 1"
definition ENTRY_SIZE :: u32 where "ENTRY_SIZE = 48"

definition STATUS_HIT :: u32 where "STATUS_HIT = 0"
definition STATUS_MISS :: u32 where "STATUS_MISS = 1"
definition STATUS_ERROR :: u32 where "STATUS_ERROR = 2"

definition RESULT_TAG_MISS :: u8 where "RESULT_TAG_MISS = 0"
definition RESULT_TAG_WINNER :: u8 where "RESULT_TAG_WINNER = 1"
definition RESULT_TAG_SYNTHESIZED :: u8 where "RESULT_TAG_SYNTHESIZED = 2"
definition RESULT_TAG_GUEST_ERROR :: u8 where "RESULT_TAG_GUEST_ERROR = 0xFF"

definition DEFAULT_DEADLINE_MS :: u64 where "DEFAULT_DEADLINE_MS = 50"
definition TICK_INTERVAL_MS :: u64 where "TICK_INTERVAL_MS = 2"
definition LOG_BUDGET_PER_CALL :: u32 where "LOG_BUDGET_PER_CALL = 16"
definition LOG_MAX_BYTES :: u32 where "LOG_MAX_BYTES = 4096"
definition MAX_GUEST_MEMORY_BYTES :: nat where "MAX_GUEST_MEMORY_BYTES = 16 * 1024 * 1024"

lemmas abi_constants =
  ABI_VERSION_def ENTRY_SIZE_def STATUS_HIT_def STATUS_MISS_def STATUS_ERROR_def
  RESULT_TAG_MISS_def RESULT_TAG_WINNER_def RESULT_TAG_SYNTHESIZED_def
  RESULT_TAG_GUEST_ERROR_def MAX_GUEST_MEMORY_BYTES_def

subsection \<open>Errors\<close>

text \<open>
  A \<open>wasmtime::Error\<close> as \<open>run\<close> returns it: a trap, the marker \<open>GuestError\<close>, one of
  the host's own \<open>werr!\<close> messages, a failed memory access, or any other error of the
  runtime (an exhausted instance pool, say).
\<close>

datatype trap = Trap_Interrupt | Trap_Code nat

datatype host_error =
    TooManyEntries
  | EntryArrayOverflow
  | AllocNull
  | FieldTooLarge string
  | FieldTotalOverflow
  | MissingExport string
  | WinnerOutOfRange nat nat
  | PayloadTooLarge u32
  | UnknownTag u8
  | FlagsNotUtf8

datatype wasm_error =
    ErrTrap trap
  | ErrGuest u8
  | ErrHost host_error
  | ErrMemoryAccess
  | ErrRuntime nat

datatype merge_error_kind = KDeadline | KTrap | KGuest | KHost

fun classify :: "wasm_error \<Rightarrow> merge_error_kind" where
  "classify (ErrTrap t) = (if t = Trap_Interrupt then KDeadline else KTrap)"
| "classify (ErrGuest code) = KGuest"
| "classify _ = KHost"

fun kind_as_str :: "merge_error_kind \<Rightarrow> string" where
  "kind_as_str KDeadline = ''deadline''"
| "kind_as_str KTrap = ''trap''"
| "kind_as_str KGuest = ''guest''"
| "kind_as_str KHost = ''host''"

subsection \<open>Store data and the log import\<close>

record store_data =
  sd_module_name :: string
  log_budget_remaining :: u32

definition store_data_new :: "string \<Rightarrow> store_data" where
  "store_data_new name = \<lparr>sd_module_name = name, log_budget_remaining = LOG_BUDGET_PER_CALL\<rparr>"

datatype log_level = LTrace | LDebug | LInfo | LWarn | LError

definition log_level_of :: "u32 \<Rightarrow> log_level" where
  "log_level_of l =
     (if l = 0 then LTrace else if l = 1 then LDebug else if l = 2 then LInfo
      else if l = 3 then LWarn else LError)"

record log_line =
  ll_level :: log_level
  ll_module :: string
  ll_msg :: string

text \<open>
  \<open>mcgw.log(level, ptr, len)\<close>: \<open>memory\<close> is the guest's memory export as seen by the
  caller, if it has one. \<open>enabled\<close> is the filter of \<open>log::log!\<close>: whether the facade's maximal
  level lets a record of a level through to the logger. The result is the new store data and the line
  written, if any.
\<close>

definition mcgw_log ::
  "(log_level \<Rightarrow> bool) \<Rightarrow> (nat \<Rightarrow> nat \<Rightarrow> bytes option) option \<Rightarrow> u32 \<Rightarrow> u32 \<Rightarrow> u32 \<Rightarrow> store_data \<Rightarrow>
   store_data \<times> log_line option" where
  "mcgw_log enabled memory level ptr len st =
     (case memory of
        None \<Rightarrow> (st, None)
      | Some rd \<Rightarrow>
          (case rd (unat ptr) (unat (min len LOG_MAX_BYTES)) of
             None \<Rightarrow> (st, None)
           | Some buf \<Rightarrow>
               if log_budget_remaining st = 0 then (st, None)
               else
                 let st' = st\<lparr>log_budget_remaining := log_budget_remaining st - 1\<rparr>;
                     log_level = log_level_of level;
                     msg = from_utf8_lossy buf
                 in (st',
                     if enabled log_level
                     then Some \<lparr>ll_level = log_level, ll_module = sd_module_name st', ll_msg = msg\<rparr>
                     else None)))"

text \<open>What \<open>Memory::read\<close> documents: on success the whole buffer is filled.\<close>

definition fills_buffer :: "(nat \<Rightarrow> nat \<Rightarrow> bytes option) option \<Rightarrow> bool" where
  "fills_buffer memory \<longleftrightarrow>
     (\<forall>rd p n buf. memory = Some rd \<longrightarrow> rd p n = Some buf \<longrightarrow> length buf = n)"

text \<open>A guest's log calls during one merge call; the memory may change in between.\<close>

type_synonym log_call = "(nat \<Rightarrow> nat \<Rightarrow> bytes option) option \<times> u32 \<times> u32 \<times> u32"

fun run_log_calls ::
  "(log_level \<Rightarrow> bool) \<Rightarrow> log_call list \<Rightarrow> store_data \<Rightarrow> store_data \<times> log_line list" where
  "run_log_calls enabled [] st = (st, [])"
| "run_log_calls enabled ((memory, level, ptr, len) # cs) st =
     (let (st', line) = mcgw_log enabled memory level ptr len st;
          (st'', ls) = run_log_calls enabled cs st'
      in (st'', (case line of None \<Rightarrow> ls | Some l \<Rightarrow> l # ls)))"

subsection \<open>Exports and modules\<close>

record 's memory_export =
  mem_read :: "'s \<Rightarrow> nat \<Rightarrow> nat \<Rightarrow> bytes option"
  mem_write :: "'s \<Rightarrow> nat \<Rightarrow> bytes \<Rightarrow> 's option"

record 's exports =
  x_memory :: "'s memory_export option"
  x_abi_version :: "('s \<Rightarrow> wasm_error + u32 \<times> 's) option"
  x_alloc :: "('s \<Rightarrow> u32 \<Rightarrow> u32 \<Rightarrow> wasm_error + u32 \<times> 's) option"
  x_dealloc :: "('s \<Rightarrow> u32 \<Rightarrow> u32 \<Rightarrow> u32 \<Rightarrow> wasm_error + 's) option"
  x_merge :: "('s \<Rightarrow> u32 \<Rightarrow> u32 \<Rightarrow> wasm_error + u64 \<times> 's) option"
  x_required_flags :: "('s \<Rightarrow> wasm_error + u64 \<times> 's) option"

text \<open>
  A compiled module as the host sees it: whether its imports link, what instantiating it
  into a fresh store with a given epoch deadline gives, and its exports.
\<close>

record 's wasm_module =
  prelink :: "wasm_error option"
  instantiate :: "store_data \<Rightarrow> u64 \<Rightarrow> wasm_error + 's"
  module_exports :: "'s exports"

definition read_mem ::
  "'s memory_export \<Rightarrow> 's \<Rightarrow> nat \<Rightarrow> nat \<Rightarrow> wasm_error + bytes" where
  "read_mem m s p n = ok_or ErrMemoryAccess (mem_read m s p n)"

definition write_mem ::
  "'s memory_export \<Rightarrow> 's \<Rightarrow> nat \<Rightarrow> bytes \<Rightarrow> wasm_error + 's" where
  "write_mem m s p bs = ok_or ErrMemoryAccess (mem_write m s p bs)"

section \<open>Lemmas\<close>

lemma classify_deadline_iff: "classify e = KDeadline \<longleftrightarrow> e = ErrTrap Trap_Interrupt"
  by (cases e) auto

lemma classify_guest_iff: "classify e = KGuest \<longleftrightarrow> (\<exists>code. e = ErrGuest code)"
  by (cases e) auto

lemma kind_as_str_inj: "kind_as_str k = kind_as_str k' \<longleftrightarrow> k = k'"
  by (cases k; cases k') auto

lemma length_utf8_lossy: "length (utf8_lossy bs) \<le> 3 * length bs"
proof (induction bs rule: utf8_lossy.induct)
  case 1
  show ?case by simp
next
  case (2 b bs)
  obtain ok n where step: "utf8_step b bs = (ok, n)"
    by (cases "utf8_step b bs")
  have "length (utf8_lossy (drop n bs)) \<le> 3 * (length bs - n)"
    using "2.IH" step by simp
  with step show ?case
    by (auto simp: min_def)
qed

text \<open>Every call that writes a line spends budget.\<close>

lemma mcgw_log_budget:
  assumes "mcgw_log enabled memory level ptr len st = (st', line)"
  shows "unat (log_budget_remaining st') + (if line = None then 0 else 1) \<le> unat (log_budget_remaining st)"
    and "sd_module_name st' = sd_module_name st"
  using assms
  by (auto simp: mcgw_log_def Let_def unat_pred [of "log_budget_remaining st"] split: option.splits if_splits)

lemma mcgw_log_line:
  assumes "mcgw_log enabled memory level ptr len st = (st', Some l)"
  obtains rd buf where "memory = Some rd"
    "rd (unat ptr) (unat (min len LOG_MAX_BYTES)) = Some buf"
    "ll_msg l = from_utf8_lossy buf" "ll_module l = sd_module_name st"
    "ll_level l = log_level_of level"
  using assms by (auto simp: mcgw_log_def Let_def split: option.splits if_splits)

lemma mcgw_log_length:
  assumes "mcgw_log enabled memory level ptr len st = (st', Some l)"
    and "fills_buffer memory"
  shows "length (ll_msg l) \<le> 3 * 4096"
proof -
  obtain rd buf where rd: "memory = Some rd"
    "rd (unat ptr) (unat (min len LOG_MAX_BYTES)) = Some buf"
    and msg: "ll_msg l = from_utf8_lossy buf"
    using assms(1) by (rule mcgw_log_line)
  have "unat (min len LOG_MAX_BYTES) \<le> unat LOG_MAX_BYTES"
    by (simp flip: word_le_nat_alt)
  then have "length buf \<le> 4096"
    using assms(2) rd by (simp add: LOG_MAX_BYTES_def fills_buffer_def)
  moreover have "length (ll_msg l) \<le> 3 * length buf"
    using length_utf8_lossy [of buf]
    by (simp add: msg from_utf8_lossy_def str_of_bytes_def)
  ultimately show ?thesis by simp
qed

lemma run_log_calls_Cons:
  assumes "run_log_calls enabled ((memory, level, ptr, len) # cs) st = (st', ls)"
  obtains st1 line ls1 where "mcgw_log enabled memory level ptr len st = (st1, line)"
    "run_log_calls enabled cs st1 = (st', ls1)"
    "ls = (case line of None \<Rightarrow> ls1 | Some l \<Rightarrow> l # ls1)"
  using assms by (auto split: prod.splits)

lemma run_log_calls_budget:
  "run_log_calls enabled cs st = (st', ls) \<Longrightarrow>
   unat (log_budget_remaining st') + length ls \<le> unat (log_budget_remaining st)"
proof (induction cs arbitrary: st ls)
  case Nil
  then show ?case by simp
next
  case (Cons c cs)
  obtain memory level ptr len where c: "c = (memory, level, ptr, len)"
    by (cases c)
  obtain st1 line ls1 where one: "mcgw_log enabled memory level ptr len st = (st1, line)"
    and rest: "run_log_calls enabled cs st1 = (st', ls1)"
    and ls: "ls = (case line of None \<Rightarrow> ls1 | Some l \<Rightarrow> l # ls1)"
    using Cons.prems unfolding c by (rule run_log_calls_Cons)
  from mcgw_log_budget(1) [OF one] Cons.IH [OF rest] ls show ?case
    by (auto split: option.splits)
qed

lemma run_log_calls_lines:
  assumes "run_log_calls enabled cs st = (st', ls)" "l \<in> set ls"
    and "\<forall>c \<in> set cs. fills_buffer (fst c)"
  shows "ll_module l = sd_module_name st \<and> length (ll_msg l) \<le> 3 * 4096"
  using assms
proof (induction cs arbitrary: st ls)
  case Nil
  then show ?case by simp
next
  case (Cons c cs)
  obtain memory level ptr len where c: "c = (memory, level, ptr, len)"
    by (cases c)
  obtain st1 line ls1 where one: "mcgw_log enabled memory level ptr len st = (st1, line)"
    and rest: "run_log_calls enabled cs st1 = (st', ls1)"
    and ls: "ls = (case line of None \<Rightarrow> ls1 | Some l \<Rightarrow> l # ls1)"
    using Cons.prems(1) unfolding c by (rule run_log_calls_Cons)
  consider "l \<in> set ls1" | "line = Some l"
    using Cons.prems(2) ls by (auto split: option.splits)
  then show ?case
  proof cases
    case 1
    have "ll_module l = sd_module_name st1 \<and> length (ll_msg l) \<le> 3 * 4096"
      using Cons.IH [OF rest 1] Cons.prems(3) by simp
    then show ?thesis
      using mcgw_log_budget(2) [OF one] by simp
  next
    case 2
    have "length (ll_msg l) \<le> 3 * 4096"
      using mcgw_log_length [OF one [unfolded 2]] Cons.prems(3) c by simp
    moreover have "ll_module l = sd_module_name st"
      using one unfolding 2 by (rule mcgw_log_line)
    ultimately show ?thesis by simp
  qed
qed

section \<open>Properties\<close>

text \<open>
  C9. Whatever a guest passes to \<open>mcgw.log\<close> during one merge call, at most sixteen lines
  are written, each carries the module's name, and none is longer than the 4096 bytes
  read (a replacement character takes three bytes in place of one).
\<close>

theorem log_bounded_per_call:
  assumes "\<forall>c \<in> set cs. fills_buffer (fst c)"
    and "run_log_calls enabled cs (store_data_new name) = (st, ls)"
  shows "length ls \<le> 16 \<and> (\<forall>l \<in> set ls. ll_module l = name \<and> length (ll_msg l) \<le> 3 * 4096)"
proof
  show "length ls \<le> 16"
    using run_log_calls_budget [OF assms(2)] by (simp add: store_data_new_def LOG_BUDGET_PER_CALL_def)
  show "\<forall>l \<in> set ls. ll_module l = name \<and> length (ll_msg l) \<le> 3 * 4096"
    using run_log_calls_lines [OF assms(2) _ assms(1)] by (simp add: store_data_new_def)
qed

theorem log_bounded_per_call_witness:
  defines "call \<equiv> (Some (\<lambda>p n. Some (replicate n 65)), 2, 0, 3) :: log_call"
  shows "run_log_calls (\<lambda>_. True) (replicate 18 call) (store_data_new ''m'') =
      (\<lparr>sd_module_name = ''m'', log_budget_remaining = 0\<rparr>,
       replicate 16 \<lparr>ll_level = LInfo, ll_module = ''m'', ll_msg = ''AAA''\<rparr>) \<and>
    length (replicate 16 \<lparr>ll_level = LInfo, ll_module = ''m'', ll_msg = ''AAA''\<rparr>) \<le> 16"
proof -
  have r: "run_log_calls (\<lambda>_. True) (replicate 18 call) (store_data_new ''m'') =
      (\<lparr>sd_module_name = ''m'', log_budget_remaining = 0\<rparr>,
       replicate 16 \<lparr>ll_level = LInfo, ll_module = ''m'', ll_msg = ''AAA''\<rparr>)"
    unfolding call_def by code_simp
  moreover have "\<forall>c \<in> set (replicate 18 call). fills_buffer (fst c)"
    by (simp add: call_def fills_buffer_def)
  ultimately show ?thesis
    using log_bounded_per_call by blast
qed

end
