(* ===== verification/Wasm_Codec.thy ===== *)
theory Wasm_Codec
  imports Wasm_Abi
begin

text \<open>
  The crate mcgateway-wasm-host, second part: the host side of the wire format.
  \<open>FieldPtrs::write\<close> puts the variable-length fields of one entry into a guest buffer,
  \<open>encode_entry\<close> lays out the 48-byte record that points at them,
  \<open>EncodedEntries::write\<close> does both for a list of entries, and \<open>decode_result\<close> reads
  the packed result back.

  The locale \<open>guest_heap\<close> is what this code relies on of the guest: a linear memory
  whose reads and writes agree, and an allocator that hands out fresh blocks. The lemmas
  inside it show what the encoded entries look like in memory. Pointer arithmetic is on
  32-bit words and wraps, as in the release build.
\<close>

section \<open>Definitions\<close>

record field_ptrs =
  fp_key :: "u32 \<times> u32"
  fp_pool :: "u32 \<times> u32"
  fp_value :: "u32 \<times> u32"
  fp_line :: "u32 \<times> u32"

definition field_len :: "string \<Rightarrow> bytes \<Rightarrow> wasm_error + u32" where
  "field_len name bs = ok_or (ErrHost (FieldTooLarge name)) (u32_try_from (length bs))"

definition opt_field_len :: "string \<Rightarrow> bytes option \<Rightarrow> wasm_error + u32" where
  "opt_field_len name f = (case f of Some b \<Rightarrow> field_len name b | None \<Rightarrow> Inr 0)"

text \<open>The size asked of the guest: the sum (in u64) of the field lengths, at least one.\<close>

definition fields_alloc_size :: "u32 \<Rightarrow> u32 \<Rightarrow> u32 \<Rightarrow> u32 \<Rightarrow> wasm_error + u32" where
  "fields_alloc_size kl pl vl ll =
     ok_or (ErrHost FieldTotalOverflow)
       (u32_try_from (max (unat kl + unat pl + unat vl + unat ll) 1))"

definition field_ptrs_write ::
  "'s memory_export \<Rightarrow> ('s \<Rightarrow> u32 \<Rightarrow> u32 \<Rightarrow> wasm_error + u32 \<times> 's) \<Rightarrow> entry \<Rightarrow> 's \<Rightarrow>
   wasm_error + field_ptrs \<times> 's" where
  "field_ptrs_write memory alloc e s =
     and_then (field_len ''key'' (e_key e)) (\<lambda>key_len.
     and_then (field_len ''pool'' (as_bytes (e_pool e))) (\<lambda>pool_len.
     and_then (opt_field_len ''value'' (e_value e)) (\<lambda>value_len.
     and_then (opt_field_len ''line'' (e_line e)) (\<lambda>line_len.
     and_then (fields_alloc_size key_len pool_len value_len line_len) (\<lambda>alloc_size.
     and_then (alloc s alloc_size 1) (\<lambda>(base, s).
     if base = 0 then Inl (ErrHost AllocNull)
     else
       let off = 0 in
       and_then (write_mem memory s (unat (base + off)) (e_key e)) (\<lambda>s.
       let key = (base + off, key_len); off = off + key_len in
       and_then (write_mem memory s (unat (base + off)) (as_bytes (e_pool e))) (\<lambda>s.
       let pool = (base + off, pool_len); off = off + pool_len in
       and_then
         (case e_value e of
            Some b \<Rightarrow>
              and_then (write_mem memory s (unat (base + off)) b) (\<lambda>s.
              Inr ((base + off, value_len), off + value_len, s))
          | None \<Rightarrow> Inr ((0, 0), off, s)) (\<lambda>(value, off, s).
       and_then
         (case e_line e of
            Some b \<Rightarrow>
              and_then (write_mem memory s (unat (base + off)) b) (\<lambda>s.
              Inr ((base + off, line_len), s))
          | None \<Rightarrow> Inr ((0, 0), s)) (\<lambda>(line, s).
       Inr (\<lparr>fp_key = key, fp_pool = pool, fp_value = value, fp_line = line\<rparr>, s)))))))))))"

subsection \<open>The 48-byte record\<close>

text \<open>\<open>out[off..off + n].copy_from_slice(bs)\<close>\<close>

definition copy_at :: "nat \<Rightarrow> bytes \<Rightarrow> bytes \<Rightarrow> bytes" where
  "copy_at off bs out = take off out @ bs @ drop (off + length bs) out"

fun status_code :: "status \<Rightarrow> u32" where
  "status_code StHit = STATUS_HIT"
| "status_code StMiss = STATUS_MISS"
| "status_code StError = STATUS_ERROR"

definition encode_entry :: "entry \<Rightarrow> field_ptrs \<Rightarrow> bytes \<Rightarrow> bytes" where
  "encode_entry entry fps out =
     (let status = status_code (e_status entry);
          (t_present, t) = (case e_t entry of Some v \<Rightarrow> (1::u32, v) | None \<Rightarrow> (0, 0));
          out = copy_at 0 (le_bytes 4 (fst (fp_key fps))) out;
          out = copy_at 4 (le_bytes 4 (snd (fp_key fps))) out;
          out = copy_at 8 (le_bytes 4 (fst (fp_pool fps))) out;
          out = copy_at 12 (le_bytes 4 (snd (fp_pool fps))) out;
          out = copy_at 16 (le_bytes 4 (fst (fp_value fps))) out;
          out = copy_at 20 (le_bytes 4 (snd (fp_value fps))) out;
          out = copy_at 24 (le_bytes 4 (fst (fp_line fps))) out;
          out = copy_at 28 (le_bytes 4 (snd (fp_line fps))) out;
          out = copy_at 32 (le_bytes 4 status) out;
          out = copy_at 36 (le_bytes 4 t_present) out;
          out = copy_at 40 (le_bytes 8 (t::i64)) out
      in out)"

subsection \<open>A list of entries\<close>

record encoded_entries =
  ee_ptr :: u32
  ee_count :: u32
  ee_total_size :: u32

fun write_all_fields ::
  "'s memory_export \<Rightarrow> ('s \<Rightarrow> u32 \<Rightarrow> u32 \<Rightarrow> wasm_error + u32 \<times> 's) \<Rightarrow> entry list \<Rightarrow> 's \<Rightarrow>
   wasm_error + field_ptrs list \<times> 's" where
  "write_all_fields memory alloc [] s = Inr ([], s)"
| "write_all_fields memory alloc (e # es) s =
     and_then (field_ptrs_write memory alloc e s) (\<lambda>(f, s).
     and_then (write_all_fields memory alloc es s) (\<lambda>(fs, s).
     Inr (f # fs, s)))"

fun write_records ::
  "'s memory_export \<Rightarrow> u32 \<Rightarrow> nat \<Rightarrow> bytes \<Rightarrow> (entry \<times> field_ptrs) list \<Rightarrow> 's \<Rightarrow>
   wasm_error + 's" where
  "write_records memory ptr i scratch [] s = Inr s"
| "write_records memory ptr i scratch ((entry, fps) # rs) s =
     (let scratch = encode_entry entry fps scratch;
          offset = unat ptr + i * unat ENTRY_SIZE in
      and_then (write_mem memory s offset scratch) (\<lambda>s.
      write_records memory ptr (Suc i) scratch rs s))"

definition encoded_entries_write ::
  "'s memory_export \<Rightarrow> ('s \<Rightarrow> u32 \<Rightarrow> u32 \<Rightarrow> wasm_error + u32 \<times> 's) \<Rightarrow> entry list \<Rightarrow> 's \<Rightarrow>
   wasm_error + encoded_entries \<times> 's" where
  "encoded_entries_write memory alloc entries s =
     and_then (ok_or (ErrHost TooManyEntries) (u32_try_from (length entries))) (\<lambda>count.
     and_then (write_all_fields memory alloc entries s) (\<lambda>(field_allocs, s).
     and_then (ok_or (ErrHost EntryArrayOverflow) (checked_mul_u32 count ENTRY_SIZE))
       (\<lambda>total_size.
     let alloc_size = (if total_size = 0 then 1 else total_size) in
     and_then (alloc s alloc_size 8) (\<lambda>(ptr, s).
     if ptr = 0 then Inl (ErrHost AllocNull)
     else
       and_then (write_records memory ptr 0 (replicate (unat ENTRY_SIZE) 0)
                   (zip entries field_allocs) s) (\<lambda>s.
       Inr (\<lparr>ee_ptr = ptr, ee_count = count, ee_total_size = alloc_size\<rparr>, s))))))"

subsection \<open>The packed result\<close>

definition decode_result ::
  "'s memory_export \<Rightarrow> ('s \<Rightarrow> u32 \<Rightarrow> u32 \<Rightarrow> u32 \<Rightarrow> wasm_error + 's) \<Rightarrow> u64 \<Rightarrow> 's \<Rightarrow>
   wasm_error + merge_result \<times> 's" where
  "decode_result memory dealloc packed s =
     (let tag = (ucast (packed AND 0xFF) :: u8) in
      if tag = RESULT_TAG_MISS then Inr (Miss, s)
      else if tag = RESULT_TAG_WINNER then
        (let idx = (ucast (drop_bit 32 packed) :: u32) in Inr (Winner (unat idx), s))
      else if tag = RESULT_TAG_SYNTHESIZED then
        (let desc_ptr = (ucast (drop_bit 32 packed) :: u32) in
         and_then (read_mem memory s (unat desc_ptr) 8) (\<lambda>desc.
         let ptr = (le_word (take 4 desc) :: u32);
             len = (le_word (take 4 (drop 4 desc)) :: u32) in
         if MAX_GUEST_MEMORY_BYTES < unat len then Inl (ErrHost (PayloadTooLarge len))
         else
           and_then (read_mem memory s (unat ptr) (unat len)) (\<lambda>buf.
           and_then (dealloc s ptr (max len 1) 1) (\<lambda>s.
           and_then (dealloc s desc_ptr 8 4) (\<lambda>s.
           Inr (Synthesized buf, s))))))
      else if tag = RESULT_TAG_GUEST_ERROR then
        (let code = (ucast (drop_bit 8 packed AND 0xFF) :: u8) in Inl (ErrGuest code))
      else Inl (ErrHost (UnknownTag tag)))"

text \<open>The addresses of a map from block addresses to their layouts (size, alignment).\<close>

type_synonym blocks = "nat \<rightharpoonup> nat \<times> nat"

definition owned_of :: "blocks \<Rightarrow> nat set" where
  "owned_of b = {a. \<exists>p n al. b p = Some (n, al) \<and> p \<le> a \<and> a < p + n}"

definition opt_len :: "bytes option \<Rightarrow> nat" where
  "opt_len f = (case f of None \<Rightarrow> 0 | Some b \<Rightarrow> length b)"

text \<open>The bytes of an entry's variable-length fields.\<close>

definition entry_len :: "entry \<Rightarrow> nat" where
  "entry_len e = length (e_key e) + length (e_pool e) + opt_len (e_value e) + opt_len (e_line e)"

text \<open>What \<open>FieldPtrs::write\<close> may take of the guest's heap (alignment is one byte).\<close>

definition entry_cost :: "entry \<Rightarrow> nat" where
  "entry_cost e = max (entry_len e) 1 + 1"

definition entries_cost :: "entry list \<Rightarrow> nat" where
  "entries_cost es = sum_list (map entry_cost es) + (max (48 * length es) 1 + 8)"

text \<open>The documented layout of the record, field by field.\<close>

definition record_fields :: "entry \<Rightarrow> field_ptrs \<Rightarrow> bytes list" where
  "record_fields e fps =
     [le_bytes 4 (fst (fp_key fps)), le_bytes 4 (snd (fp_key fps)),
      le_bytes 4 (fst (fp_pool fps)), le_bytes 4 (snd (fp_pool fps)),
      le_bytes 4 (fst (fp_value fps)), le_bytes 4 (snd (fp_value fps)),
      le_bytes 4 (fst (fp_line fps)), le_bytes 4 (snd (fp_line fps)),
      le_bytes 4 (status_code (e_status e)),
      le_bytes 4 (if e_t e = None then 0 else 1 :: u32),
      le_bytes 8 (case e_t e of None \<Rightarrow> 0 | Some t \<Rightarrow> t)]"

definition entry_record :: "entry \<Rightarrow> field_ptrs \<Rightarrow> bytes" where
  "entry_record e fps = concat (record_fields e fps)"

section \<open>The contract of the guest's memory and allocator\<close>

locale guest_heap =
  fixes memory :: "'s memory_export"
    and alloc :: "'s \<Rightarrow> u32 \<Rightarrow> u32 \<Rightarrow> wasm_error + u32 \<times> 's"
    and dealloc :: "'s \<Rightarrow> u32 \<Rightarrow> u32 \<Rightarrow> u32 \<Rightarrow> wasm_error + 's"
    and blocks :: "'s \<Rightarrow> blocks"
    and avail :: "'s \<Rightarrow> nat"
    and ok :: "'s \<Rightarrow> bool"
  assumes read_len: "ok s \<Longrightarrow> mem_read memory s p n = Some bs \<Longrightarrow> length bs = n"
    and read_sub: "ok s \<Longrightarrow> mem_read memory s p n = Some bs \<Longrightarrow> off + k \<le> n \<Longrightarrow>
      mem_read memory s (p + off) k = Some (take k (drop off bs))"
    and read_ok: "ok s \<Longrightarrow> blocks s a = Some (n, al) \<Longrightarrow> a \<le> p \<Longrightarrow> p + k \<le> a + n \<Longrightarrow>
      \<exists>bs. mem_read memory s p k = Some bs"
    and write_ok: "ok s \<Longrightarrow> blocks s a = Some (n, al) \<Longrightarrow> 0 < n \<Longrightarrow> a \<le> p \<Longrightarrow>
      p + length bs \<le> a + n \<Longrightarrow> \<exists>s'. mem_write memory s p bs = Some s'"
    and write_keeps: "ok s \<Longrightarrow> {p..<p + length bs} \<subseteq> owned_of (blocks s) \<Longrightarrow>
      mem_write memory s p bs = Some s' \<Longrightarrow>
      ok s' \<and> blocks s' = blocks s \<and> avail s' = avail s"
    and read_write: "ok s \<Longrightarrow> mem_write memory s p bs = Some s' \<Longrightarrow>
      mem_read memory s' p (length bs) = Some bs"
    and read_write_other: "ok s \<Longrightarrow> mem_write memory s p bs = Some s' \<Longrightarrow>
      {p..<p + length bs} \<inter> {q..<q + m} = {} \<Longrightarrow> mem_read memory s' q m = mem_read memory s q m"
    and owned_cap: "ok s \<Longrightarrow> a \<in> owned_of (blocks s) \<Longrightarrow> a < MAX_GUEST_MEMORY_BYTES"
    and avail_cap: "ok s \<Longrightarrow> avail s \<le> MAX_GUEST_MEMORY_BYTES"
    and alloc_avail: "ok s \<Longrightarrow> unat sz + unat ag \<le> avail s \<Longrightarrow> 0 < sz \<Longrightarrow> is_power_of_two (unat ag) \<Longrightarrow>
      \<exists>ptr s'. alloc s sz ag = Inr (ptr, s') \<and> ptr \<noteq> 0 \<and> avail s \<le> avail s' + (unat sz + unat ag)"
    and alloc_ok: "ok s \<Longrightarrow> alloc s sz ag = Inr (ptr, s') \<Longrightarrow> ptr \<noteq> 0 \<Longrightarrow> 0 < sz \<Longrightarrow> 0 < ag \<Longrightarrow> ok s'"
    and alloc_blocks: "ok s \<Longrightarrow> alloc s sz ag = Inr (ptr, s') \<Longrightarrow> ptr \<noteq> 0 \<Longrightarrow> 0 < sz \<Longrightarrow> 0 < ag \<Longrightarrow>
      blocks s (unat ptr) = None \<and> blocks s' = (blocks s)(unat ptr \<mapsto> (unat sz, unat ag))"
    and alloc_fresh: "ok s \<Longrightarrow> alloc s sz ag = Inr (ptr, s') \<Longrightarrow> ptr \<noteq> 0 \<Longrightarrow> 0 < sz \<Longrightarrow> 0 < ag \<Longrightarrow>
      {unat ptr..<unat ptr + unat sz} \<inter> owned_of (blocks s) = {}"
    and alloc_frame: "ok s \<Longrightarrow> alloc s sz ag = Inr (ptr, s') \<Longrightarrow> ptr \<noteq> 0 \<Longrightarrow> 0 < sz \<Longrightarrow> 0 < ag \<Longrightarrow>
      0 < m \<Longrightarrow> {q..<q + m} \<subseteq> owned_of (blocks s) \<Longrightarrow>
      mem_read memory s' q m = mem_read memory s q m"
    and dealloc_ok: "ok s \<Longrightarrow> blocks s (unat ptr) = Some (unat sz, unat ag) \<Longrightarrow>
      \<exists>s'. dealloc s ptr sz ag = Inr s' \<and> ok s' \<and> blocks s' = (blocks s)(unat ptr := None)"
begin

definition owned :: "'s \<Rightarrow> nat set" where
  "owned s = owned_of (blocks s)"

text \<open>\<open>s'\<close> has every block of \<open>s\<close>, with its contents.\<close>

definition grows :: "'s \<Rightarrow> 's \<Rightarrow> bool" where
  "grows s s' \<longleftrightarrow> ok s' \<and> blocks s \<subseteq>\<^sub>m blocks s' \<and>
     (\<forall>q m. 0 < m \<longrightarrow> {q..<q + m} \<subseteq> owned s \<longrightarrow> mem_read memory s' q m = mem_read memory s q m)"

text \<open>A pointer and a length denote a slice of the guest's memory.\<close>

definition denotes :: "'s \<Rightarrow> u32 \<times> u32 \<Rightarrow> bytes \<Rightarrow> bool" where
  "denotes s f bs \<longleftrightarrow> fst f \<noteq> 0 \<and> unat (snd f) = length bs \<and>
     (bs \<noteq> [] \<longrightarrow> {unat (fst f)..<unat (fst f) + length bs} \<subseteq> owned s \<and>
       mem_read memory s (unat (fst f)) (length bs) = Some bs)"

definition opt_denotes :: "'s \<Rightarrow> u32 \<times> u32 \<Rightarrow> bytes option \<Rightarrow> bool" where
  "opt_denotes s f v \<longleftrightarrow> (case v of None \<Rightarrow> f = (0, 0) | Some b \<Rightarrow> denotes s f b)"

definition stored :: "'s \<Rightarrow> entry \<Rightarrow> field_ptrs \<Rightarrow> bool" where
  "stored s e fps \<longleftrightarrow> denotes s (fp_key fps) (e_key e) \<and> denotes s (fp_pool fps) (as_bytes (e_pool e)) \<and>
     opt_denotes s (fp_value fps) (e_value e) \<and> opt_denotes s (fp_line fps) (e_line e)"

text \<open>A buffer of \<open>n\<close> bytes at \<open>base\<close>, allocated after \<open>s0\<close>.\<close>

definition buffer :: "'s \<Rightarrow> 's \<Rightarrow> nat \<Rightarrow> nat \<Rightarrow> nat \<Rightarrow> bool" where
  "buffer s0 s base n al \<longleftrightarrow> grows s0 s \<and> blocks s base = Some (n, al) \<and> 0 < n \<and> 0 < base \<and>
     {base..<base + n} \<inter> owned s0 = {}"

lemma grows_refl: "ok s \<Longrightarrow> grows s s"
  by (simp add: grows_def)

lemma grows_owned: "grows s s' \<Longrightarrow> owned s \<subseteq> owned s'"
  by (fastforce simp: grows_def owned_def owned_of_def map_le_def dom_def)

lemma grows_trans: "grows s s' \<Longrightarrow> grows s' s'' \<Longrightarrow> grows s s''"
  using grows_owned [of s s'] by (auto simp: grows_def intro: map_le_trans)

lemma denotes_grows: "denotes s f bs \<Longrightarrow> grows s s' \<Longrightarrow> denotes s' f bs"
  using grows_owned [of s s'] by (auto simp: denotes_def grows_def)

lemma opt_denotes_grows: "opt_denotes s f v \<Longrightarrow> grows s s' \<Longrightarrow> opt_denotes s' f v"
  by (auto simp: opt_denotes_def denotes_grows split: option.splits)

lemma stored_grows: "stored s e fps \<Longrightarrow> grows s s' \<Longrightarrow> stored s' e fps"
  by (auto simp: stored_def intro: denotes_grows opt_denotes_grows)

lemma block_owned: "blocks s p = Some (n, al) \<Longrightarrow> {p..<p + n} \<subseteq> owned s"
  by (fastforce simp: owned_def owned_of_def)

lemma block_cap:
  assumes "ok s" "blocks s p = Some (n, al)" "0 < n"
  shows "p + n \<le> MAX_GUEST_MEMORY_BYTES"
proof -
  have "p + n - 1 \<in> owned s"
    using assms block_owned [of s p n al] by auto
  then show ?thesis
    using owned_cap [OF assms(1)] assms(3) by (fastforce simp: owned_def)
qed

text \<open>Allocating opens a buffer.\<close>

lemma alloc_buffer:
  assumes "ok s" "alloc s sz ag = Inr (ptr, s')" "ptr \<noteq> 0" "0 < sz" "0 < ag"
  shows "buffer s s' (unat ptr) (unat sz) (unat ag)"
proof -
  note b = alloc_blocks [OF assms] and o = alloc_ok [OF assms]
  have "grows s s'"
    using o b alloc_frame [OF assms] by (auto simp: grows_def owned_def map_le_def)
  moreover have "0 < unat ptr"
    using assms(3) by (simp add: unat_gt_0)
  ultimately show ?thesis
    using assms(4) b alloc_fresh [OF assms] by (simp add: buffer_def owned_def unat_gt_0 word_gt_0)
qed

text \<open>Writing inside a buffer leaves the older blocks alone.\<close>

lemma buffer_write:
  assumes buf: "buffer s0 s base n al" and p: "base \<le> p" "p + length bs \<le> base + n"
  shows "\<exists>s'. mem_write memory s p bs = Some s' \<and> buffer s0 s' base n al \<and>
    blocks s' = blocks s \<and> avail s' = avail s \<and> mem_read memory s' p (length bs) = Some bs \<and>
    (\<forall>q m. {p..<p + length bs} \<inter> {q..<q + m} = {} \<longrightarrow>
       mem_read memory s' q m = mem_read memory s q m)"
proof -
  have ok: "ok s" and blk: "blocks s base = Some (n, al)" and n: "0 < n"
    using buf by (simp_all add: buffer_def grows_def)
  obtain s' where w: "mem_write memory s p bs = Some s'"
    using write_ok [OF ok blk n p] by blast
  have sub: "{p..<p + length bs} \<subseteq> {base..<base + n}"
    using p by auto
  then have "{p..<p + length bs} \<subseteq> owned_of (blocks s)"
    using block_owned [OF blk] by (auto simp: owned_def)
  then have keep: "ok s'" "blocks s' = blocks s" "avail s' = avail s"
    using write_keeps [OF ok _ w] by auto
  have other: "mem_read memory s' q m = mem_read memory s q m"
    if "{p..<p + length bs} \<inter> {q..<q + m} = {}" for q m
    using read_write_other [OF ok w that] .
  have "mem_read memory s' q m = mem_read memory s0 q m"
    if "0 < m" "{q..<q + m} \<subseteq> owned s0" for q m
  proof -
    have "{base..<base + n} \<inter> {q..<q + m} = {}"
      using buf that(2) unfolding buffer_def by blast
    then have "{p..<p + length bs} \<inter> {q..<q + m} = {}"
      using sub by blast
    then show ?thesis
      using other buf that by (auto simp: buffer_def grows_def)
  qed
  then have "buffer s0 s' base n al"
    using buf keep by (simp add: buffer_def grows_def)
  with w keep other read_write [OF ok w] show ?thesis
    by blast
qed

end

section \<open>Writing the fields of an entry\<close>

context guest_heap
begin

lemma buffer_ok: "buffer s0 s base n al \<Longrightarrow> ok s"
  by (simp add: buffer_def grows_def)

text \<open>Pointer arithmetic inside a buffer does not wrap: the guest's memory is capped.\<close>

lemma buffer_ptr:
  assumes "buffer s0 s (unat base) n al" "unat off \<le> n"
  shows "unat (base + off :: u32) = unat base + unat off" "base + off \<noteq> 0"
proof -
  have "unat base + n \<le> 16777216"
    using assms(1) block_cap [OF buffer_ok [OF assms(1)]]
    by (auto simp: buffer_def MAX_GUEST_MEMORY_BYTES_def)
  then have "unat base + unat off < 2 ^ 32"
    using assms(2) by simp
  then show eq: "unat (base + off) = unat base + unat off"
    by (rule unat_u32_add)
  have "0 < unat base"
    using assms(1) by (simp add: buffer_def)
  then show "base + off \<noteq> 0"
    using eq by (metis add_is_0 less_numeral_extra(3) unat_0)
qed

text \<open>
  One field written at offset \<open>off\<close> of the buffer: it can be read back, and so can the
  fields written before it.
\<close>

lemma field_write:
  assumes buf: "buffer s0 s (unat base) n al"
    and len: "unat l = length bs" "unat off + length bs \<le> n"
  obtains s' where "write_mem memory s (unat (base + off)) bs = Inr s'"
    "buffer s0 s' (unat base) n al" "avail s' = avail s" "denotes s' (base + off, l) bs"
    "\<And>f cs. denotes s f cs \<Longrightarrow> unat (fst f) + unat (snd f) \<le> unat base + unat off \<Longrightarrow>
      denotes s' f cs"
proof -
  have "unat off \<le> n"
    using len by simp
  note ptr = buffer_ptr [OF buf this]
  have le: "unat base \<le> unat (base + off)" "unat (base + off) + length bs \<le> unat base + n"
    using ptr len by simp_all
  obtain s' where w: "mem_write memory s (unat (base + off)) bs = Some s'"
    and buf': "buffer s0 s' (unat base) n al" and keep: "blocks s' = blocks s" "avail s' = avail s"
    and rd: "mem_read memory s' (unat (base + off)) (length bs) = Some bs"
    and other: "\<And>q m. {unat (base + off)..<unat (base + off) + length bs} \<inter> {q..<q + m} = {} \<Longrightarrow>
      mem_read memory s' q m = mem_read memory s q m"
    using buffer_write [OF buf le] by blast
  have "{unat base..<unat base + n} \<subseteq> owned s'"
    using buf' by (intro block_owned) (simp add: buffer_def)
  then have "denotes s' (base + off, l) bs"
    using rd ptr len by (auto simp: denotes_def)
  moreover have "denotes s' f cs"
    if "denotes s f cs" "unat (fst f) + unat (snd f) \<le> unat base + unat off" for f cs
    using that other [of "unat (fst f)" "length cs"] ptr keep
    by (auto simp: denotes_def owned_def)
  ultimately show thesis
    using that [of s'] w buf' keep by (simp add: write_mem_def)
qed

lemma field_len_ok: "length bs \<le> MAX_GUEST_MEMORY_BYTES \<Longrightarrow>
    \<exists>l. field_len name bs = Inr l \<and> unat l = length bs"
  by (auto simp: field_len_def u32_try_from_def MAX_GUEST_MEMORY_BYTES_def unat_of_nat)

lemma opt_field_len_ok: "opt_len f \<le> MAX_GUEST_MEMORY_BYTES \<Longrightarrow>
    \<exists>l. opt_field_len name f = Inr l \<and> unat l = opt_len f"
  using field_len_ok by (auto simp: opt_field_len_def opt_len_def split: option.splits)

lemma fields_alloc_size_ok:
  assumes "max (unat kl + unat pl + unat vl + unat ll) 1 \<le> MAX_GUEST_MEMORY_BYTES"
  shows "\<exists>sz. fields_alloc_size kl pl vl ll = Inr sz \<and>
    unat sz = max (unat kl + unat pl + unat vl + unat ll) 1"
proof -
  have "max (unat kl + unat pl + unat vl + unat ll) 1 < 2 ^ 32"
    using assms by (simp add: MAX_GUEST_MEMORY_BYTES_def)
  then show ?thesis
    by (simp add: fields_alloc_size_def u32_try_from_def unat_of_nat)
qed

lemma opt_field_write:
  assumes buf: "buffer s0 s (unat base) n al"
    and len: "unat l = opt_len v" "unat off + opt_len v \<le> n"
  obtains s' where "\<And>b. v = Some b \<Longrightarrow> write_mem memory s (unat (base + off)) b = Inr s'"
    "v = None \<Longrightarrow> s' = s" "buffer s0 s' (unat base) n al" "avail s' = avail s"
    "opt_denotes s' (if v = None then (0, 0) else (base + off, l)) v"
    "\<And>f cs. denotes s f cs \<Longrightarrow> unat (fst f) + unat (snd f) \<le> unat base + unat off \<Longrightarrow>
      denotes s' f cs"
proof (cases v)
  case None
  then show ?thesis
    using that [of s] buf by (simp add: opt_denotes_def)
next
  case (Some b)
  then have "unat l = length b" "unat off + length b \<le> n"
    using len by (simp_all add: opt_len_def)
  then show ?thesis
    using field_write [OF buf, of l b off] that Some by (auto simp: opt_denotes_def)
qed

text \<open>The four writes of \<open>FieldPtrs::write\<close>, after the allocation.\<close>

lemma field_writes:
  assumes buf: "buffer s0 s (unat base) n al"
    and len: "unat kl = length (e_key e)" "unat pl = length (e_pool e)"
      "unat vl = opt_len (e_value e)" "unat ll = opt_len (e_line e)"
    and n: "entry_len e \<le> n"
  obtains s1 s2 s3 s4 where
    "write_mem memory s (unat base) (e_key e) = Inr s1"
    "write_mem memory s1 (unat (base + kl)) (as_bytes (e_pool e)) = Inr s2"
    "\<And>b. e_value e = Some b \<Longrightarrow> write_mem memory s2 (unat (base + (kl + pl))) b = Inr s3"
    "e_value e = None \<Longrightarrow> s3 = s2"
    "\<And>b. e_line e = Some b \<Longrightarrow>
      write_mem memory s3 (unat (base + (if e_value e = None then kl + pl else kl + pl + vl))) b = Inr s4"
    "e_line e = None \<Longrightarrow> s4 = s3"
    "buffer s0 s4 (unat base) n al" "avail s4 = avail s"
    "denotes s4 (base, kl) (e_key e)" "denotes s4 (base + kl, pl) (as_bytes (e_pool e))"
    "opt_denotes s4 (if e_value e = None then (0, 0) else (base + (kl + pl), vl)) (e_value e)"
    "opt_denotes s4 (if e_line e = None then (0, 0)
       else (base + (if e_value e = None then kl + pl else kl + pl + vl), ll)) (e_line e)"
proof -
  define off where "off = (if e_value e = None then kl + pl else kl + pl + vl)"
  have "unat base + n \<le> 16777216"
    using buf block_cap [OF buffer_ok [OF buf]]
    by (auto simp: buffer_def MAX_GUEST_MEMORY_BYTES_def)
  then have small: "length (e_key e) + length (e_pool e) + opt_len (e_value e) + opt_len (e_line e)
      < 2 ^ 32"
    using n by (simp add: entry_len_def)
  have kp: "unat (kl + pl) = unat kl + unat pl"
    using small len by (intro unat_u32_add) simp
  then have kpv: "unat (kl + pl + vl) = unat kl + unat pl + unat vl"
    using small len by (subst unat_u32_add) simp_all
  have off: "unat off = length (e_key e) + length (e_pool e) + opt_len (e_value e)"
    using kp kpv len by (auto simp: off_def opt_len_def)
  have lim: "unat (0::u32) + length (e_key e) \<le> n"
    "unat kl + length (as_bytes (e_pool e)) \<le> n"
    "unat (kl + pl) + opt_len (e_value e) \<le> n" "unat off + opt_len (e_line e) \<le> n"
    using kp len off n by (simp_all add: entry_len_def)
  have pl: "unat pl = length (as_bytes (e_pool e))"
    using len by simp
  obtain s1 where s1: "write_mem memory s (unat (base + 0)) (e_key e) = Inr s1"
    "buffer s0 s1 (unat base) n al" "avail s1 = avail s" "denotes s1 (base + 0, kl) (e_key e)"
    "\<And>f cs. denotes s f cs \<Longrightarrow> unat (fst f) + unat (snd f) \<le> unat base + unat (0::u32) \<Longrightarrow>
      denotes s1 f cs"
    by (rule field_write [OF buf len(1) lim(1)], rule that)
  obtain s2 where s2: "write_mem memory s1 (unat (base + kl)) (as_bytes (e_pool e)) = Inr s2"
    "buffer s0 s2 (unat base) n al" "avail s2 = avail s1"
    "denotes s2 (base + kl, pl) (as_bytes (e_pool e))"
    "\<And>f cs. denotes s1 f cs \<Longrightarrow> unat (fst f) + unat (snd f) \<le> unat base + unat kl \<Longrightarrow>
      denotes s2 f cs"
    by (rule field_write [OF s1(2) pl lim(2)], rule that)
  obtain s3 where s3: "\<And>b. e_value e = Some b \<Longrightarrow> write_mem memory s2 (unat (base + (kl + pl))) b = Inr s3"
    "e_value e = None \<Longrightarrow> s3 = s2" "buffer s0 s3 (unat base) n al" "avail s3 = avail s2"
    "opt_denotes s3 (if e_value e = None then (0, 0) else (base + (kl + pl), vl)) (e_value e)"
    "\<And>f cs. denotes s2 f cs \<Longrightarrow> unat (fst f) + unat (snd f) \<le> unat base + unat (kl + pl) \<Longrightarrow>
      denotes s3 f cs"
    by (rule opt_field_write [OF s2(2) len(3) lim(3)], rule that)
  obtain s4 where s4: "\<And>b. e_line e = Some b \<Longrightarrow> write_mem memory s3 (unat (base + off)) b = Inr s4"
    "e_line e = None \<Longrightarrow> s4 = s3" "buffer s0 s4 (unat base) n al" "avail s4 = avail s3"
    "opt_denotes s4 (if e_line e = None then (0, 0) else (base + off, ll)) (e_line e)"
    "\<And>f cs. denotes s3 f cs \<Longrightarrow> unat (fst f) + unat (snd f) \<le> unat base + unat off \<Longrightarrow>
      denotes s4 f cs"
    by (rule opt_field_write [OF s3(3) len(4) lim(4)], rule that)
  have ptrs: "unat (base + kl) = unat base + unat kl"
    "unat (base + (kl + pl)) = unat base + unat kl + unat pl"
    using buffer_ptr(1) [OF buf, of kl] buffer_ptr(1) [OF buf, of "kl + pl"] kp len n
    by (simp_all add: entry_len_def)
  have "denotes s4 (base, kl) (e_key e)"
    using s1(4) kp off len ptrs by (intro s4(6) s3(6) s2(5)) simp_all
  moreover have "denotes s4 (base + kl, pl) (as_bytes (e_pool e))"
    using s2(4) kp off len ptrs by (intro s4(6) s3(6)) simp_all
  moreover have "opt_denotes s4 (if e_value e = None then (0, 0) else (base + (kl + pl), vl)) (e_value e)"
    using s3(5) s4(6) off len ptrs by (auto simp: opt_denotes_def opt_len_def split: option.splits)
  ultimately show thesis
    using that [of s1 s2 s3 s4] s1 s2 s3 s4 unfolding off_def by simp
qed

end

section \<open>Packed words\<close>

lemma unpack_high_word [wire_simps]:
  "(ucast (drop_bit 32 (push_bit 32 (ucast (w::u32) :: u64))) :: u32) = w"
  by (rule bit_word_eqI) (auto simp: bit_simps)

lemma unpack_high [wire_simps]:
  "(ucast (drop_bit 32 (push_bit 32 (ucast (w::u32)) OR 1 :: u64)) :: u32) = w"
  "(ucast (drop_bit 32 (push_bit 32 (ucast (w::u32)) OR 2 :: u64)) :: u32) = w"
  by (simp_all add: drop_bit_or unpack_high_word)

lemma unpack_low_byte: "(ucast ((push_bit 32 x OR t :: u64) AND 0xFF) :: u8) = ucast t"
proof -
  have "(ucast ((push_bit 32 x OR t :: u64) AND mask 8) :: u8) = ucast t"
    by (rule bit_word_eqI) (auto simp: bit_simps)
  moreover have "(mask 8 :: u64) = 0xFF"
    by (simp add: mask_numeral)
  ultimately show ?thesis by simp
qed

lemma unpack_tag [wire_simps]:
  "(ucast ((push_bit 32 x OR 1 :: u64) AND 0xFF) :: u8) = 1"
  "(ucast ((push_bit 32 x OR 2 :: u64) AND 0xFF) :: u8) = 2"
  by (simp_all only: unpack_low_byte) simp_all

section \<open>The layout of the record\<close>

fun copy_all :: "nat \<Rightarrow> bytes list \<Rightarrow> bytes \<Rightarrow> bytes" where
  "copy_all off [] out = out"
| "copy_all off (bs # bss) out = copy_all (off + length bs) bss (copy_at off bs out)"

lemma copy_all_append:
  "copy_all (length pre) bss (pre @ rest) = pre @ concat bss @ drop (length (concat bss)) rest"
proof (induction bss arbitrary: pre rest)
  case Nil
  show ?case by simp
next
  case (Cons bs bss)
  have "copy_at (length pre) bs (pre @ rest) = (pre @ bs) @ drop (length bs) rest"
    by (simp add: copy_at_def)
  then show ?case
    using Cons.IH [of "pre @ bs" "drop (length bs) rest"] by (simp add: add.commute)
qed

lemma encode_entry_copy_all: "encode_entry e fps out = copy_all 0 (record_fields e fps) out"
  by (simp add: encode_entry_def record_fields_def Let_def split: option.splits)

lemma length_entry_record [simp]: "length (entry_record e fps) = 48"
  by (simp add: entry_record_def record_fields_def)

lemma encode_entry_layout:
  assumes "length out = 48"
  shows "encode_entry e fps out = entry_record e fps"
  using copy_all_append [of "[]" "record_fields e fps" out] assms length_entry_record [of e fps]
  by (simp add: encode_entry_copy_all entry_record_def)

lemma u32_try_from_ok: "n < 2 ^ 32 \<Longrightarrow> \<exists>w. u32_try_from n = Some w \<and> unat w = n"
  by (metis u32_try_from_Some_iff u32_try_from_def)

lemma entry_array_size:
  assumes "48 * n \<le> MAX_GUEST_MEMORY_BYTES"
  shows "\<exists>count total. u32_try_from n = Some count \<and> unat count = n \<and>
    checked_mul_u32 count ENTRY_SIZE = Some total \<and> unat total = 48 * n"
proof -
  obtain count where count: "u32_try_from n = Some count" "unat count = n"
    using u32_try_from_ok [of n] assms by (auto simp: MAX_GUEST_MEMORY_BYTES_def)
  obtain total where "u32_try_from (48 * n) = Some total" "unat total = 48 * n"
    using u32_try_from_ok [of "48 * n"] assms by (auto simp: MAX_GUEST_MEMORY_BYTES_def)
  with count show ?thesis
    by (auto simp: checked_mul_u32_def ENTRY_SIZE_def mult.commute)
qed

section \<open>Writing a list of entries\<close>

context guest_heap
begin

lemma field_ptrs_write_ok:
  assumes "ok s" "entry_cost e \<le> avail s"
  shows "\<exists>fps s'. field_ptrs_write memory alloc e s = Inr (fps, s') \<and> stored s' e fps \<and>
    grows s s' \<and> avail s \<le> avail s' + entry_cost e"
proof -
  have cap: "max (entry_len e) 1 \<le> MAX_GUEST_MEMORY_BYTES"
    using assms avail_cap [OF assms(1)] by (simp add: entry_cost_def)
  obtain kl pl vl ll where lens:
    "field_len ''key'' (e_key e) = Inr kl" "unat kl = length (e_key e)"
    "field_len ''pool'' (as_bytes (e_pool e)) = Inr pl" "unat pl = length (e_pool e)"
    "opt_field_len ''value'' (e_value e) = Inr vl" "unat vl = opt_len (e_value e)"
    "opt_field_len ''line'' (e_line e) = Inr ll" "unat ll = opt_len (e_line e)"
    using cap field_len_ok [of "e_key e" "''key''"] field_len_ok [of "as_bytes (e_pool e)" "''pool''"]
      opt_field_len_ok [of "e_value e" "''value''"] opt_field_len_ok [of "e_line e" "''line''"]
    by (auto simp: entry_len_def)
  obtain sz where sz: "fields_alloc_size kl pl vl ll = Inr sz" "unat sz = max (entry_len e) 1"
    using fields_alloc_size_ok [of kl pl vl ll] cap lens by (auto simp: entry_len_def)
  have pos: "0 < sz"
    using sz(2) by (auto simp: word_gt_0)
  obtain base s1 where al: "alloc s sz 1 = Inr (base, s1)" and base: "base \<noteq> 0"
    and av: "avail s \<le> avail s1 + entry_cost e"
    using alloc_avail [OF assms(1), of sz 1] assms(2) sz pos by (auto simp: entry_cost_def)
  have buf: "buffer s s1 (unat base) (unat sz) (unat (1::u32))"
    using assms(1) al base pos by (rule alloc_buffer) simp
  show ?thesis
    by (rule field_writes [OF buf lens(2) lens(4) lens(6) lens(8)])
      (auto simp: field_ptrs_write_def lens sz al base av stored_def buffer_def Let_def
        split: option.splits)
qed

lemma write_all_fields_ok:
  "ok s \<Longrightarrow> sum_list (map entry_cost es) \<le> avail s \<Longrightarrow>
   \<exists>fs s'. write_all_fields memory alloc es s = Inr (fs, s') \<and> list_all2 (stored s') es fs \<and>
     grows s s' \<and> avail s \<le> avail s' + sum_list (map entry_cost es)"
proof (induction es arbitrary: s)
  case Nil
  then show ?case by (simp add: grows_refl)
next
  case (Cons e es)
  obtain f s1 where f: "field_ptrs_write memory alloc e s = Inr (f, s1)" "stored s1 e f"
    "grows s s1" "avail s \<le> avail s1 + entry_cost e"
    using field_ptrs_write_ok [of s e] Cons.prems by auto
  obtain fs s2 where fs: "write_all_fields memory alloc es s1 = Inr (fs, s2)"
    "list_all2 (stored s2) es fs" "grows s1 s2" "avail s1 \<le> avail s2 + sum_list (map entry_cost es)"
    using Cons.IH [of s1] Cons.prems f by (auto simp: grows_def)
  show ?case
    using f fs stored_grows [OF f(2) fs(3)] grows_trans [OF f(3) fs(3)] by simp
qed

text \<open>The records written from index \<open>i\<close> on; the ones before stay.\<close>

lemma write_records_ok:
  "buffer s0 s (unat ptr) n al \<Longrightarrow> 48 * (i + length rs) \<le> n \<Longrightarrow> length scratch = 48 \<Longrightarrow>
   \<exists>s'. write_records memory ptr i scratch rs s = Inr s' \<and> buffer s0 s' (unat ptr) n al \<and>
     avail s' = avail s \<and>
     (\<forall>j < length rs. mem_read memory s' (unat ptr + (i + j) * 48) 48 =
        Some (entry_record (fst (rs ! j)) (snd (rs ! j)))) \<and>
     (\<forall>j < i. mem_read memory s' (unat ptr + j * 48) 48 = mem_read memory s (unat ptr + j * 48) 48)"
proof (induction rs arbitrary: i s scratch)
  case Nil
  then show ?case by simp
next
  case (Cons r rs)
  obtain e f where r: "r = (e, f)"
    by (cases r)
  have enc: "encode_entry e f scratch = entry_record e f"
    using Cons.prems(3) by (rule encode_entry_layout)
  have "unat ptr + i * 48 + length (entry_record e f) \<le> unat ptr + n"
    using Cons.prems(2) by simp
  then obtain s1 where s1: "mem_write memory s (unat ptr + i * 48) (entry_record e f) = Some s1"
    "buffer s0 s1 (unat ptr) n al" "avail s1 = avail s"
    "mem_read memory s1 (unat ptr + i * 48) 48 = Some (entry_record e f)"
    "\<And>q m. {unat ptr + i * 48..<unat ptr + i * 48 + 48} \<inter> {q..<q + m} = {} \<Longrightarrow>
       mem_read memory s1 q m = mem_read memory s q m"
    using buffer_write [OF Cons.prems(1), of "unat ptr + i * 48" "entry_record e f"] by auto
  obtain s2 where s2: "write_records memory ptr (Suc i) (entry_record e f) rs s1 = Inr s2"
    "buffer s0 s2 (unat ptr) n al" "avail s2 = avail s1"
    "\<And>j. j < length rs \<Longrightarrow> mem_read memory s2 (unat ptr + (Suc i + j) * 48) 48 =
        Some (entry_record (fst (rs ! j)) (snd (rs ! j)))"
    "\<And>j. j < Suc i \<Longrightarrow>
      mem_read memory s2 (unat ptr + j * 48) 48 = mem_read memory s1 (unat ptr + j * 48) 48"
    using Cons.IH [OF s1(2), of "Suc i" "entry_record e f"] Cons.prems(2) by auto
  have "mem_read memory s2 (unat ptr + (i + j) * 48) 48 =
      Some (entry_record (fst ((r # rs) ! j)) (snd ((r # rs) ! j)))" if "j < Suc (length rs)" for j
    using that s1(4) s2(4) s2(5) [of i] r by (cases j) auto
  moreover have "mem_read memory s2 (unat ptr + j * 48) 48 = mem_read memory s (unat ptr + j * 48) 48"
    if "j < i" for j
    using that s1(5) [of "unat ptr + j * 48" 48] s2(5) [of j] by auto
  ultimately show ?case
    using s1 s2 enc by (simp add: r write_mem_def ENTRY_SIZE_def)
qed

text \<open>The entries as the guest finds them: an array of records, each pointing at its fields.\<close>

definition encoded :: "'s \<Rightarrow> encoded_entries \<Rightarrow> entry list \<Rightarrow> bool" where
  "encoded s enc es \<longleftrightarrow> unat (ee_count enc) = length es \<and> ee_ptr enc \<noteq> 0 \<and>
     blocks s (unat (ee_ptr enc)) = Some (unat (ee_total_size enc), 8) \<and>
     unat (ee_total_size enc) = max (48 * length es) 1 \<and>
     (\<exists>fs. list_all2 (stored s) es fs \<and>
       (\<forall>j < length es. mem_read memory s (unat (ee_ptr enc) + j * 48) 48 =
          Some (entry_record (es ! j) (fs ! j))))"

lemma encoded_entries_write_ok:
  assumes "ok s" "entries_cost es \<le> avail s"
  shows "\<exists>enc s'. encoded_entries_write memory alloc es s = Inr (enc, s') \<and> encoded s' enc es \<and>
    grows s s' \<and> avail s \<le> avail s' + entries_cost es"
proof -
  have cap: "48 * length es \<le> MAX_GUEST_MEMORY_BYTES"
    using assms avail_cap [OF assms(1)] by (simp add: entries_cost_def)
  then obtain count total where count: "u32_try_from (length es) = Some count" "unat count = length es"
    and total: "checked_mul_u32 count ENTRY_SIZE = Some total" "unat total = 48 * length es"
    using entry_array_size by blast
  define sz where "sz = (if total = 0 then 1 else total)"
  have sz: "unat sz = max (48 * length es) 1"
    using total unat_eq_zero [of total] by (cases es) (auto simp: sz_def)
  then have pos: "0 < sz"
    by (auto simp: word_gt_0)
  obtain fs s1 where fs: "write_all_fields memory alloc es s = Inr (fs, s1)"
    "list_all2 (stored s1) es fs" "grows s s1" "avail s \<le> avail s1 + sum_list (map entry_cost es)"
    using write_all_fields_ok [OF assms(1), of es] assms(2) by (auto simp: entries_cost_def)
  have ok1: "ok s1"
    using fs(3) by (simp add: grows_def)
  have "unat sz + unat (8::u32) \<le> avail s1"
    using assms(2) fs(4) sz by (simp add: entries_cost_def)
  then obtain ptr s2 where al: "alloc s1 sz 8 = Inr (ptr, s2)"
    "avail s1 \<le> avail s2 + (unat sz + unat (8::u32))" and ptr: "ptr \<noteq> 0"
    using alloc_avail [OF ok1, of sz 8] pos by auto
  have buf: "buffer s1 s2 (unat ptr) (unat sz) (unat (8::u32))"
    using ok1 al(1) ptr pos by (rule alloc_buffer) simp
  have lens: "length fs = length es"
    using fs(2) by (simp add: list_all2_lengthD)
  obtain s3 where s3: "write_records memory ptr 0 (replicate (unat ENTRY_SIZE) 0) (zip es fs) s2 = Inr s3"
    "buffer s1 s3 (unat ptr) (unat sz) (unat (8::u32))" "avail s3 = avail s2"
    "\<And>j. j < length es \<Longrightarrow>
      mem_read memory s3 (unat ptr + j * 48) 48 = Some (entry_record (es ! j) (fs ! j))"
    using write_records_ok [OF buf, of 0 "zip es fs" "replicate (unat ENTRY_SIZE) 0"] sz lens
    by (auto simp: ENTRY_SIZE_def)
  have gr: "grows s1 s3"
    using s3(2) by (simp add: buffer_def)
  have "list_all2 (stored s3) es fs"
    using fs(2) by (rule list_all2_mono) (rule stored_grows [OF _ gr])
  then have "encoded s3 \<lparr>ee_ptr = ptr, ee_count = count, ee_total_size = sz\<rparr> es"
    using s3 count ptr sz by (auto simp: encoded_def buffer_def)
  moreover have "grows s s3"
    using fs(3) gr by (rule grows_trans)
  moreover have "avail s \<le> avail s3 + entries_cost es"
    using fs(4) al(2) s3(3) sz by (simp add: entries_cost_def)
  moreover have "encoded_entries_write memory alloc es s =
      Inr (\<lparr>ee_ptr = ptr, ee_count = count, ee_total_size = sz\<rparr>, s3)"
    using fs s3 al ptr count total
    by (simp add: encoded_entries_write_def Let_def sz_def [symmetric])
  ultimately show ?thesis by blast
qed

end

end
