(* ===== verification/Wasm_Host.thy ===== *)
theory Wasm_Host
  imports Wasm_Codec
begin

text \<open>
  The crate mcgateway-wasm-host, third part: loading a module (the ABI handshake of
  \<open>WasmMerge::from_module\<close>) and one merge call (\<open>run_with_pre\<close>), from a fresh store to
  the decoded result. A store lives for one call: every call starts from what
  \<open>instantiate\<close> gives for a fresh store, and no state outlives it.
\<close>

section \<open>Definitions\<close>

record 's wasm_merge =
  wm_module_name :: string
  wm_required_flags :: string
  wm_deadline_ticks :: u64
  wm_pre :: "'s wasm_module"

datatype load_error =
    PreLink wasm_error
  | InstantiateFailed wasm_error
  | MissingModuleExport string
  | AbiMismatch u32
  | LoadCall wasm_error

definition div_ceil_u64 :: "u64 \<Rightarrow> u64 \<Rightarrow> u64" where
  "div_ceil_u64 a b = (if a mod b = 0 then a div b else a div b + 1)"

definition default_deadline_ticks :: u64 where
  "default_deadline_ticks = div_ceil_u64 DEFAULT_DEADLINE_MS TICK_INTERVAL_MS"

definition read_required_flags :: "'s exports \<Rightarrow> 's \<Rightarrow> wasm_error + string" where
  "read_required_flags x s =
     (case x_required_flags x of
        None \<Rightarrow> Inr ''''
      | Some func \<Rightarrow>
          and_then (func s) (\<lambda>(packed, s).
          if packed = 0 then Inr ''''
          else
            let ptr = (ucast (drop_bit 32 packed) :: u32);
                len = (ucast (packed AND 0xFFFFFFFF) :: u32) in
            and_then (ok_or (ErrHost (MissingExport ''memory'')) (x_memory x)) (\<lambda>mem.
            and_then (read_mem mem s (unat ptr) (unat len)) (\<lambda>buf.
            ok_or (ErrHost FlagsNotUtf8) (from_utf8 buf)))))"

definition from_module :: "'s wasm_module \<Rightarrow> string \<Rightarrow> load_error + 's wasm_merge" where
  "from_module m name =
     (let x = module_exports m in
      and_then (case prelink m of Some e \<Rightarrow> Inl (PreLink e) | None \<Rightarrow> Inr ()) (\<lambda>_.
      and_then (map_err InstantiateFailed (instantiate m (store_data_new name) (- 1 div 2)))
        (\<lambda>s.
      and_then (ok_or (MissingModuleExport ''mcgw_abi_version'') (x_abi_version x)) (\<lambda>abi_version.
      and_then (map_err LoadCall (abi_version s)) (\<lambda>(reported, s).
      if reported \<noteq> ABI_VERSION then Inl (AbiMismatch reported)
      else
        and_then (ok_or (MissingModuleExport ''mcgw_alloc'') (x_alloc x)) (\<lambda>_.
        and_then (ok_or (MissingModuleExport ''mcgw_dealloc'') (x_dealloc x)) (\<lambda>_.
        and_then (ok_or (MissingModuleExport ''mcgw_merge'') (x_merge x)) (\<lambda>_.
        and_then (ok_or (MissingModuleExport ''memory'') (x_memory x)) (\<lambda>_.
        and_then (map_err LoadCall (read_required_flags x s)) (\<lambda>flags.
        Inr \<lparr>wm_module_name = name, wm_required_flags = flags,
             wm_deadline_ticks = default_deadline_ticks, wm_pre = m\<rparr>))))))))))"

definition set_deadline_ticks :: "u64 \<Rightarrow> 's wasm_merge \<Rightarrow> 's wasm_merge" where
  "set_deadline_ticks ticks w = w\<lparr>wm_deadline_ticks := ticks\<rparr>"

text \<open>The last step of a call: a winner index past the entries is an error.\<close>

fun check_winner :: "nat \<Rightarrow> merge_result \<Rightarrow> wasm_error + merge_result" where
  "check_winner n (Winner i) =
     (if n \<le> i then Inl (ErrHost (WinnerOutOfRange i n)) else Inr (Winner i))"
| "check_winner n other = Inr other"

definition run_with_pre ::
  "'s wasm_module \<Rightarrow> string \<Rightarrow> u64 \<Rightarrow> entry list \<Rightarrow> wasm_error + merge_result" where
  "run_with_pre pre name deadline_ticks entries =
     (let x = module_exports pre; missing = (\<lambda>n. ErrHost (MissingExport n)) in
      and_then (instantiate pre (store_data_new name) deadline_ticks) (\<lambda>s.
      and_then (ok_or (missing ''memory'') (x_memory x)) (\<lambda>memory.
      and_then (ok_or (missing ''mcgw_alloc'') (x_alloc x)) (\<lambda>alloc.
      and_then (ok_or (missing ''mcgw_dealloc'') (x_dealloc x)) (\<lambda>dealloc.
      and_then (ok_or (missing ''mcgw_merge'') (x_merge x)) (\<lambda>merge.
      and_then (encoded_entries_write memory alloc entries s) (\<lambda>(encoded, s).
      and_then (merge s (ee_ptr encoded) (ee_count encoded)) (\<lambda>(packed, s).
      and_then (decode_result memory dealloc packed s) (\<lambda>(result, s).
      and_then (dealloc s (ee_ptr encoded) (ee_total_size encoded) 8) (\<lambda>s.
      check_winner (length entries) result))))))))))"

definition wasm_run :: "'s wasm_merge \<Rightarrow> entry list \<Rightarrow> wasm_error + merge_result" where
  "wasm_run w entries =
     run_with_pre (wm_pre w) (wm_module_name w) (wm_deadline_ticks w) entries"

text \<open>\<open>Merge::apply\<close> for \<open>WasmMerge\<close>: every error is a miss.\<close>

definition wasm_apply :: "'s wasm_merge \<Rightarrow> entry list \<Rightarrow> merge_result" where
  "wasm_apply w entries = (case wasm_run w entries of Inr r \<Rightarrow> r | Inl _ \<Rightarrow> Miss)"

text \<open>
  The two answers for flags: the module's own, and the trait's, which must be static and is
  empty.
\<close>

definition wasm_required_flags :: "'s wasm_merge \<Rightarrow> string" where
  "wasm_required_flags w = wm_required_flags w"

definition wasm_trait_required_flags :: "'s wasm_merge \<Rightarrow> string" where
  "wasm_trait_required_flags w = ''''"

definition wasm_name :: "'s wasm_merge \<Rightarrow> string" where
  "wasm_name w = wm_module_name w"

text \<open>\<open>run_test\<close>: link, then run with a generous deadline.\<close>

definition run_test :: "'s wasm_module \<Rightarrow> entry list \<Rightarrow> wasm_error + merge_result" where
  "run_test m entries =
     (case prelink m of
        Some e \<Rightarrow> Inl e
      | None \<Rightarrow> run_with_pre m ''<test>'' 1000 entries)"

text \<open>A guest with no state that answers every merge with the same packed result.\<close>

definition stub_module :: "u64 \<Rightarrow> unit wasm_module" where
  "stub_module packed =
     \<lparr>prelink = None, instantiate = (\<lambda>_ _. Inr ()),
      module_exports =
        \<lparr>x_memory = Some \<lparr>mem_read = (\<lambda>_ p n. Some (replicate n 0)), mem_write = (\<lambda>s _ _. Some s)\<rparr>,
         x_abi_version = Some (\<lambda>s. Inr (1, s)), x_alloc = Some (\<lambda>s _ _. Inr (64, s)),
         x_dealloc = Some (\<lambda>s _ _ _. Inr s), x_merge = Some (\<lambda>s _ _. Inr (packed, s)),
         x_required_flags = None\<rparr>\<rparr>"

section \<open>Lemmas\<close>

lemma check_winner_Inr_iff [result_simps]:
  "check_winner n r = Inr r' \<longleftrightarrow> r' = r \<and> (\<forall>i. r = Winner i \<longrightarrow> i < n)"
  by (cases r) auto

text \<open>Whatever the guest does, a winner is one of the entries.\<close>

lemma run_winner_in_range:
  "run_with_pre pre name ticks es = Inr (Winner i) \<Longrightarrow> i < length es"
  by (auto simp: run_with_pre_def Let_def result_simps)

text \<open>Whatever the guest does, a synthesized value fits the memory cap.\<close>

lemma decode_result_payload:
  assumes "decode_result memory dealloc packed s = Inr (Synthesized v, s')"
    and "fills_buffer (Some (mem_read memory s))"
  shows "length v \<le> MAX_GUEST_MEMORY_BYTES"
proof -
  obtain p len where "mem_read memory s p (unat (len::u32)) = Some v"
    and "unat len \<le> MAX_GUEST_MEMORY_BYTES"
    using assms(1)
    by (auto simp: decode_result_def Let_def read_mem_def result_simps not_less split: if_splits)
  then show ?thesis
    using assms(2) by (simp add: fills_buffer_def)
qed

lemma run_payload_bounded:
  assumes "run_with_pre pre name ticks es = Inr (Synthesized v)"
    and "\<And>mem s. x_memory (module_exports pre) = Some mem \<Longrightarrow> fills_buffer (Some (mem_read mem s))"
  shows "length v \<le> MAX_GUEST_MEMORY_BYTES"
proof -
  obtain mem dealloc packed s s' where mem: "x_memory (module_exports pre) = Some mem"
    and dec: "decode_result mem dealloc packed s = Inr (Synthesized v, s')"
    using assms(1)
    by (auto simp: run_with_pre_def Let_def result_simps)
  show ?thesis
    using dec assms(2) [OF mem] by (rule decode_result_payload)
qed

text \<open>A loaded module spoke this ABI version and has every export a call needs.\<close>

lemma from_module_ok:
  assumes "from_module m name = Inr w"
  shows "wm_pre w = m" "wm_module_name w = name" "wm_deadline_ticks w = default_deadline_ticks"
    "prelink m = None" "x_alloc (module_exports m) \<noteq> None" "x_dealloc (module_exports m) \<noteq> None"
    "x_merge (module_exports m) \<noteq> None" "x_memory (module_exports m) \<noteq> None"
    "\<exists>s f s'. instantiate m (store_data_new name) (- 1 div 2) = Inr s \<and>
      x_abi_version (module_exports m) = Some f \<and> f s = Inr (ABI_VERSION, s')"
  using assms
  by (auto simp: from_module_def Let_def result_simps split: option.splits if_splits)

lemma run_of_loaded_no_missing_export:
  assumes "from_module m name = Inr w"
  shows "wasm_run w es =
    (let x = module_exports m; memory = the (x_memory x); dealloc = the (x_dealloc x) in
      and_then (instantiate m (store_data_new name) default_deadline_ticks) (\<lambda>s.
      and_then (encoded_entries_write memory (the (x_alloc x)) es s) (\<lambda>(encoded, s).
      and_then (the (x_merge x) s (ee_ptr encoded) (ee_count encoded)) (\<lambda>(packed, s).
      and_then (decode_result memory dealloc packed s) (\<lambda>(result, s).
      and_then (dealloc s (ee_ptr encoded) (ee_total_size encoded) 8) (\<lambda>s.
      check_winner (length es) result))))))"
  using from_module_ok [OF assms]
  by (auto simp: wasm_run_def run_with_pre_def Let_def)

lemma default_deadline_ticks_value: "default_deadline_ticks = 25"
  by (simp add: default_deadline_ticks_def div_ceil_u64_def DEFAULT_DEADLINE_MS_def
      TICK_INTERVAL_MS_def)

section \<open>Properties\<close>

text \<open>
  C7. Whatever a guest answers, a merge call that succeeds with a winner names one of the
  entries it was given, and one that succeeds with a synthesized value has at most the
  16 MiB a guest's memory can hold.
\<close>

theorem run_result_bounded:
  assumes "\<forall>mem s. x_memory (module_exports pre) = Some mem \<longrightarrow> fills_buffer (Some (mem_read mem s))"
    and "run_with_pre pre name ticks es = Inr r"
  shows "case r of Winner i \<Rightarrow> i < length es
    | Synthesized v \<Rightarrow> length v \<le> 16 * 1024 * 1024
    | Miss \<Rightarrow> True"
proof (cases r)
  case (Winner i)
  then show ?thesis
    using run_winner_in_range assms(2) by simp
next
  case (Synthesized v)
  then show ?thesis
    using run_payload_bounded [of pre name ticks es v] assms
    by (simp add: MAX_GUEST_MEMORY_BYTES_def)
qed simp

theorem run_result_bounded_witness:
  "run_with_pre (stub_module 0x100000001) ''m'' 25
     [entry.make [1] ''a'' StMiss None None None, entry.make [1] ''b'' StHit None None None] =
     Inr (Winner 1) \<and>
   (1::nat) < length [entry.make [1] ''a'' StMiss None None None,
     entry.make [1] ''b'' StHit None None None]"
proof -
  have run: "run_with_pre (stub_module 0x100000001) ''m'' 25
      [entry.make [1] ''a'' StMiss None None None, entry.make [1] ''b'' StHit None None None] =
      Inr (Winner 1)"
    by (simp add: run_with_pre_def stub_module_def encoded_entries_write_def field_ptrs_write_def
        field_len_def opt_field_len_def fields_alloc_size_def checked_mul_u32_def u32_try_from_def
        decode_result_def write_mem_def and_then_def ok_or_def Let_def entry.defs abi_constants
        unpack_tag as_bytes_def)
  have "\<forall>mem s. x_memory (module_exports (stub_module 0x100000001)) = Some mem \<longrightarrow>
      fills_buffer (Some (mem_read mem s))"
    by (auto simp: stub_module_def fills_buffer_def)
  then show ?thesis
    using run_result_bounded [OF _ run] run by simp
qed

text \<open>
  C8. A module is loaded exactly when its imports link, it instantiates, it reports ABI
  version 1, it has the exports of a merge call, and its flags can be read; it is then
  kept with those flags and the default deadline of 25 ticks.
\<close>

theorem from_module_iff:
  "from_module m name = Inr w \<longleftrightarrow>
   prelink m = None \<and>
   (\<exists>s f s'. instantiate m (store_data_new name) (- 1 div 2) = Inr s \<and>
      x_abi_version (module_exports m) = Some f \<and> f s = Inr (1, s') \<and>
      read_required_flags (module_exports m) s' = Inr (wm_required_flags w)) \<and>
   x_alloc (module_exports m) \<noteq> None \<and> x_dealloc (module_exports m) \<noteq> None \<and>
   x_merge (module_exports m) \<noteq> None \<and> x_memory (module_exports m) \<noteq> None \<and>
   w = \<lparr>wm_module_name = name, wm_required_flags = wm_required_flags w,
        wm_deadline_ticks = 25, wm_pre = m\<rparr>"
  by (cases w) (auto simp: from_module_def Let_def result_simps ABI_VERSION_def
      default_deadline_ticks_value split: option.splits if_splits)

text \<open>
  The calls of a loaded module never fail for a missing export: they go straight
  through the six steps of a merge call (instantiate, encode, merge, decode, free, check
  the winner), each stopping at the first error.
\<close>

lemma run_of_loaded:
  assumes "from_module m name = Inr w"
  shows "\<exists>memory alloc dealloc merge.
    x_memory (module_exports m) = Some memory \<and> x_alloc (module_exports m) = Some alloc \<and>
    x_dealloc (module_exports m) = Some dealloc \<and> x_merge (module_exports m) = Some merge \<and>
    wasm_run w es =
      and_then (instantiate m (store_data_new name) 25) (\<lambda>s.
      and_then (encoded_entries_write memory alloc es s) (\<lambda>(encoded, s).
      and_then (merge s (ee_ptr encoded) (ee_count encoded)) (\<lambda>(packed, s).
      and_then (decode_result memory dealloc packed s) (\<lambda>(result, s).
      and_then (dealloc s (ee_ptr encoded) (ee_total_size encoded) 8) (\<lambda>s.
      check_winner (length es) result)))))"
proof -
  obtain memory alloc dealloc merge where
    x: "x_memory (module_exports m) = Some memory" "x_alloc (module_exports m) = Some alloc"
      "x_dealloc (module_exports m) = Some dealloc" "x_merge (module_exports m) = Some merge"
    using from_module_ok [OF assms] by auto
  then show ?thesis
    using run_of_loaded_no_missing_export [OF assms, of es]
    by (intro exI [of _ memory] exI [of _ alloc] exI [of _ dealloc] exI [of _ merge])
      (simp add: default_deadline_ticks_value)
qed

end
