(* ===== verification/Sdk.thy ===== *)
theory Sdk
  imports Wasm_Codec
begin

text \<open>
  The crates mcgateway-sdk and mcgateway-sdk-macros: the guest side of the wire format
  and the exports that \<open>#[merge_fn]\<close> generates around a user function.

  The machine the guest runs on (wasm32 linear memory and the global allocator behind
  \<open>alloc::alloc\<close>) is the record \<open>machine\<close>, a parameter. As the standard library
  documents it, \<open>alloc\<close> answers an exhausted heap with the null pointer, here 0. A raw
  access outside linear memory traps. On wasm32 \<open>usize\<close> is u32.
\<close>

section \<open>Definitions\<close>

definition SDK_ABI_VERSION :: u32 where "SDK_ABI_VERSION = 1"
definition SDK_ENTRY_SIZE :: nat where "SDK_ENTRY_SIZE = 48"

text \<open>The SDK's \<open>Status\<close> and \<open>Entry\<close> repeat the fields of the core types.\<close>

type_synonym sdk_status = status
type_synonym sdk_entry = entry

datatype sdk_result = SWinner u32 | SSynthesized bytes | SMiss

record 's machine =
  mc_memory :: "'s memory_export"
  mc_alloc :: "'s \<Rightarrow> nat \<Rightarrow> nat \<Rightarrow> u32 \<times> 's"
  mc_dealloc :: "'s \<Rightarrow> u32 \<Rightarrow> nat \<Rightarrow> nat \<Rightarrow> 's"

definition panic :: wasm_error where
  "panic = ErrTrap (Trap_Code 0)"

definition out_of_bounds :: wasm_error where
  "out_of_bounds = ErrTrap (Trap_Code 1)"

definition valid_layout :: "nat \<Rightarrow> nat \<Rightarrow> bool" where
  "valid_layout sz al \<longleftrightarrow> 0 < sz \<and> is_power_of_two al \<and> sz + al \<le> 2 ^ 31"

text \<open>\<open>Layout::from_size_align(size.max(1), align.max(1)).expect(..)\<close> for a 32-bit target.\<close>

definition layout :: "u32 \<Rightarrow> u32 \<Rightarrow> wasm_error + nat \<times> nat" where
  "layout size32 align32 =
     (let sz = max (unat size32) 1; al = max (unat align32) 1 in
      if valid_layout sz al then Inr (sz, al) else Inl panic)"

definition alloc_raw :: "'s machine \<Rightarrow> 's \<Rightarrow> u32 \<Rightarrow> u32 \<Rightarrow> wasm_error + u32 \<times> 's" where
  "alloc_raw M s size32 align32 =
     and_then (layout size32 align32) (\<lambda>(sz, al). Inr (mc_alloc M s sz al))"

definition dealloc_raw :: "'s machine \<Rightarrow> 's \<Rightarrow> u32 \<Rightarrow> u32 \<Rightarrow> u32 \<Rightarrow> wasm_error + 's" where
  "dealloc_raw M s ptr size32 align32 =
     (if ptr = 0 then Inr s
      else and_then (layout size32 align32) (\<lambda>(sz, al). Inr (mc_dealloc M s ptr sz al)))"

definition raw_read :: "'s machine \<Rightarrow> 's \<Rightarrow> nat \<Rightarrow> nat \<Rightarrow> wasm_error + bytes" where
  "raw_read M s p n = ok_or out_of_bounds (mem_read (mc_memory M) s p n)"

definition raw_write :: "'s machine \<Rightarrow> 's \<Rightarrow> nat \<Rightarrow> bytes \<Rightarrow> wasm_error + 's" where
  "raw_write M s p bs = ok_or out_of_bounds (mem_write (mc_memory M) s p bs)"

definition read_u32 :: "'s machine \<Rightarrow> 's \<Rightarrow> nat \<Rightarrow> nat \<Rightarrow> wasm_error + u32" where
  "read_u32 M s p off = and_then (raw_read M s (p + off) 4) (\<lambda>bs. Inr (le_word bs))"

definition read_i64 :: "'s machine \<Rightarrow> 's \<Rightarrow> nat \<Rightarrow> nat \<Rightarrow> wasm_error + i64" where
  "read_i64 M s p off = and_then (raw_read M s (p + off) 8) (\<lambda>bs. Inr (le_word bs))"

text \<open>\<open>slice::from_raw_parts\<close>; an empty slice touches no memory.\<close>

definition from_raw_parts :: "'s machine \<Rightarrow> 's \<Rightarrow> u32 \<Rightarrow> u32 \<Rightarrow> wasm_error + bytes" where
  "from_raw_parts M s ptr len =
     (if len = 0 then Inr [] else raw_read M s (unat ptr) (unat len))"

definition opt_from_raw_parts ::
  "'s machine \<Rightarrow> 's \<Rightarrow> u32 \<Rightarrow> u32 \<Rightarrow> wasm_error + bytes option" where
  "opt_from_raw_parts M s ptr len =
     (if ptr = 0 then Inr None else and_then (from_raw_parts M s ptr len) (\<lambda>bs. Inr (Some bs)))"

definition status_of_code :: "u32 \<Rightarrow> status" where
  "status_of_code c = (if c = 0 then StHit else if c = 1 then StMiss else StError)"

definition decode_entry :: "'s machine \<Rightarrow> 's \<Rightarrow> nat \<Rightarrow> wasm_error + sdk_entry" where
  "decode_entry M s rec =
     and_then (read_u32 M s rec 0) (\<lambda>key_ptr.
     and_then (read_u32 M s rec 4) (\<lambda>key_len.
     and_then (read_u32 M s rec 8) (\<lambda>pool_ptr.
     and_then (read_u32 M s rec 12) (\<lambda>pool_len.
     and_then (read_u32 M s rec 16) (\<lambda>value_ptr.
     and_then (read_u32 M s rec 20) (\<lambda>value_len.
     and_then (read_u32 M s rec 24) (\<lambda>line_ptr.
     and_then (read_u32 M s rec 28) (\<lambda>line_len.
     and_then (read_u32 M s rec 32) (\<lambda>status.
     and_then (read_u32 M s rec 36) (\<lambda>t_present.
     and_then (read_i64 M s rec 40) (\<lambda>t_raw.
     and_then (from_raw_parts M s key_ptr key_len) (\<lambda>key.
     and_then (from_raw_parts M s pool_ptr pool_len) (\<lambda>pool_bytes.
     and_then (opt_from_raw_parts M s value_ptr value_len) (\<lambda>value.
     and_then (opt_from_raw_parts M s line_ptr line_len) (\<lambda>line.
     Inr \<lparr>e_key = key,
          e_pool = (case from_utf8 pool_bytes of Some p \<Rightarrow> p | None \<Rightarrow> ''''),
          e_status = status_of_code status,
          e_t = (if t_present \<noteq> 0 then Some t_raw else None),
          e_value = value, e_line = line\<rparr>)))))))))))))))"

fun decode_from :: "'s machine \<Rightarrow> 's \<Rightarrow> nat \<Rightarrow> nat \<Rightarrow> nat \<Rightarrow> wasm_error + sdk_entry list" where
  "decode_from M s base i 0 = Inr []"
| "decode_from M s base i (Suc n) =
     and_then (decode_entry M s (base + i * SDK_ENTRY_SIZE)) (\<lambda>e.
     and_then (decode_from M s base (Suc i) n) (\<lambda>es. Inr (e # es)))"

definition decode_entries :: "'s machine \<Rightarrow> 's \<Rightarrow> u32 \<Rightarrow> u32 \<Rightarrow> wasm_error + sdk_entry list" where
  "decode_entries M s ptr count =
     (if count = 0 then Inr [] else decode_from M s (unat ptr) 0 (unat count))"

definition encode_synthesized :: "'s machine \<Rightarrow> bytes \<Rightarrow> 's \<Rightarrow> wasm_error + u64 \<times> 's" where
  "encode_synthesized M bs s =
     (let len = (of_nat (length bs) :: u32) in
      and_then (layout len 1) (\<lambda>(psz, pal).
      let (payload, s) = mc_alloc M s psz pal in
      and_then (if bs \<noteq> [] then raw_write M s (unat payload) bs else Inr s) (\<lambda>s.
      and_then (layout 8 4) (\<lambda>(dsz, dal).
      let (desc, s) = mc_alloc M s dsz dal in
      and_then (raw_write M s (unat desc) (le_bytes 4 payload)) (\<lambda>s.
      and_then (raw_write M s (unat desc + 4) (le_bytes 4 len)) (\<lambda>s.
      let desc_u32 = (ucast desc :: u64) in
      Inr (push_bit 32 desc_u32 OR 2, s)))))))"

definition encode_result :: "'s machine \<Rightarrow> sdk_result \<Rightarrow> 's \<Rightarrow> wasm_error + u64 \<times> 's" where
  "encode_result M r s =
     (case r of
        SMiss \<Rightarrow> Inr (0, s)
      | SWinner i \<Rightarrow> Inr (push_bit 32 (ucast i) OR 1, s)
      | SSynthesized bs \<Rightarrow> encode_synthesized M bs s)"

text \<open>A \<open>&'static str\<close> lives in the data segment at an address the linker chose.\<close>

definition pack_static_str :: "u32 \<Rightarrow> string \<Rightarrow> u64" where
  "pack_static_str ptr str = (push_bit 32 (ucast ptr) OR of_nat (length str))"

subsection \<open>The generated exports\<close>

text \<open>
  \<open>parse_attrs\<close>: the attribute's name-value items, in order; a value that is not a string
  literal is \<open>None\<close>.
\<close>

datatype attr_error = UnsupportedAttribute string | ExpectedStringLiteral

fun parse_attrs_from ::
  "string option \<Rightarrow> (string \<times> string option) list \<Rightarrow> attr_error + string option" where
  "parse_attrs_from acc [] = Inr acc"
| "parse_attrs_from acc ((path, value) # ms) =
     (if path = ''required_flags'' then
        (case value of
           None \<Rightarrow> Inl ExpectedStringLiteral
         | Some v \<Rightarrow> parse_attrs_from (Some v) ms)
      else Inl (UnsupportedAttribute path))"

definition parse_attrs :: "(string \<times> string option) list \<Rightarrow> attr_error + string option" where
  "parse_attrs attr = parse_attrs_from None attr"

text \<open>
  The user function works on the decoded entries and may allocate, log and trap: it is a
  transition of the guest's state. The vector that \<open>decode_entries\<close> collects the entries
  in is guest heap the Rust runtime takes and gives back around the call; its effect on
  the heap is part of that transition.
\<close>

type_synonym 's user_fn = "sdk_entry list \<Rightarrow> 's \<Rightarrow> wasm_error + sdk_result \<times> 's"

definition mcgw_merge :: "'s machine \<Rightarrow> 's user_fn \<Rightarrow> 's \<Rightarrow> u32 \<Rightarrow> u32 \<Rightarrow> wasm_error + u64 \<times> 's" where
  "mcgw_merge M user s entries_ptr entries_len =
     and_then (decode_entries M s entries_ptr entries_len) (\<lambda>entries.
     and_then (user entries s) (\<lambda>(result, s).
     encode_result M result s))"

definition merge_fn :: "'s machine \<Rightarrow> u32 \<Rightarrow> string option \<Rightarrow> 's user_fn \<Rightarrow> 's exports" where
  "merge_fn M flags_ptr required_flags user =
     \<lparr>x_memory = Some (mc_memory M),
      x_abi_version = Some (\<lambda>s. Inr (SDK_ABI_VERSION, s)),
      x_alloc = Some (alloc_raw M),
      x_dealloc = Some (dealloc_raw M),
      x_merge = Some (mcgw_merge M user),
      x_required_flags =
        map_option (\<lambda>flags s. Inr (pack_static_str flags_ptr flags, s)) required_flags\<rparr>"

section \<open>The contract of the machine\<close>

text \<open>
  What the SDK relies on of linear memory and of the global allocator: reads and writes
  agree, memory stays under the host's cap, and a non-null allocation is a fresh block
  that keeps the others intact. \<open>blocks\<close> are the live allocations with their layouts,
  \<open>avail\<close> a number of bytes that can still be had.
\<close>

locale guest_machine =
  fixes M :: "'s machine"
    and blocks :: "'s \<Rightarrow> blocks"
    and avail :: "'s \<Rightarrow> nat"
    and ok :: "'s \<Rightarrow> bool"
  assumes m_read_len: "ok s \<Longrightarrow> mem_read (mc_memory M) s p n = Some bs \<Longrightarrow> length bs = n"
    and m_read_sub: "ok s \<Longrightarrow> mem_read (mc_memory M) s p n = Some bs \<Longrightarrow> off + k \<le> n \<Longrightarrow>
      mem_read (mc_memory M) s (p + off) k = Some (take k (drop off bs))"
    and m_read_ok: "ok s \<Longrightarrow> blocks s a = Some (n, al) \<Longrightarrow> a \<le> p \<Longrightarrow> p + k \<le> a + n \<Longrightarrow>
      \<exists>bs. mem_read (mc_memory M) s p k = Some bs"
    and m_write_ok: "ok s \<Longrightarrow> blocks s a = Some (n, al) \<Longrightarrow> 0 < n \<Longrightarrow> a \<le> p \<Longrightarrow>
      p + length bs \<le> a + n \<Longrightarrow> \<exists>s'. mem_write (mc_memory M) s p bs = Some s'"
    and m_write_keeps: "ok s \<Longrightarrow> {p..<p + length bs} \<subseteq> owned_of (blocks s) \<Longrightarrow>
      mem_write (mc_memory M) s p bs = Some s' \<Longrightarrow>
      ok s' \<and> blocks s' = blocks s \<and> avail s' = avail s"
    and m_read_write: "ok s \<Longrightarrow> mem_write (mc_memory M) s p bs = Some s' \<Longrightarrow>
      mem_read (mc_memory M) s' p (length bs) = Some bs"
    and m_read_write_other: "ok s \<Longrightarrow> mem_write (mc_memory M) s p bs = Some s' \<Longrightarrow>
      {p..<p + length bs} \<inter> {q..<q + m} = {} \<Longrightarrow>
      mem_read (mc_memory M) s' q m = mem_read (mc_memory M) s q m"
    and m_owned_cap: "ok s \<Longrightarrow> a \<in> owned_of (blocks s) \<Longrightarrow> a < MAX_GUEST_MEMORY_BYTES"
    and m_avail_cap: "ok s \<Longrightarrow> avail s \<le> MAX_GUEST_MEMORY_BYTES"
    and m_alloc_null: "ok s \<Longrightarrow> valid_layout n al \<Longrightarrow> mc_alloc M s n al = (0, s') \<Longrightarrow> avail s < n + al"
    and m_alloc_avail: "ok s \<Longrightarrow> valid_layout n al \<Longrightarrow> mc_alloc M s n al = (ptr, s') \<Longrightarrow>
      avail s \<le> avail s' + (n + al)"
    and m_alloc_ok: "ok s \<Longrightarrow> valid_layout n al \<Longrightarrow> mc_alloc M s n al = (ptr, s') \<Longrightarrow> ptr \<noteq> 0 \<Longrightarrow>
      ok s' \<and> blocks s (unat ptr) = None \<and> blocks s' = (blocks s)(unat ptr \<mapsto> (n, al))"
    and m_alloc_fresh: "ok s \<Longrightarrow> valid_layout n al \<Longrightarrow> mc_alloc M s n al = (ptr, s') \<Longrightarrow> ptr \<noteq> 0 \<Longrightarrow>
      {unat ptr..<unat ptr + n} \<inter> owned_of (blocks s) = {}"
    and m_alloc_frame: "ok s \<Longrightarrow> valid_layout n al \<Longrightarrow> mc_alloc M s n al = (ptr, s') \<Longrightarrow> ptr \<noteq> 0 \<Longrightarrow>
      0 < m \<Longrightarrow> {q..<q + m} \<subseteq> owned_of (blocks s) \<Longrightarrow>
      mem_read (mc_memory M) s' q m = mem_read (mc_memory M) s q m"
    and m_dealloc_ok: "ok s \<Longrightarrow> blocks s (unat ptr) = Some (n, al) \<Longrightarrow>
      ok (mc_dealloc M s ptr n al) \<and>
      blocks (mc_dealloc M s ptr n al) = (blocks s)(unat ptr := None)"
    and m_blocks_layout: "ok s \<Longrightarrow> blocks s p = Some (n, al) \<Longrightarrow> 0 < p \<and> valid_layout n al"

lemma max_unat_1: "0 < w \<Longrightarrow> max (unat w) (Suc 0) = unat (w::'a::len word)"
  using unat_gt_0 [of w] by (auto simp: max_def word_gt_0)

lemma layout_Inr: "valid_layout (unat sz) (unat al) \<Longrightarrow> layout sz al = Inr (unat sz, unat al)"
  by (auto simp: layout_def valid_layout_def max_def Let_def dest!: is_power_of_two_pos)

lemma layout_Inr_iff:
  "0 < sz \<Longrightarrow> 0 < al \<Longrightarrow> layout sz al = Inr r \<longleftrightarrow>
   r = (unat sz, unat al) \<and> valid_layout (unat sz) (unat al)"
  by (auto simp: layout_def max_unat_1 Let_def split: if_splits)

lemma alloc_raw_Inr_iff:
  "0 < sz \<Longrightarrow> 0 < al \<Longrightarrow> alloc_raw M s sz al = Inr r \<longleftrightarrow>
   valid_layout (unat sz) (unat al) \<and> mc_alloc M s (unat sz) (unat al) = r"
  by (auto simp: alloc_raw_def result_simps layout_Inr_iff)

context guest_machine
begin

lemma alloc_raw_ok:
  assumes "ok s" "alloc_raw M s sz ag = Inr (ptr, s')" "ptr \<noteq> 0" "0 < sz" "0 < ag"
  shows "ok s'"
    and "blocks s (unat ptr) = None \<and> blocks s' = (blocks s)(unat ptr \<mapsto> (unat sz, unat ag))"
    and "{unat ptr..<unat ptr + unat sz} \<inter> owned_of (blocks s) = {}"
    and "0 < m \<Longrightarrow> {q..<q + m} \<subseteq> owned_of (blocks s) \<Longrightarrow>
      mem_read (mc_memory M) s' q m = mem_read (mc_memory M) s q m"
proof -
  have v: "valid_layout (unat sz) (unat ag)" and a: "mc_alloc M s (unat sz) (unat ag) = (ptr, s')"
    using assms(2) by (simp_all add: alloc_raw_Inr_iff assms(4,5))
  note ok = m_alloc_ok [OF assms(1) v a assms(3)]
  show "ok s'" "blocks s (unat ptr) = None \<and> blocks s' = (blocks s)(unat ptr \<mapsto> (unat sz, unat ag))"
    using ok by simp_all
  show "{unat ptr..<unat ptr + unat sz} \<inter> owned_of (blocks s) = {}"
    using assms(1) v a assms(3) by (rule m_alloc_fresh)
  show "mem_read (mc_memory M) s' q m = mem_read (mc_memory M) s q m"
    if "0 < m" "{q..<q + m} \<subseteq> owned_of (blocks s)"
    using assms(1) v a assms(3) that by (rule m_alloc_frame)
qed

end

text \<open>The exports of a guest built with the SDK meet the contract of the host.\<close>

sublocale guest_machine \<subseteq> guest_heap "mc_memory M" "alloc_raw M" "dealloc_raw M" blocks avail ok
proof unfold_locales
  fix s and sz ag :: u32
  assume a: "ok s" "unat sz + unat ag \<le> avail s" "0 < sz" "is_power_of_two (unat ag)"
  have v: "valid_layout (unat sz) (unat ag)"
    using a m_avail_cap [of s]
    by (simp add: valid_layout_def MAX_GUEST_MEMORY_BYTES_def unat_gt_0 word_gt_0)
  obtain ptr s' where r: "mc_alloc M s (unat sz) (unat ag) = (ptr, s')"
    by (cases "mc_alloc M s (unat sz) (unat ag)")
  have "ptr \<noteq> 0"
    using m_alloc_null [OF a(1) v] r a(2) by auto
  moreover have "avail s \<le> avail s' + (unat sz + unat ag)"
    using m_alloc_avail [OF a(1) v r] .
  moreover have "alloc_raw M s sz ag = Inr (ptr, s')"
    using v r by (simp add: alloc_raw_def layout_Inr)
  ultimately show "\<exists>ptr s'. alloc_raw M s sz ag = Inr (ptr, s') \<and> ptr \<noteq> 0 \<and>
      avail s \<le> avail s' + (unat sz + unat ag)"
    by blast
next
  fix s ptr sz ag
  assume a: "ok s" "blocks s (unat (ptr::u32)) = Some (unat (sz::u32), unat (ag::u32))"
  then have "ptr \<noteq> 0" and v: "valid_layout (unat sz) (unat ag)"
    using m_blocks_layout [OF a] by auto
  then show "\<exists>s'. dealloc_raw M s ptr sz ag = Inr s' \<and> ok s' \<and>
      blocks s' = (blocks s)(unat ptr := None)"
    using m_dealloc_ok [OF a] by (simp add: dealloc_raw_def layout_Inr)
qed (fact m_read_ok m_read_len m_read_sub m_write_ok m_write_keeps m_read_write m_read_write_other
    m_owned_cap m_avail_cap alloc_raw_ok)+

section \<open>Decoding what the host encoded\<close>

lemma record_u32 [wire_simps]:
  "take 4 (entry_record e f) = le_bytes 4 (fst (fp_key f))"
  "take 4 (drop 4 (entry_record e f)) = le_bytes 4 (snd (fp_key f))"
  "take 4 (drop 8 (entry_record e f)) = le_bytes 4 (fst (fp_pool f))"
  "take 4 (drop 12 (entry_record e f)) = le_bytes 4 (snd (fp_pool f))"
  "take 4 (drop 16 (entry_record e f)) = le_bytes 4 (fst (fp_value f))"
  "take 4 (drop 20 (entry_record e f)) = le_bytes 4 (snd (fp_value f))"
  "take 4 (drop 24 (entry_record e f)) = le_bytes 4 (fst (fp_line f))"
  "take 4 (drop 28 (entry_record e f)) = le_bytes 4 (snd (fp_line f))"
  "take 4 (drop 32 (entry_record e f)) = le_bytes 4 (status_code (e_status e))"
  "take 4 (drop 36 (entry_record e f)) = le_bytes 4 (if e_t e = None then 0 else 1 :: u32)"
  by (simp_all add: entry_record_def record_fields_def)

lemma record_i64 [wire_simps]:
  "take 8 (drop 40 (entry_record e f)) = le_bytes 8 (case e_t e of None \<Rightarrow> 0 | Some t \<Rightarrow> t)"
  by (simp add: entry_record_def record_fields_def)

lemma status_of_code_status_code: "status_of_code (status_code st) = st"
  by (cases st) (simp_all add: status_of_code_def abi_constants)

context guest_machine
begin

lemma read_u32_record:
  assumes "ok s" "mem_read (mc_memory M) s p 48 = Some bs" "off \<le> 44"
  shows "read_u32 M s p off = Inr (le_word (take 4 (drop off bs)))"
  using read_sub [OF assms(1,2), of off 4] assms(3) by (simp add: read_u32_def raw_read_def)

lemma read_i64_record:
  assumes "ok s" "mem_read (mc_memory M) s p 48 = Some bs"
  shows "read_i64 M s p 40 = Inr (le_word (take 8 (drop 40 bs)))"
  using read_sub [OF assms, of 40 8] by (simp add: read_i64_def raw_read_def)

lemma from_raw_parts_denotes: "denotes s f bs \<Longrightarrow> from_raw_parts M s (fst f) (snd f) = Inr bs"
  by (auto simp: from_raw_parts_def denotes_def raw_read_def unat_eq_zero)

lemma opt_from_raw_parts_denotes:
  "opt_denotes s f v \<Longrightarrow> opt_from_raw_parts M s (fst f) (snd f) = Inr v"
  using from_raw_parts_denotes [of s f]
  by (cases v) (auto simp: opt_from_raw_parts_def opt_denotes_def, simp add: denotes_def)

lemma decode_entry_ok:
  assumes "ok s" "mem_read (mc_memory M) s p 48 = Some (entry_record e f)" "stored s e f"
    and "is_str (e_pool e)"
  shows "decode_entry M s p = Inr e"
proof -
  note u = read_u32_record [OF assms(1,2)]
  have "from_raw_parts M s (fst (fp_key f)) (snd (fp_key f)) = Inr (e_key e)"
    "from_raw_parts M s (fst (fp_pool f)) (snd (fp_pool f)) = Inr (as_bytes (e_pool e))"
    "opt_from_raw_parts M s (fst (fp_value f)) (snd (fp_value f)) = Inr (e_value e)"
    "opt_from_raw_parts M s (fst (fp_line f)) (snd (fp_line f)) = Inr (e_line e)"
    using assms(3) by (simp_all add: stored_def from_raw_parts_denotes opt_from_raw_parts_denotes)
  then show ?thesis
    using assms(4)
    by (cases e) (simp add: decode_entry_def u read_i64_record [OF assms(1,2)] wire_simps
        status_of_code_status_code from_utf8_as_bytes split: option.splits)
qed

lemma decode_from_ok:
  assumes "ok s" "list_all2 (stored s) es fs" "\<forall>e \<in> set es. is_str (e_pool e)"
    and "\<And>j. j < length es \<Longrightarrow>
      mem_read (mc_memory M) s (base + (i + j) * 48) 48 = Some (entry_record (es ! j) (fs ! j))"
  shows "decode_from M s base i (length es) = Inr es"
  using assms(2-)
proof (induction es fs arbitrary: i rule: list_all2_induct)
  case Nil
  show ?case by simp
next
  case (Cons e es f fs)
  have "decode_entry M s (base + i * 48) = Inr e"
    using Cons.prems(1) Cons.hyps(1) Cons.prems(2) [of 0] assms(1)
    by (intro decode_entry_ok) auto
  moreover have "decode_from M s base (Suc i) (length es) = Inr es"
  proof (rule Cons.IH)
    show "\<forall>e \<in> set es. is_str (e_pool e)"
      using Cons.prems(1) by simp
    show "mem_read (mc_memory M) s (base + (Suc i + j) * 48) 48 = Some (entry_record (es ! j) (fs ! j))"
      if "j < length es" for j
      using Cons.prems(2) [of "Suc j"] that by simp
  qed
  ultimately show ?case
    by (simp add: SDK_ENTRY_SIZE_def)
qed

lemma decode_entries_ok:
  assumes "ok s" "encoded s enc es" "\<forall>e \<in> set es. is_str (e_pool e)"
  shows "decode_entries M s (ee_ptr enc) (ee_count enc) = Inr es"
proof (cases "ee_count enc = 0")
  case True
  then have "es = []"
    using assms(2) by (simp add: encoded_def)
  with True show ?thesis
    by (simp add: decode_entries_def)
next
  case False
  obtain fs where "list_all2 (stored s) es fs"
    "\<And>j. j < length es \<Longrightarrow> mem_read (mc_memory M) s (unat (ee_ptr enc) + j * 48) 48 =
      Some (entry_record (es ! j) (fs ! j))"
    and len: "unat (ee_count enc) = length es"
    using assms(2) by (auto simp: encoded_def)
  then have "decode_from M s (unat (ee_ptr enc)) 0 (length es) = Inr es"
    using decode_from_ok [OF assms(1) _ assms(3), of fs "unat (ee_ptr enc)" 0] by simp
  with False len show ?thesis
    by (simp add: decode_entries_def)
qed

end

section \<open>Encoding a result\<close>

text \<open>What a synthesized value may take of the heap: the payload and its descriptor.\<close>

definition result_cost :: "sdk_result \<Rightarrow> nat" where
  "result_cost r =
     (case r of SSynthesized bs \<Rightarrow> (max (length bs) 1 + 1) + (8 + 4) | _ \<Rightarrow> 0)"

context guest_machine
begin

lemma mc_alloc_buffer:
  assumes "ok s" "valid_layout n al" "n + al \<le> avail s"
  obtains ptr s' where "mc_alloc M s n al = (ptr, s')" "ptr \<noteq> 0" "buffer s s' (unat ptr) n al"
    "blocks s (unat ptr) = None" "avail s \<le> avail s' + (n + al)"
proof -
  obtain ptr s' where r: "mc_alloc M s n al = (ptr, s')"
    by (cases "mc_alloc M s n al")
  have ptr: "ptr \<noteq> 0"
    using m_alloc_null [OF assms(1,2)] r assms(3) by auto
  note ok = m_alloc_ok [OF assms(1,2) r ptr]
  have "grows s s'"
    using ok m_alloc_frame [OF assms(1,2) r ptr] by (auto simp: grows_def owned_def map_le_def)
  moreover have "0 < unat ptr" "0 < n"
    using ptr assms(2) by (simp_all add: unat_gt_0 valid_layout_def)
  ultimately have "buffer s s' (unat ptr) n al"
    using ok m_alloc_fresh [OF assms(1,2) r ptr] by (simp add: buffer_def owned_def)
  then show thesis
    using that r ptr ok m_alloc_avail [OF assms(1,2) r] by blast
qed

text \<open>
  The state after \<open>encode_synthesized\<close>: a payload and a descriptor, both fresh blocks with
  the layouts the host frees them with.
\<close>

definition synthesized :: "'s \<Rightarrow> 's \<Rightarrow> u32 \<Rightarrow> u32 \<Rightarrow> bytes \<Rightarrow> bool" where
  "synthesized s s' payload desc bs \<longleftrightarrow> grows s s' \<and>
     denotes s' (payload, of_nat (length bs)) bs \<and>
     blocks s' (unat payload) = Some (max (length bs) 1, 1) \<and>
     blocks s' (unat desc) = Some (8, 4) \<and>
     blocks s (unat payload) = None \<and> blocks s (unat desc) = None \<and>
     unat payload \<noteq> unat desc \<and>
     (\<exists>d. mem_read (mc_memory M) s' (unat desc) 8 = Some d \<and>
       take 4 d = le_bytes 4 payload \<and> take 4 (drop 4 d) = le_bytes 4 (of_nat (length bs) :: u32))"

lemma write_descriptor:
  assumes buf: "buffer s0 s (unat desc) 8 4"
  obtains s1 s2 d where "raw_write M s (unat desc) (le_bytes 4 (a::u32)) = Inr s1"
    "raw_write M s1 (unat desc + 4) (le_bytes 4 (b::u32)) = Inr s2" "buffer s0 s2 (unat desc) 8 4"
    "blocks s2 = blocks s" "mem_read (mc_memory M) s2 (unat desc) 8 = Some d"
    "take 4 d = le_bytes 4 a" "take 4 (drop 4 d) = le_bytes 4 b"
proof -
  obtain s1 where s1: "mem_write (mc_memory M) s (unat desc) (le_bytes 4 a) = Some s1"
    "buffer s0 s1 (unat desc) 8 4" "blocks s1 = blocks s"
    "mem_read (mc_memory M) s1 (unat desc) 4 = Some (le_bytes 4 a)"
    using buffer_write [OF buf, of "unat desc" "le_bytes 4 a"] by auto
  obtain s2 where s2: "mem_write (mc_memory M) s1 (unat desc + 4) (le_bytes 4 b) = Some s2"
    "buffer s0 s2 (unat desc) 8 4" "blocks s2 = blocks s1"
    "mem_read (mc_memory M) s2 (unat desc + 4) 4 = Some (le_bytes 4 b)"
    "\<And>q m. {unat desc + 4..<unat desc + 4 + 4} \<inter> {q..<q + m} = {} \<Longrightarrow>
      mem_read (mc_memory M) s2 q m = mem_read (mc_memory M) s1 q m"
    using buffer_write [OF s1(2), of "unat desc + 4" "le_bytes 4 b"] by auto
  have lo: "mem_read (mc_memory M) s2 (unat desc) 4 = Some (le_bytes 4 a)"
    using s2(5) [of "unat desc" 4] s1(4) by simp
  have ok2: "ok s2" and blk: "blocks s2 (unat desc) = Some (8, 4)"
    using s2(2) by (simp_all add: buffer_def grows_def)
  obtain d where d: "mem_read (mc_memory M) s2 (unat desc) 8 = Some d"
    using read_ok [OF ok2 blk, of "unat desc" 8] by auto
  show thesis
    using that [of s1 s2 d] s1 s2 d lo read_sub [OF ok2 d, of 0 4] read_sub [OF ok2 d, of 4 4]
    by (simp add: raw_write_def)
qed

lemma layouts:
  "length bs \<le> MAX_GUEST_MEMORY_BYTES \<Longrightarrow>
   layout (of_nat (length bs)) 1 = Inr (max (length bs) 1, 1) \<and> valid_layout (max (length bs) 1) 1"
  "layout 8 4 = Inr (8, 4)" "valid_layout 8 4"
  by (auto simp: layout_def valid_layout_def Let_def unat_of_nat MAX_GUEST_MEMORY_BYTES_def)

lemma write_payload:
  assumes buf: "buffer s0 s (unat payload) (max (length bs) 1) 1"
    and len: "length bs \<le> MAX_GUEST_MEMORY_BYTES"
  obtains s' where "(if bs \<noteq> [] then raw_write M s (unat payload) bs else Inr s) = Inr s'"
    "buffer s0 s' (unat payload) (max (length bs) 1) 1" "avail s' = avail s"
    "denotes s' (payload, of_nat (length bs)) bs"
proof (cases "bs = []")
  case True
  have "payload \<noteq> 0"
    using buf by (simp add: buffer_def unat_gt_0)
  with True show thesis
    using that [of s] buf by (simp add: denotes_def)
next
  case False
  have "unat (of_nat (length bs) :: u32) = length bs"
    using len by (simp add: unat_of_nat MAX_GUEST_MEMORY_BYTES_def)
  moreover have "{unat payload..<unat payload + max (length bs) 1} \<subseteq> owned s'"
    if "buffer s0 s' (unat payload) (max (length bs) 1) 1" for s'
    using that by (intro block_owned) (simp add: buffer_def)
  ultimately show thesis
    using that buffer_write [OF buf, of "unat payload" bs] False buf
    by (fastforce simp: raw_write_def denotes_def buffer_def)
qed

lemma encode_synthesized_ok:
  assumes "ok s" "result_cost (SSynthesized bs) \<le> avail s"
  obtains payload desc s' where "encode_synthesized M bs s = Inr (push_bit 32 (ucast desc) OR 2, s')"
    "synthesized s s' payload desc bs"
proof -
  have cost: "(max (length bs) 1 + 1) + (8 + 4) \<le> avail s"
    using assms(2) by (simp add: result_cost_def)
  then have len: "length bs \<le> MAX_GUEST_MEMORY_BYTES"
    using avail_cap [OF assms(1)] by simp
  note lay = layouts(1) [OF len]
  obtain payload s1 where s1: "mc_alloc M s (max (length bs) 1) 1 = (payload, s1)" "payload \<noteq> 0"
    "buffer s s1 (unat payload) (max (length bs) 1) 1" "blocks s (unat payload) = None"
    "avail s \<le> avail s1 + (max (length bs) 1 + 1)"
    using mc_alloc_buffer [OF assms(1), of "max (length bs) 1" 1] lay cost by auto
  obtain s2 where s2: "(if bs \<noteq> [] then raw_write M s1 (unat payload) bs else Inr s1) = Inr s2"
    "buffer s s2 (unat payload) (max (length bs) 1) 1" "avail s2 = avail s1"
    "denotes s2 (payload, of_nat (length bs)) bs"
    by (rule write_payload [OF s1(3) len])
  have ok2: "ok s2"
    using s2(2) by (rule buffer_ok)
  have "8 + 4 \<le> avail s2"
    using cost s1(5) s2(3) by simp
  then obtain desc s3 where s3: "mc_alloc M s2 8 4 = (desc, s3)" "desc \<noteq> 0"
    "buffer s2 s3 (unat desc) 8 4" "blocks s2 (unat desc) = None"
    using mc_alloc_buffer [OF ok2 layouts(3)] by blast
  obtain s4 s5 d where s5: "raw_write M s3 (unat desc) (le_bytes 4 payload) = Inr s4"
    "raw_write M s4 (unat desc + 4) (le_bytes 4 (of_nat (length bs) :: u32)) = Inr s5"
    "buffer s2 s5 (unat desc) 8 4" "blocks s5 = blocks s3"
    "mem_read (mc_memory M) s5 (unat desc) 8 = Some d"
    "take 4 d = le_bytes 4 payload" "take 4 (drop 4 d) = le_bytes 4 (of_nat (length bs) :: u32)"
    by (rule write_descriptor [OF s3(3)])
  have g: "grows s s2" "grows s2 s5"
    using s2(2) s5(3) by (simp_all add: buffer_def)
  have blk: "blocks s2 (unat payload) = Some (max (length bs) 1, 1)"
    using s2(2) by (simp add: buffer_def)
  then have "blocks s5 (unat payload) = Some (max (length bs) 1, 1)"
    using g(2) by (force simp: grows_def map_le_def dom_def)
  moreover have "blocks s (unat desc) = None"
    using s3(4) g(1) by (auto simp: grows_def map_le_def dom_def) (metis not_Some_eq prod.exhaust)
  moreover have "unat payload \<noteq> unat desc"
    using s3(4) blk by auto
  moreover have "denotes s5 (payload, of_nat (length bs)) bs"
    using s2(4) g(2) by (rule denotes_grows)
  ultimately have "synthesized s s5 payload desc bs"
    using grows_trans [OF g] s1(4) s5 by (auto simp: synthesized_def buffer_def)
  moreover have "encode_synthesized M bs s = Inr (push_bit 32 (ucast desc) OR 2, s5)"
    using lay s1(1) s2(1) s3(1) s5(1,2) layouts(2) by (simp add: encode_synthesized_def Let_def)
  ultimately show thesis
    by (rule that [rotated])
qed

lemma decode_synthesized_ok:
  assumes syn: "synthesized s s' payload desc bs" and len: "length bs \<le> MAX_GUEST_MEMORY_BYTES"
  shows "\<exists>s''. decode_result (mc_memory M) (dealloc_raw M) (push_bit 32 (ucast desc) OR 2) s' =
      Inr (Synthesized bs, s'') \<and> ok s'' \<and> blocks s \<subseteq>\<^sub>m blocks s''"
proof -
  have ok': "ok s'" and le: "blocks s \<subseteq>\<^sub>m blocks s'"
    using syn by (simp_all add: synthesized_def grows_def)
  have n: "unat (of_nat (length bs) :: u32) = length bs"
    using len by (simp add: unat_of_nat MAX_GUEST_MEMORY_BYTES_def)
  have pay: "blocks s' (unat payload) = Some (unat (max (of_nat (length bs)) 1 :: u32), unat (1::u32))"
    using syn n by (auto simp: synthesized_def max_def word_le_nat_alt)
  have "mem_read (mc_memory M) s' (unat payload) (length bs) = Some bs"
  proof (cases "bs = []")
    case True
    obtain b where "mem_read (mc_memory M) s' (unat payload) 0 = Some b"
      using read_ok [OF ok' pay, of "unat payload" 0] by auto
    with True read_len [OF ok' this] show ?thesis by simp
  next
    case False
    with syn show ?thesis by (simp add: synthesized_def denotes_def)
  qed
  moreover obtain d where d: "mem_read (mc_memory M) s' (unat desc) 8 = Some d"
    "take 4 d = le_bytes 4 payload" "take 4 (drop 4 d) = le_bytes 4 (of_nat (length bs) :: u32)"
    using syn by (auto simp: synthesized_def)
  moreover obtain s1 where s1: "dealloc_raw M s' payload (max (of_nat (length bs)) 1) 1 = Inr s1"
    "ok s1" "blocks s1 = (blocks s')(unat payload := None)"
    using dealloc_ok [OF ok' pay] by blast
  moreover have "blocks s1 (unat desc) = Some (unat (8::u32), unat (4::u32))"
    using syn s1(3) by (simp add: synthesized_def)
  then obtain s2 where s2: "dealloc_raw M s1 desc 8 4 = Inr s2" "ok s2"
    "blocks s2 = (blocks s1)(unat desc := None)"
    using dealloc_ok [OF s1(2)] by blast
  moreover have "blocks s \<subseteq>\<^sub>m blocks s2"
    using le s1(3) s2(3) syn by (auto simp: synthesized_def map_le_def dom_def)
  ultimately show ?thesis
    using n len by (simp add: decode_result_def Let_def wire_simps abi_constants read_mem_def)
qed

end

end
