(* ===== verification/Sdk_Run.thy ===== *)
theory Sdk_Run
  imports Wasm_Host Sdk
begin

text \<open>
  The host of \<open>Wasm_Host\<close> running a guest built with the SDK of \<open>Sdk\<close>: the whole path
  of a merge call, entries encoded by the host, decoded by the guest, and the result
  back. The section at the end is a reference machine, a byte array with an allocator
  that places blocks above the live ones, on which the contract of the machine holds.
\<close>

section \<open>Definitions\<close>

text \<open>The result of the user function as the host's type.\<close>

fun host_result :: "sdk_result \<Rightarrow> merge_result" where
  "host_result (SWinner i) = Winner (unat i)"
| "host_result (SSynthesized bs) = Synthesized bs"
| "host_result SMiss = Miss"

text \<open>
  What the author of a guest promises of the user function: on the entries \<open>es\<close> it returns
  \<open>r\<close>, keeps every live block and its contents, and takes at most \<open>k\<close> bytes of the heap
  (the vector of decoded entries and its own data included).
\<close>

definition user_returns ::
  "'s machine \<Rightarrow> ('s \<Rightarrow> blocks) \<Rightarrow> ('s \<Rightarrow> nat) \<Rightarrow> ('s \<Rightarrow> bool) \<Rightarrow> 's user_fn \<Rightarrow> entry list \<Rightarrow>
   sdk_result \<Rightarrow> nat \<Rightarrow> bool" where
  "user_returns M blocks avail ok user es r k \<longleftrightarrow>
     (\<forall>s1. ok s1 \<longrightarrow> k \<le> avail s1 \<longrightarrow>
       (\<exists>s2. user es s1 = Inr (r, s2) \<and> guest_heap.grows (mc_memory M) blocks ok s1 s2 \<and>
         avail s1 \<le> avail s2 + k))"

text \<open>A user function that neither traps nor touches the guest's state.\<close>

definition pure_user :: "(sdk_entry list \<Rightarrow> sdk_result) \<Rightarrow> 's user_fn" where
  "pure_user f = (\<lambda>es s. Inr (f es, s))"

text \<open>
  Linear memory as WebAssembly has it: a vector of bytes, address 0 included, in which an
  access within bounds succeeds and one outside fails.
\<close>

definition linear_memory :: "'s memory_export \<Rightarrow> ('s \<Rightarrow> bytes) \<Rightarrow> bool" where
  "linear_memory mem contents \<longleftrightarrow>
     (\<forall>s p n. mem_read mem s p n =
        (if p + n \<le> length (contents s) then Some (take n (drop p (contents s))) else None)) \<and>
     (\<forall>s p bs. if p + length bs \<le> length (contents s)
        then \<exists>s'. mem_write mem s p bs = Some s' \<and> contents s' = copy_at p bs (contents s)
        else mem_write mem s p bs = None)"

text \<open>
  The allocator answers a request with the null pointer, as it does when the heap is
  exhausted, and leaves linear memory alone.
\<close>

definition alloc_fails :: "'s machine \<Rightarrow> ('s \<Rightarrow> bytes) \<Rightarrow> 's \<Rightarrow> nat \<Rightarrow> nat \<Rightarrow> bool" where
  "alloc_fails M contents s n al \<longleftrightarrow> (\<exists>s'. mc_alloc M s n al = (0, s') \<and> contents s' = contents s)"

subsection \<open>A reference machine\<close>

record arena =
  ar_mem :: bytes
  ar_blocks :: "(nat \<times> nat \<times> nat) list"

definition arena_read :: "arena \<Rightarrow> nat \<Rightarrow> nat \<Rightarrow> bytes option" where
  "arena_read s p n =
     (if p + n \<le> length (ar_mem s) then Some (take n (drop p (ar_mem s))) else None)"

definition arena_write :: "arena \<Rightarrow> nat \<Rightarrow> bytes \<Rightarrow> arena option" where
  "arena_write s p bs =
     (if p + length bs \<le> length (ar_mem s) then Some (s\<lparr>ar_mem := copy_at p bs (ar_mem s)\<rparr>)
      else None)"

definition arena_top :: "arena \<Rightarrow> nat" where
  "arena_top s = foldr (\<lambda>(p, n, al) m. max (p + n) m) (ar_blocks s) 1"

definition align_up :: "nat \<Rightarrow> nat \<Rightarrow> nat" where
  "align_up p al = (p + (al - 1)) div al * al"

definition arena_alloc :: "arena \<Rightarrow> nat \<Rightarrow> nat \<Rightarrow> u32 \<times> arena" where
  "arena_alloc s n al =
     (let p = align_up (arena_top s) al in
      if p + n \<le> length (ar_mem s)
      then (of_nat p, s\<lparr>ar_blocks := (p, n, al) # ar_blocks s\<rparr>)
      else (0, s))"

definition arena_dealloc :: "arena \<Rightarrow> u32 \<Rightarrow> nat \<Rightarrow> nat \<Rightarrow> arena" where
  "arena_dealloc s p n al = s\<lparr>ar_blocks := filter (\<lambda>b. fst b \<noteq> unat p) (ar_blocks s)\<rparr>"

definition arena_machine :: "arena machine" where
  "arena_machine =
     \<lparr>mc_memory = \<lparr>mem_read = arena_read, mem_write = arena_write\<rparr>,
      mc_alloc = arena_alloc, mc_dealloc = arena_dealloc\<rparr>"

definition arena_live :: "arena \<Rightarrow> blocks" where
  "arena_live s = map_of (ar_blocks s)"

definition arena_avail :: "arena \<Rightarrow> nat" where
  "arena_avail s = length (ar_mem s) - arena_top s"

definition arena_ok :: "arena \<Rightarrow> bool" where
  "arena_ok s \<longleftrightarrow> length (ar_mem s) \<le> MAX_GUEST_MEMORY_BYTES \<and> distinct (map fst (ar_blocks s)) \<and>
     (\<forall>(p, n, al) \<in> set (ar_blocks s). 0 < p \<and> valid_layout n al \<and> p + n \<le> length (ar_mem s))"

text \<open>An entry for the examples below.\<close>

abbreviation arena_entry :: "nat \<Rightarrow> entry" where
  "arena_entry k \<equiv> \<lparr>e_key = [107, of_nat k], e_pool = ''a'', e_status = StHit,
     e_t = Some (of_nat k), e_value = Some [1, 2], e_line = None\<rparr>"

section \<open>A merge call on an SDK guest\<close>

context guest_machine
begin

text \<open>The guest's result, packed and unpacked again.\<close>

lemma result_roundtrip:
  assumes "ok s" "result_cost r \<le> avail s"
  shows "\<exists>packed s' s''. encode_result M r s = Inr (packed, s') \<and>
    decode_result (mc_memory M) (dealloc_raw M) packed s' = Inr (host_result r, s'') \<and>
    ok s'' \<and> blocks s \<subseteq>\<^sub>m blocks s''"
proof (cases r)
  case (SWinner i)
  then show ?thesis
    using assms by (simp add: encode_result_def decode_result_def Let_def wire_simps abi_constants)
next
  case (SSynthesized bs)
  have len: "length bs \<le> MAX_GUEST_MEMORY_BYTES"
    using assms(2) avail_cap [OF assms(1)] SSynthesized by (simp add: result_cost_def)
  obtain payload desc s' where "encode_synthesized M bs s = Inr (push_bit 32 (ucast desc) OR 2, s')"
    "synthesized s s' payload desc bs"
    using encode_synthesized_ok assms SSynthesized by blast
  then show ?thesis
    using decode_synthesized_ok [OF _ len] SSynthesized by (simp add: encode_result_def)
next
  case SMiss
  then show ?thesis
    using assms by (simp add: encode_result_def decode_result_def Let_def abi_constants)
qed

text \<open>The whole call, for a user function that may allocate.\<close>

lemma run_sdk_guest:
  assumes exports: "module_exports pre = merge_fn M flags_ptr flags user"
    and inst: "instantiate pre (store_data_new name) ticks = Inr s" "ok s"
    and room: "entries_cost es \<le> avail s"
    and pools: "\<forall>e \<in> set es. is_str (e_pool e)"
    and user: "\<And>s1. grows s s1 \<Longrightarrow> avail s \<le> avail s1 + entries_cost es \<Longrightarrow>
      \<exists>s2. user es s1 = Inr (r, s2) \<and> grows s1 s2 \<and> result_cost r \<le> avail s2"
  shows "run_with_pre pre name ticks es = check_winner (length es) (host_result r)"
proof -
  obtain enc s1 where enc: "encoded_entries_write (mc_memory M) (alloc_raw M) es s = Inr (enc, s1)"
    "encoded s1 enc es" "grows s s1" "avail s \<le> avail s1 + entries_cost es"
    using encoded_entries_write_ok [OF inst(2) room] by blast
  have ok1: "ok s1"
    using enc(3) by (simp add: grows_def)
  obtain s2 where s2: "user es s1 = Inr (r, s2)" "grows s1 s2" "result_cost r \<le> avail s2"
    using user [OF enc(3,4)] by blast
  have ok2: "ok s2"
    using s2(2) by (simp add: grows_def)
  obtain packed s3 s4 where s4: "encode_result M r s2 = Inr (packed, s3)"
    "decode_result (mc_memory M) (dealloc_raw M) packed s3 = Inr (host_result r, s4)"
    "ok s4" "blocks s2 \<subseteq>\<^sub>m blocks s4"
    using result_roundtrip [OF ok2 s2(3)] by blast
  have merge: "mcgw_merge M user s1 (ee_ptr enc) (ee_count enc) = Inr (packed, s3)"
    using decode_entries_ok [OF ok1 enc(2) pools] s2(1) s4(1) by (simp add: mcgw_merge_def)
  have "blocks s1 (unat (ee_ptr enc)) = Some (unat (ee_total_size enc), unat (8::u32))"
    using enc(2) by (simp add: encoded_def)
  moreover have "blocks s1 \<subseteq>\<^sub>m blocks s4"
    using s2(2) s4(4) by (auto simp: grows_def intro: map_le_trans)
  ultimately have "blocks s4 (unat (ee_ptr enc)) = Some (unat (ee_total_size enc), unat (8::u32))"
    by (force simp: map_le_def dom_def)
  then obtain s5 where "dealloc_raw M s4 (ee_ptr enc) (ee_total_size enc) 8 = Inr s5"
    using dealloc_ok [OF s4(3)] by blast
  then show ?thesis
    using inst(1) enc(1) merge s4(2)
    by (simp add: run_with_pre_def Let_def exports merge_fn_def)
qed

lemma run_user_guest:
  assumes "module_exports pre = merge_fn M flags_ptr flags user"
    and "instantiate pre (store_data_new name) ticks = Inr s" "ok s"
    and user: "user_returns M blocks avail ok user es r k"
    and room: "entries_cost es + k + result_cost r \<le> avail s"
    and "\<forall>e \<in> set es. is_str (e_pool e)"
  shows "run_with_pre pre name ticks es = check_winner (length es) (host_result r)"
proof (rule run_sdk_guest [OF assms(1-3) _ assms(6)])
  show "entries_cost es \<le> avail s"
    using room by simp
  fix s1
  assume s1: "grows s s1" "avail s \<le> avail s1 + entries_cost es"
  then have "ok s1" "k \<le> avail s1"
    using room by (simp_all add: grows_def)
  then obtain s2 where "user es s1 = Inr (r, s2)" "grows s1 s2" "avail s1 \<le> avail s2 + k"
    using user unfolding user_returns_def by blast
  then show "\<exists>s2. user es s1 = Inr (r, s2) \<and> grows s1 s2 \<and> result_cost r \<le> avail s2"
    using s1 room by auto
qed

lemma pure_user_returns: "user_returns M blocks avail ok (pure_user f) es (f es) 0"
  by (simp add: user_returns_def pure_user_def grows_refl)

end

section \<open>The reference machine keeps the contract\<close>

lemma align_up_bounds:
  assumes "0 < al"
  shows "p \<le> align_up p al" "align_up p al < p + al"
proof -
  have "p + (al - 1) = (p + (al - 1)) div al * al + (p + (al - 1)) mod al"
    by simp
  moreover have "(p + (al - 1)) mod al < al"
    using assms by simp
  ultimately show "p \<le> align_up p al" "align_up p al < p + al"
    using assms unfolding align_up_def by linarith+
qed

lemma foldr_max_ge:
  "b \<in> set bl \<Longrightarrow> fst b + fst (snd b) \<le> foldr (\<lambda>(p, n, al) m. max (p + n) m) bl (z::nat)"
  by (induction bl) (auto simp: le_max_iff_disj)

lemma foldr_max_base: "z \<le> foldr (\<lambda>(p, n, al) m. max (p + n) m) bl (z::nat)"
  by (induction bl) (auto simp: le_max_iff_disj)

lemma foldr_max_cap:
  "foldr (\<lambda>(p, n, al) m. max (p + n) m) bl z \<le> c \<longleftrightarrow> z \<le> c \<and> (\<forall>(p, n, al) \<in> set bl. p + n \<le> (c::nat))"
  by (induction bl) auto

lemma arena_live_in: "arena_live s a = Some (n, al) \<Longrightarrow> (a, n, al) \<in> set (ar_blocks s)"
  by (simp add: arena_live_def map_of_SomeD)

lemma arena_owned:
  assumes "x \<in> owned_of (arena_live s)"
  shows "x < arena_top s" "arena_ok s \<Longrightarrow> x < length (ar_mem s)"
proof -
  obtain a n al where b: "(a, n, al) \<in> set (ar_blocks s)" "x < a + n"
    using assms arena_live_in by (fastforce simp: owned_of_def)
  show "x < arena_top s"
    using foldr_max_ge [OF b(1)] b(2) by (simp add: arena_top_def less_le_trans)
  show "arena_ok s \<Longrightarrow> x < length (ar_mem s)"
    using b by (fastforce simp: arena_ok_def)
qed

lemma map_of_filter_key: "map_of (filter (\<lambda>b. fst b \<noteq> k) bl) = (map_of bl)(k := None)"
  by (induction bl) auto

lemma length_copy_at: "p + length bs \<le> length m \<Longrightarrow> length (copy_at p bs m) = length m"
  by (simp add: copy_at_def)

lemma nth_copy_at:
  "p + length bs \<le> length m \<Longrightarrow> j < length m \<Longrightarrow> j < p \<or> p + length bs \<le> j \<Longrightarrow>
   copy_at p bs m ! j = m ! j"
  by (auto simp: copy_at_def nth_append)

lemma take_drop_copy_at:
  "p + length bs \<le> length m \<Longrightarrow> take (length bs) (drop p (copy_at p bs m)) = bs"
  by (simp add: copy_at_def)

lemma copy_at_other:
  assumes "p + length bs \<le> length m" "q + k \<le> length m" "{p..<p + length bs} \<inter> {q..<q + k} = {}"
  shows "take k (drop q (copy_at p bs m)) = take k (drop q m)"
proof (rule nth_equalityI)
  show len: "length (take k (drop q (copy_at p bs m))) = length (take k (drop q m))"
    using assms by (simp add: length_copy_at)
  fix i
  assume i: "i < length (take k (drop q (copy_at p bs m)))"
  have ik: "i < k" "q + i < length m"
    using i assms by (auto simp: length_copy_at)
  have "q + i < p \<or> p + length bs \<le> q + i"
    using assms(3) ik by (auto simp: set_eq_iff) (metis le_add1 nat_add_left_cancel_less not_le)
  then show "take k (drop q (copy_at p bs m)) ! i = take k (drop q m) ! i"
    using ik assms by (simp add: nth_copy_at length_copy_at)
qed

lemma arena_alloc_ok:
  assumes ok: "arena_ok s" and v: "valid_layout n al" and r: "arena_alloc s n al = (ptr, s')"
    and nz: "ptr \<noteq> 0"
  obtains p where "p = align_up (arena_top s) al" "unat ptr = p" "0 < p" "arena_top s \<le> p"
    "p + n \<le> length (ar_mem s)" "s' = s\<lparr>ar_blocks := (p, n, al) # ar_blocks s\<rparr>"
proof -
  define p where "p = align_up (arena_top s) al"
  have al: "0 < al"
    using v is_power_of_two_pos by (simp add: valid_layout_def)
  have fits: "p + n \<le> length (ar_mem s)" and s': "s' = s\<lparr>ar_blocks := (p, n, al) # ar_blocks s\<rparr>"
    and ptr: "ptr = of_nat p"
    using r nz by (auto simp: arena_alloc_def Let_def p_def split: if_splits)
  have top: "arena_top s \<le> p"
    using align_up_bounds [OF al] by (simp add: p_def)
  moreover have "1 \<le> arena_top s"
    using foldr_max_base [of 1] by (simp add: arena_top_def)
  moreover have "unat ptr = p"
    using fits ok by (simp add: ptr arena_ok_def MAX_GUEST_MEMORY_BYTES_def unat_of_nat)
  ultimately show ?thesis
    using that fits s' p_def by simp
qed

lemma arena_alloc_live:
  assumes "arena_ok s" "valid_layout n al" "arena_alloc s n al = (ptr, s')" "ptr \<noteq> 0"
  shows "arena_ok s' \<and> arena_live s (unat ptr) = None \<and>
      arena_live s' = (arena_live s)(unat ptr \<mapsto> (n, al))"
    and "{unat ptr..<unat ptr + n} \<inter> owned_of (arena_live s) = {}"
proof -
  obtain p where p: "unat ptr = p" "0 < p" "arena_top s \<le> p" "p + n \<le> length (ar_mem s)"
    "s' = s\<lparr>ar_blocks := (p, n, al) # ar_blocks s\<rparr>"
    by (rule arena_alloc_ok [OF assms], rule that)
  have "0 < n'" if "(a, n', al') \<in> set (ar_blocks s)" for a n' al'
    using assms(1) that by (auto simp: arena_ok_def valid_layout_def)
  then have fresh: "p \<notin> fst ` set (ar_blocks s)"
    using foldr_max_ge [of _ "ar_blocks s" 1] p(3) by (fastforce simp: arena_top_def)
  then have "arena_live s p = None"
    by (simp add: arena_live_def map_of_eq_None_iff)
  then show "arena_ok s' \<and> arena_live s (unat ptr) = None \<and>
      arena_live s' = (arena_live s)(unat ptr \<mapsto> (n, al))"
    using p assms(1,2) fresh by (auto simp: arena_ok_def arena_live_def)
  show "{unat ptr..<unat ptr + n} \<inter> owned_of (arena_live s) = {}"
    using arena_owned(1) [of _ s] p(1,3) by fastforce
qed

lemma arena_alloc_read:
  "arena_alloc s n al = (ptr, s') \<Longrightarrow> arena_read s' q m = arena_read s q m"
  by (auto simp: arena_alloc_def arena_read_def Let_def split: if_splits)

lemma arena_alloc_avail:
  assumes "arena_ok s" "valid_layout n al" "arena_alloc s n al = (ptr, s')"
  shows "ptr = 0 \<Longrightarrow> arena_avail s < n + al" "arena_avail s \<le> arena_avail s' + (n + al)"
proof -
  have al: "0 < al"
    using assms(2) is_power_of_two_pos by (simp add: valid_layout_def)
  note up = align_up_bounds [OF al, of "arena_top s"]
  show "ptr = 0 \<Longrightarrow> arena_avail s < n + al"
  proof (rule ccontr)
    assume z: "ptr = 0" and "\<not> arena_avail s < n + al"
    then have "align_up (arena_top s) al + n \<le> length (ar_mem s)"
      using up al by (simp add: arena_avail_def)
    moreover have "0 < align_up (arena_top s) al"
      using foldr_max_base [of 1 "ar_blocks s"] up by (simp add: arena_top_def)
    moreover have "length (ar_mem s) < 2 ^ 32"
      using assms(1) by (simp add: arena_ok_def MAX_GUEST_MEMORY_BYTES_def)
    ultimately show False
      using assms(3) z unat_of_nat [where 'a = 32, of "align_up (arena_top s) al"]
      by (auto simp: arena_alloc_def Let_def)
  qed
  show "arena_avail s \<le> arena_avail s' + (n + al)"
    using assms(3) up by (auto simp: arena_alloc_def Let_def arena_avail_def arena_top_def split: if_splits)
qed

lemma arena_write_keeps:
  assumes "arena_ok s" "arena_write s p bs = Some s'"
  shows "arena_ok s' \<and> arena_live s' = arena_live s \<and> arena_avail s' = arena_avail s"
  using assms
  by (auto simp: arena_write_def arena_ok_def arena_live_def arena_avail_def arena_top_def
      length_copy_at split: if_splits)

lemma arena_dealloc_live:
  assumes "arena_ok s"
  shows "arena_ok (arena_dealloc s ptr n al) \<and>
    arena_live (arena_dealloc s ptr n al) = (arena_live s)(unat ptr := None)"
  using assms
  by (auto simp: arena_ok_def arena_dealloc_def arena_live_def map_of_filter_key distinct_map_filter)

interpretation am: guest_machine arena_machine arena_live arena_avail arena_ok
proof (unfold_locales, simp_all only: arena_machine_def machine.simps memory_export.simps)
  fix s p n bs off k a al s' q m
  show "length bs = n" if "arena_read s p n = Some bs"
    using that by (auto simp: arena_read_def split: if_splits)
  show "arena_read s (p + off) k = Some (take k (drop off bs))"
    if "arena_read s p n = Some bs" "off + k \<le> n"
    using that by (auto simp: arena_read_def take_drop min_def ac_simps split: if_splits)
  show "\<exists>bs. arena_read s p k = Some bs"
    if "arena_ok s" "arena_live s a = Some (n, al)" "p + k \<le> a + n"
    using arena_live_in [OF that(2)] that by (auto simp: arena_read_def arena_ok_def)
  show "\<exists>s'. arena_write s p bs = Some s'"
    if "arena_ok s" "arena_live s a = Some (n, al)" "p + length bs \<le> a + n"
    using arena_live_in [OF that(2)] that by (auto simp: arena_write_def arena_ok_def)
  show "arena_read s' p (length bs) = Some bs" if "arena_write s p bs = Some s'"
    using that by (auto simp: arena_read_def arena_write_def take_drop_copy_at length_copy_at
        split: if_splits)
  show "arena_read s' q m = arena_read s q m"
    if "arena_write s p bs = Some s'" "{p..<p + length bs} \<inter> {q..<q + m} = {}"
    using that by (auto simp: arena_read_def arena_write_def copy_at_other length_copy_at
        split: if_splits)
  show "a < MAX_GUEST_MEMORY_BYTES" if "arena_ok s" "a \<in> owned_of (arena_live s)"
    using arena_owned(2) [OF that(2,1)] that(1) by (simp add: arena_ok_def)
  show "arena_avail s \<le> MAX_GUEST_MEMORY_BYTES" if "arena_ok s"
    using that by (auto simp: arena_ok_def arena_avail_def)
  show "0 < p \<and> valid_layout n al" if "arena_ok s" "arena_live s p = Some (n, al)"
    using that(1) arena_live_in [OF that(2)] by (auto simp: arena_ok_def)
qed ((rule arena_write_keeps arena_alloc_avail arena_alloc_live(1,2) arena_alloc_read
      arena_dealloc_live; (assumption | rule refl))+)

text \<open>The two halves of a packed static string.\<close>

lemma pack_halves:
  fixes p w :: u32
  shows "ucast (drop_bit 32 (push_bit 32 (ucast p) OR ucast w :: u64)) = p"
    and "ucast ((push_bit 32 (ucast p) OR ucast w :: u64) AND mask 32) = w"
  by (rule bit_word_eqI; auto simp: bit_simps dest: bit_imp_le_length)+

lemma pack_static_str_fields:
  assumes "length fl < 2 ^ 32"
  shows "ucast (drop_bit 32 (pack_static_str p fl)) = p"
    and "unat (ucast (pack_static_str p fl AND 0xFFFFFFFF) :: u32) = length fl"
    and "pack_static_str p fl = 0 \<Longrightarrow> fl = []"
proof -
  define w where "w = (of_nat (length fl) :: u32)"
  have w: "unat w = length fl"
    using assms by (simp add: w_def unat_of_nat)
  have "(of_nat (length fl) :: u64) = ucast w"
    by (simp flip: w)
  then have pack: "pack_static_str p fl = push_bit 32 (ucast p) OR ucast w"
    by (simp add: pack_static_str_def)
  show "ucast (drop_bit 32 (pack_static_str p fl)) = p"
    unfolding pack by (rule pack_halves)
  have mask: "(0xFFFFFFFF :: u64) = mask 32"
    by (simp add: mask_numeral)
  show low: "unat (ucast (pack_static_str p fl AND 0xFFFFFFFF) :: u32) = length fl"
    unfolding pack mask pack_halves w ..
  show "fl = []" if "pack_static_str p fl = 0"
    using low that by simp
qed

lemma arena_alloc_full:
  assumes "arena_avail s = 0" "0 < n" "0 < al"
  shows "arena_alloc s n al = (0, s)"
  using assms align_up_bounds(1) [of al "arena_top s"]
  by (simp add: arena_alloc_def arena_avail_def Let_def)

text \<open>What is left at address 0 after the payload and then the descriptor were put there.\<close>

lemma overwritten_payload:
  assumes "8 \<le> length bs" "length bs \<le> length m" "length a = 4" "length b = 4"
  shows "copy_at 4 b (copy_at 0 a (copy_at 0 bs m)) = a @ b @ drop 8 bs @ drop (length bs) m"
  using assms by (simp add: copy_at_def)

lemma linear_write:
  assumes "linear_memory (mc_memory M) contents" "p + length bs \<le> length (contents s)"
  obtains s' where "raw_write M s p bs = Inr s'" "contents s' = copy_at p bs (contents s)"
proof -
  have "if p + length bs \<le> length (contents s)
      then \<exists>s'. mem_write (mc_memory M) s p bs = Some s' \<and> contents s' = copy_at p bs (contents s)
      else mem_write (mc_memory M) s p bs = None"
    using assms(1) unfolding linear_memory_def by blast
  then obtain s' where "mem_write (mc_memory M) s p bs = Some s'" "contents s' = copy_at p bs (contents s)"
    using assms(2) by auto
  then show ?thesis
    by (intro that [of s']) (simp_all add: raw_write_def ok_or_def)
qed

text \<open>Both requests of \<open>encode_synthesized\<close> fail: what it returns, and what is at address 0 then.\<close>

lemma encode_exhausted:
  assumes mem: "linear_memory (mc_memory M) contents" and len: "8 \<le> length bs" "length bs \<le> length (contents s)"
    and cap: "length (contents s) \<le> MAX_GUEST_MEMORY_BYTES"
    and fail: "alloc_fails M contents s (length bs) 1"
      "\<And>s1 s2. mc_alloc M s (length bs) 1 = (0, s1) \<Longrightarrow> mem_write (mc_memory M) s1 0 bs = Some s2 \<Longrightarrow>
        alloc_fails M contents s2 8 4"
  obtains s' where "encode_synthesized M bs s = Inr (2, s')"
    "contents s' = le_bytes 4 (0 :: u32) @ le_bytes 4 (of_nat (length bs) :: u32) @ drop 8 bs @ drop (length bs) (contents s)"
proof -
  have small: "unat (of_nat (length bs) :: u32) = length bs" "length bs \<le> 16777216"
    using cap len by (auto simp: MAX_GUEST_MEMORY_BYTES_def unat_of_nat)
  have lay: "layout (of_nat (length bs)) 1 = Inr (length bs, 1)" "layout 8 4 = Inr (8, 4)"
    using small len(1) by (auto simp: layout_def valid_layout_def max_def Let_def)
  have ne: "bs \<noteq> []"
    using len(1) by auto
  obtain s1 where s1: "mc_alloc M s (length bs) 1 = (0, s1)" "contents s1 = contents s"
    using fail(1) by (auto simp: alloc_fails_def)
  have "0 + length bs \<le> length (contents s1)"
    using len(2) s1(2) by simp
  then obtain s2 where s2: "raw_write M s1 0 bs = Inr s2" "contents s2 = copy_at 0 bs (contents s1)"
    by (rule linear_write [OF mem])
  obtain s3 where s3: "mc_alloc M s2 8 4 = (0, s3)" "contents s3 = contents s2"
    using fail(2) [OF s1(1)] s2(1) by (auto simp: alloc_fails_def raw_write_def ok_or_def split: option.splits)
  have size: "length (contents s3) = length (contents s)"
    using s1(2) s2(2) s3(2) len(2) by (simp add: length_copy_at)
  then have "0 + length (le_bytes 4 (0 :: u32)) \<le> length (contents s3)"
    using len by simp
  then obtain s4 where s4: "raw_write M s3 0 (le_bytes 4 (0 :: u32)) = Inr s4"
    "contents s4 = copy_at 0 (le_bytes 4 (0 :: u32)) (contents s3)"
    by (rule linear_write [OF mem])
  then have "4 + length (le_bytes 4 (of_nat (length bs) :: u32)) \<le> length (contents s4)"
    using len size by (simp add: length_copy_at)
  then obtain s5 where s5: "raw_write M s4 4 (le_bytes 4 (of_nat (length bs) :: u32)) = Inr s5"
    "contents s5 = copy_at 4 (le_bytes 4 (of_nat (length bs) :: u32)) (contents s4)"
    by (rule linear_write [OF mem])
  have "encode_synthesized M bs s = Inr (2, s5)"
    using lay s1(1) s2(1) s3(1) s4(1) s5(1) ne by (simp add: encode_synthesized_def Let_def and_then_def)
  moreover have "contents s5 =
      le_bytes 4 (0 :: u32) @ le_bytes 4 (of_nat (length bs) :: u32) @ drop 8 bs @ drop (length bs) (contents s)"
    using s1(2) s2(2) s3(2) s4(2) s5(2) overwritten_payload [OF len] by simp
  ultimately show ?thesis
    by (rule that)
qed

lemma arena_linear: "linear_memory (mc_memory arena_machine) ar_mem"
  by (auto simp: linear_memory_def arena_machine_def arena_read_def arena_write_def)

section \<open>Properties\<close>

text \<open>
  C5. The host runs what the guest's author wrote. For any machine that keeps the contract
  of linear memory and of the allocator, and any module the SDK builds around a function
  that returns \<open>r\<close> on the entries the host was given, a merge call returns \<open>r\<close>: the
  entries are encoded by the host and decoded by the guest without change, the result
  comes back without change, and both sides agree on every buffer they free. What is
  needed is that the entries, the function's own data and the result fit the guest's
  heap. A winner out of range becomes an error.
\<close>

theorem sdk_roundtrip:
  assumes "guest_machine M blocks avail ok"
    and "module_exports pre = merge_fn M flags_ptr flags user"
    and "instantiate pre (store_data_new name) ticks = Inr s" "ok s"
    and "user_returns M blocks avail ok user es r k"
    and "entries_cost es + k + result_cost r \<le> avail s"
    and "\<forall>e \<in> set es. is_str (e_pool e)"
  shows "run_with_pre pre name ticks es = check_winner (length es) (host_result r)"
  using guest_machine.run_user_guest [OF assms] .

theorem sdk_roundtrip_witness:
  "run_with_pre
     \<lparr>prelink = None, instantiate = (\<lambda>_ _. Inr \<lparr>ar_mem = replicate 1024 0, ar_blocks = []\<rparr>),
      module_exports = merge_fn arena_machine 0 None
        (pure_user (\<lambda>es. SSynthesized (concat (map e_key es))))\<rparr>
     ''m'' 25 [arena_entry 1, arena_entry 2] =
   Inr (Synthesized [107, 1, 107, 2])"
proof -
  define f where "f = (\<lambda>es :: entry list. SSynthesized (concat (map e_key es)))"
  define s :: arena where "s = \<lparr>ar_mem = replicate 1024 0, ar_blocks = []\<rparr>"
  have "run_with_pre
      \<lparr>prelink = None, instantiate = (\<lambda>_ _. Inr s),
       module_exports = merge_fn arena_machine 0 None (pure_user f)\<rparr>
      ''m'' 25 [arena_entry 1, arena_entry 2] =
    check_winner (length [arena_entry 1, arena_entry 2])
      (host_result (f [arena_entry 1, arena_entry 2]))"
  proof (rule sdk_roundtrip [OF am.guest_machine_axioms _ _ _ am.pure_user_returns, where s = s])
    show "arena_ok s"
      by (simp add: s_def arena_ok_def MAX_GUEST_MEMORY_BYTES_def)
    show "entries_cost [arena_entry 1, arena_entry 2] + 0 + result_cost (f [arena_entry 1, arena_entry 2])
        \<le> arena_avail s"
      by (simp add: s_def f_def arena_avail_def arena_top_def entries_cost_def entry_cost_def
          entry_len_def opt_len_def result_cost_def)
    show "\<forall>e \<in> set [arena_entry 1, arena_entry 2]. is_str (e_pool e)"
      by (simp add: is_str_def as_bytes_def utf8_step_def utf8_tail_def)
  qed simp_all
  then show ?thesis
    by (simp add: f_def s_def)
qed

text \<open>
  A module built by the SDK passes the handshake, and the flags the host reports for it
  are the ones its author declared (none declared reads as the empty string), whenever
  the string is in the module's data segment where the linker put it.
\<close>

lemma sdk_module_loads:
  assumes "module_exports m = merge_fn M flags_ptr flags user"
    and "prelink m = None" "instantiate m (store_data_new name) (- 1 div 2) = Inr s"
    and "\<And>fl. flags = Some fl \<Longrightarrow> is_str fl \<and> length fl < 2 ^ 32 \<and>
      mem_read (mc_memory M) s (unat flags_ptr) (length fl) = Some (as_bytes fl)"
  shows "from_module m name =
    Inr \<lparr>wm_module_name = name, wm_required_flags = (case flags of None \<Rightarrow> [] | Some fl \<Rightarrow> fl),
         wm_deadline_ticks = default_deadline_ticks, wm_pre = m\<rparr>"
proof -
  have "read_required_flags (module_exports m) s =
      Inr (case flags of None \<Rightarrow> [] | Some fl \<Rightarrow> fl)"
  proof (cases flags)
    case None
    then show ?thesis
      using assms(1) by (simp add: merge_fn_def read_required_flags_def)
  next
    case (Some fl)
    note fl = assms(4) [OF Some]
    show ?thesis
      using assms(1) fl pack_static_str_fields [of fl flags_ptr]
      by (auto simp: Some merge_fn_def read_required_flags_def Let_def read_mem_def ok_or_def
          from_utf8_as_bytes)
  qed
  then show ?thesis
    using assms(1-3)
    by (simp add: from_module_def Let_def merge_fn_def ABI_VERSION_def SDK_ABI_VERSION_def
        ok_or_def map_err_def and_then_def)
qed

text \<open>
  C11. A guest whose heap is exhausted does not trap when it encodes a synthesized result. On any
  machine with WebAssembly's linear memory, when the allocator answers null to the two
  requests of \<open>encode_synthesized\<close>, payload and descriptor are both written at address 0, the
  packed result is a valid synthesized result, and the host accepts it with its first
  eight bytes overwritten by the descriptor. (The comment in \<open>encode_synthesized\<close> relies on
  the allocator aborting instead, which \<open>alloc::alloc::alloc\<close> does not do.)
\<close>

theorem exhausted_heap_corrupts_value:
  assumes "linear_memory (mc_memory M) contents"
    and "8 \<le> length bs" "length bs \<le> length (contents s)" "length (contents s) \<le> MAX_GUEST_MEMORY_BYTES"
    and "alloc_fails M contents s (length bs) 1"
    and "\<And>s1 s2. mc_alloc M s (length bs) 1 = (0, s1) \<Longrightarrow> mem_write (mc_memory M) s1 0 bs = Some s2 \<Longrightarrow>
      alloc_fails M contents s2 8 4"
  shows "\<exists>s' s''. encode_result M (SSynthesized bs) s = Inr (2, s') \<and>
    decode_result (mc_memory M) (dealloc_raw M) 2 s' =
      Inr (Synthesized (le_bytes 4 (0 :: u32) @ le_bytes 4 (of_nat (length bs) :: u32) @ drop 8 bs), s'')"
proof -
  define out where "out = le_bytes 4 (0 :: u32) @ le_bytes 4 (of_nat (length bs) :: u32) @ drop 8 bs"
  have len: "unat (of_nat (length bs) :: u32) = length bs" "length bs \<le> MAX_GUEST_MEMORY_BYTES" "length out = length bs"
    using assms(2-4) by (auto simp: out_def MAX_GUEST_MEMORY_BYTES_def unat_of_nat)
  obtain s' where enc: "encode_synthesized M bs s = Inr (2, s')"
    "contents s' = le_bytes 4 (0 :: u32) @ le_bytes 4 (of_nat (length bs) :: u32) @ drop 8 bs @ drop (length bs) (contents s)"
    by (rule encode_exhausted [OF assms])
  then have s': "encode_synthesized M bs s = Inr (2, s')" "contents s' = out @ drop (length bs) (contents s)"
    by (simp_all add: out_def)
  have reads: "mem_read (mc_memory M) s' 0 8 = Some (take 8 out)" "mem_read (mc_memory M) s' 0 (length bs) = Some out"
    using assms(1-3) s'(2) len(3) by (simp_all add: linear_memory_def)
  have "decode_result (mc_memory M) (dealloc_raw M) 2 s' =
      and_then (dealloc_raw M s' 0 (max (of_nat (length bs)) 1) 1) (\<lambda>s.
      and_then (dealloc_raw M s 0 8 4) (\<lambda>s. Inr (Synthesized out, s)))"
    using reads len(1,2)
    by (simp add: decode_result_def Let_def abi_constants read_mem_def ok_or_def out_def)
  then have "decode_result (mc_memory M) (dealloc_raw M) 2 s' = Inr (Synthesized out, s')"
    by (simp add: dealloc_raw_def)
  moreover have "encode_result M (SSynthesized bs) s = Inr (2, s')"
    using s'(1) by (simp add: encode_result_def)
  ultimately show ?thesis
    unfolding out_def by blast
qed

theorem exhausted_heap_corrupts_value_witness:
  "\<exists>s' s''. encode_result arena_machine (SSynthesized [1, 2, 3, 4, 5, 6, 7, 8, 9])
      \<lparr>ar_mem = replicate 16 0, ar_blocks = [(1, 15, 1)]\<rparr> = Inr (2, s') \<and>
    decode_result (mc_memory arena_machine) (dealloc_raw arena_machine) 2 s' =
      Inr (Synthesized [0, 0, 0, 0, 9, 0, 0, 0, 9], s'')"
proof -
  let ?s = "\<lparr>ar_mem = replicate 16 0, ar_blocks = [(1, 15, 1)]\<rparr>" and ?bs = "[1, 2, 3, 4, 5, 6, 7, 8, 9] :: bytes"
  have full: "arena_avail ?s = 0"
    by (simp add: arena_avail_def arena_top_def)
  have first: "mc_alloc arena_machine ?s (length ?bs) 1 = (0, ?s)"
    using arena_alloc_full [OF full, of "length ?bs" 1] by (simp add: arena_machine_def)
  have "alloc_fails arena_machine ar_mem s2 8 4" if "mem_write (mc_memory arena_machine) ?s 0 ?bs = Some s2" for s2
  proof -
    have "s2 = ?s\<lparr>ar_mem := copy_at 0 ?bs (ar_mem ?s)\<rparr>"
      using that by (simp add: arena_machine_def arena_write_def)
    then have "arena_avail s2 = 0"
      by (simp add: arena_avail_def arena_top_def length_copy_at)
    then show ?thesis
      using arena_alloc_full [of s2 8 4] by (simp add: alloc_fails_def arena_machine_def)
  qed
  moreover have "le_bytes 4 (0 :: u32) = [0, 0, 0, 0]" "le_bytes 4 (9 :: u32) = [9, 0, 0, 0]"
    by code_simp+
  ultimately show ?thesis
    using exhausted_heap_corrupts_value [OF arena_linear, of ?bs ?s] first
    by (simp add: alloc_fails_def MAX_GUEST_MEMORY_BYTES_def)
qed

end
