(* ===== verification/Examples.thy ===== *)
theory Examples
  imports Sdk_Run
begin

text \<open>
  The example guests under rust/examples: last-n-wins, concat-values and profile-proto.

  Each is the user function of an SDK-built module. Indices are 32 bits wide in the guest.
  The profile merge decodes and encodes protocol buffers with the prost crate, which is
  not part of the repository: \<open>decode\<close> and \<open>encode\<close> are parameters. A warning is the pool
  it names.
\<close>

section \<open>Definitions\<close>

subsection \<open>last-n-wins\<close>

definition lnw_step :: "(nat \<times> i64) option \<Rightarrow> nat \<Rightarrow> entry \<Rightarrow> (nat \<times> i64) option" where
  "lnw_step best i e =
     (if e_status e \<noteq> StHit then best
      else
        (case e_t e of
           None \<Rightarrow> best
         | Some t \<Rightarrow>
             (case best of
                None \<Rightarrow> Some (i, t)
              | Some (j, bt) \<Rightarrow> if sint bt < sint t then Some (i, t) else best)))"

fun lnw_loop :: "(nat \<times> i64) option \<Rightarrow> nat \<Rightarrow> entry list \<Rightarrow> (nat \<times> i64) option" where
  "lnw_loop best i [] = best"
| "lnw_loop best i (e # es) = lnw_loop (lnw_step best i e) (Suc i) es"

definition last_n_wins :: "entry list \<Rightarrow> sdk_result" where
  "last_n_wins es = (case lnw_loop None 0 es of None \<Rightarrow> SMiss | Some (i, _) \<Rightarrow> SWinner (of_nat i))"

subsection \<open>concat-values\<close>

fun concat_loop :: "bytes \<Rightarrow> bool \<Rightarrow> entry list \<Rightarrow> bytes \<times> bool" where
  "concat_loop out wrote_any [] = (out, wrote_any)"
| "concat_loop out wrote_any (e # es) =
     (if e_status e \<noteq> StHit then concat_loop out wrote_any es
      else
        (case e_value e of
           None \<Rightarrow> concat_loop out wrote_any es
         | Some value \<Rightarrow> concat_loop ((if wrote_any then out @ [0x7C] else out) @ value) True es))"

definition concat_values :: "entry list \<Rightarrow> sdk_result" where
  "concat_values es =
     (let (out, wrote_any) = concat_loop [] False es in if wrote_any then SSynthesized out else SMiss)"

subsection \<open>profile-proto\<close>

record profile =
  user_id :: string
  updated_at :: i64
  attrs :: "(string, string) btree"
  badges :: "string list"

definition profile_default :: profile where
  "profile_default = \<lparr>user_id = '''', updated_at = 0, attrs = [], badges = []\<rparr>"

fun decode_hits ::
  "(bytes \<Rightarrow> profile option) \<Rightarrow> entry list \<Rightarrow> profile list \<Rightarrow> string list \<Rightarrow> profile list \<times> string list" where
  "decode_hits decode [] decoded warned = (decoded, warned)"
| "decode_hits decode (e # es) decoded warned =
     (if e_status e \<noteq> StHit then decode_hits decode es decoded warned
      else
        (case e_value e of
           None \<Rightarrow> decode_hits decode es decoded warned
         | Some bs \<Rightarrow>
             (case decode bs of
                Some p \<Rightarrow> decode_hits decode es (decoded @ [p]) warned
              | None \<Rightarrow> decode_hits decode es decoded (warned @ [e_pool e]))))"

text \<open>One pass of the loop over the sorted profiles; the set of badges is a map to unit.\<close>

definition absorb :: "profile \<times> (string, unit) btree \<Rightarrow> profile \<Rightarrow> profile \<times> (string, unit) btree" where
  "absorb acc p =
     (let (out, bs) = acc in
      (out\<lparr>user_id := user_id p, updated_at := updated_at p,
           attrs := fold (\<lambda>(k, v). bt_insert k v) (attrs p) (attrs out)\<rparr>,
       fold (\<lambda>b. bt_insert b ()) (badges p) bs))"

definition merge_sorted :: "profile list \<Rightarrow> profile" where
  "merge_sorted ps =
     (let (out, bs) = foldl absorb (profile_default, []) ps in out\<lparr>badges := bt_keys bs\<rparr>)"

definition merge_profile ::
  "(bytes \<Rightarrow> profile option) \<Rightarrow> (profile \<Rightarrow> bytes) \<Rightarrow> entry list \<Rightarrow> sdk_result \<times> string list" where
  "merge_profile decode encode es =
     (let (decoded, warned) = decode_hits decode es [] [] in
      if decoded = [] then (SMiss, warned)
      else (SSynthesized (encode (merge_sorted (sort_key (\<lambda>p. sint (updated_at p)) decoded))), warned))"

subsection \<open>Specifications\<close>

definition has_ttl :: "entry \<Rightarrow> bool" where
  "has_ttl e \<longleftrightarrow> e_status e = StHit \<and> e_t e \<noteq> None"

text \<open>The values of the hits, and what is decoded of them.\<close>

definition hit_values :: "entry list \<Rightarrow> bytes list" where
  "hit_values es = List.map_filter (\<lambda>e. if e_status e = StHit then e_value e else None) es"

fun join_bar :: "bytes list \<Rightarrow> bytes" where
  "join_bar [] = []"
| "join_bar [v] = v"
| "join_bar (v # vs) = v @ 0x7C # join_bar vs"

definition profiles_of :: "(bytes \<Rightarrow> profile option) \<Rightarrow> entry list \<Rightarrow> profile list" where
  "profiles_of decode es = List.map_filter decode (hit_values es)"

text \<open>The profile of greatest timestamp; of several, the one that comes last.\<close>

fun newest :: "profile list \<Rightarrow> profile" where
  "newest [] = profile_default"
| "newest [p] = p"
| "newest (p # ps) = (let q = newest ps in if sint (updated_at p) \<le> sint (updated_at q) then q else p)"

text \<open>The value of an attribute: that of the newest profile that has the attribute.\<close>

definition newest_attr :: "profile list \<Rightarrow> string \<Rightarrow> string option" where
  "newest_attr ps k =
     (case filter (\<lambda>p. bt_contains_key (attrs p) k) ps of
        [] \<Rightarrow> None
      | qs \<Rightarrow> bt_get (attrs (newest qs)) k)"

section \<open>Lemmas\<close>

subsection \<open>last-n-wins\<close>

text \<open>The invariant of last-write-wins, on the entries that carry a TTL.\<close>

definition lnw_inv :: "entry list \<Rightarrow> (nat \<times> i64) option \<Rightarrow> bool" where
  "lnw_inv ps best = best_inv has_ttl ps (map_option (apsnd Some) best)"

lemma lnw_step_inv:
  assumes "lnw_inv ps best"
  shows "lnw_inv (ps @ [e]) (lnw_step best (length ps) e)"
proof (cases best)
  case None
  then show ?thesis
    using assms best_ttl_snoc_first [of ps has_ttl e]
    by (auto simp: lnw_inv_def lnw_step_def best_inv_def has_ttl_def split: option.splits)
next
  case (Some it)
  then obtain i t where it: "best = Some (i, t)" and t: "e_t (ps ! i) = Some t" and best: "best_ttl has_ttl ps i"
    using assms by (cases it) (auto simp: lnw_inv_def best_inv_def)
  then have i: "i < length ps"
    by (simp add: best_ttl_def)
  show ?thesis
    using best_ttl_snoc_new [OF best, of e] best_ttl_snoc_keep [OF best, of e] i t
    by (auto simp: it lnw_inv_def lnw_step_def best_inv_def nth_append has_ttl_def split: option.splits)
qed

lemma lnw_loop_inv: "lnw_inv ps best \<Longrightarrow> lnw_inv (ps @ es) (lnw_loop best (length ps) es)"
proof (induction es arbitrary: ps best)
  case (Cons e es)
  from Cons.IH [OF lnw_step_inv [OF Cons.prems]] show ?case
    by simp
qed simp

lemma lnw_inv_final: "lnw_inv es (lnw_loop None 0 es)"
  using lnw_loop_inv [of "[]" None es] by (simp add: lnw_inv_def best_inv_def)

lemma lnw_Some: "(\<exists>t. lnw_loop None 0 es = Some (i, t)) \<longleftrightarrow> best_ttl has_ttl es i"
  using best_inv_Some_iff [OF lnw_inv_final [unfolded lnw_inv_def], of es i]
  by (auto simp: apsnd_def)

lemma lnw_None: "lnw_loop None 0 es = None \<longleftrightarrow> (\<forall>i < length es. \<not> has_ttl (es ! i))"
  using best_inv_None_iff [OF lnw_inv_final [unfolded lnw_inv_def], of es] by simp

subsection \<open>concat-values\<close>

lemma hit_values_simps [simp]:
  "hit_values [] = []"
  "hit_values (e # es) =
     (if e_status e = StHit then (case e_value e of None \<Rightarrow> hit_values es | Some v \<Rightarrow> v # hit_values es)
      else hit_values es)"
  by (simp_all add: hit_values_def map_filter_simps split: option.split)

lemma concat_loop_spec:
  "concat_loop out wrote es =
     (if hit_values es = [] then (out, wrote)
      else ((if wrote then out @ [0x7C] else out) @ join_bar (hit_values es), True))"
proof (induction out wrote es rule: concat_loop.induct)
  case (2 out wrote e es)
  have "join_bar (v # hit_values es) = (if hit_values es = [] then v else v @ 0x7C # join_bar (hit_values es))" for v
    by (cases "hit_values es") simp_all
  then show ?case
    using 2 by (auto split: option.split)
qed simp

lemma concat_values_spec:
  "concat_values es = (if hit_values es = [] then SMiss else SSynthesized (join_bar (hit_values es)))"
  by (simp add: concat_values_def concat_loop_spec)

subsection \<open>profile-proto\<close>

lemma decode_hits_spec: "fst (decode_hits decode es ps warned) = ps @ profiles_of decode es"
  by (induction es arbitrary: ps warned)
    (simp_all add: profiles_of_def map_filter_simps split: option.split)

lemma last_insort_key:
  "sorted (map f ys) \<Longrightarrow> ys \<noteq> [] \<Longrightarrow> last (insort_key f x ys) = (if f x \<le> f (last ys) then last ys else x)"
proof (induction ys)
  case (Cons y ys)
  then show ?case
    using last_in_set [of ys] by (cases "ys = []") (auto simp: insort_not_Nil dest: order_trans)
qed simp

text \<open>The scan for the newest profile finds the end of the sorted sequence.\<close>

lemma newest_sorted: "ps \<noteq> [] \<Longrightarrow> newest ps = last (sort_key (\<lambda>p. sint (updated_at p)) ps)"
proof (induction ps rule: newest.induct)
  case (3 p q ps)
  let ?f = "\<lambda>p. sint (updated_at p)"
  have "sort_key ?f (q # ps) \<noteq> []" "sorted (map ?f (sort_key ?f (q # ps)))"
    by (metis length_0_conv length_sort list.discI) (rule sorted_sort_key)
  from last_insort_key [OF this(2,1), of p] show ?case
    using 3 by (simp add: Let_def)
qed simp_all

lemma insert_attrs:
  assumes "bt_ok m" "bt_ok kvs"
  shows "bt_ok (fold (\<lambda>(k, v). bt_insert k v) kvs m)"
    and "bt_get (fold (\<lambda>(k, v). bt_insert k v) kvs m) = bt_get m ++ bt_get kvs"
proof -
  have "distinct (map fst kvs)"
    using assms(2) strict_sorted_iff by (auto simp: bt_ok_def)
  then have "map_of (rev kvs) = bt_get kvs"
    by (simp add: bt_get_eq map_of_inject_set flip: rev_map)
  then show "bt_get (fold (\<lambda>(k, v). bt_insert k v) kvs m) = bt_get m ++ bt_get kvs"
    using bt.get_insert_all [OF assms(1), of kvs] by (simp add: bt.insert_all_def)
  show "bt_ok (fold (\<lambda>(k, v). bt_insert k v) kvs m)"
    using bt.ok_insert_all [OF assms(1), of kvs] by (simp add: bt.insert_all_def)
qed

text \<open>Profiles whose attributes are ordered maps, as the decoder's are.\<close>

lemma absorb_attrs:
  assumes "\<forall>p \<in> set ps. bt_ok (attrs p)" "bt_ok (attrs out)"
  shows "bt_ok (attrs (fst (foldl absorb (out, bs) ps))) \<and>
    bt_get (attrs (fst (foldl absorb (out, bs) ps))) k =
      (case filter (\<lambda>p. bt_contains_key (attrs p) k) ps of
         [] \<Rightarrow> bt_get (attrs out) k
       | q # qs \<Rightarrow> bt_get (attrs (last (q # qs))) k)"
  using assms(1)
proof (induction ps rule: rev_induct)
  case Nil
  show ?case
    using assms(2) by simp
next
  case (snoc p ps)
  obtain out' bs' where acc: "foldl absorb (out, bs) ps = (out', bs')"
    by (cases "foldl absorb (out, bs) ps")
  have "bt_ok (attrs out')" "bt_ok (attrs p)"
    using snoc acc by simp_all
  note ins = insert_attrs [OF this]
  have "fst (foldl absorb (out, bs) (ps @ [p])) =
      out'\<lparr>user_id := user_id p, updated_at := updated_at p,
        attrs := fold (\<lambda>(k, v). bt_insert k v) (attrs p) (attrs out')\<rparr>"
    by (simp add: acc absorb_def)
  moreover have "bt_get (attrs out') k =
      (case filter (\<lambda>p. bt_contains_key (attrs p) k) ps of
         [] \<Rightarrow> bt_get (attrs out) k
       | q # qs \<Rightarrow> bt_get (attrs (last (q # qs))) k)"
    using snoc acc by simp
  ultimately show ?case
    using ins by (auto simp: map_add_def bt_contains_key_def split: option.splits list.splits)
qed

lemma absorb_last:
  "ps \<noteq> [] \<Longrightarrow> user_id (fst (foldl absorb acc ps)) = user_id (last ps) \<and>
     updated_at (fst (foldl absorb acc ps)) = updated_at (last ps)"
  by (induction ps rule: rev_induct) (simp_all add: absorb_def split: prod.split)

lemma insert_badges:
  "bt_ok m \<Longrightarrow> bt_ok (fold (\<lambda>b. bt_insert b ()) ks m) \<and>
     dom (bt_get (fold (\<lambda>b. bt_insert b ()) ks m)) = dom (bt_get m) \<union> set ks"
  by (induction ks arbitrary: m) (auto simp: bt.ok_insert bt.get_insert)

lemma absorb_badges:
  "bt_ok bs \<Longrightarrow> bt_ok (snd (foldl absorb (out, bs) ps)) \<and>
     dom (bt_get (snd (foldl absorb (out, bs) ps))) = dom (bt_get bs) \<union> \<Union> (set ` badges ` set ps)"
proof (induction ps arbitrary: out bs)
  case (Cons p ps)
  obtain out' bs' where acc: "absorb (out, bs) p = (out', bs')"
    by (cases "absorb (out, bs) p")
  then have "bs' = fold (\<lambda>b. bt_insert b ()) (badges p) bs"
    by (simp add: absorb_def)
  then show ?case
    using Cons.IH [of bs' out'] insert_badges [OF Cons.prems, of "badges p"] acc by auto
qed simp

lemma merge_sorted_fields:
  assumes "ps \<noteq> []" "\<forall>p \<in> set ps. bt_ok (attrs p)"
  defines "out \<equiv> merge_sorted (sort_key (\<lambda>p. sint (updated_at p)) ps)"
  shows "user_id out = user_id (newest ps)" "updated_at out = updated_at (newest ps)"
    and "bt_get (attrs out) = newest_attr ps" "bt_ok (attrs out)"
    and "badges out = sorted_list_of_set (\<Union> (set ` badges ` set ps))"
proof -
  let ?f = "\<lambda>p. sint (updated_at p)"
  let ?ps = "sort_key ?f ps" and ?acc = "foldl absorb (profile_default, []) (sort_key ?f ps)"
  have out: "out = (fst ?acc)\<lparr>badges := bt_keys (snd ?acc)\<rparr>"
    by (simp add: out_def merge_sorted_def split: prod.split)
  have ps: "?ps \<noteq> []" "\<forall>p \<in> set ?ps. bt_ok (attrs p)"
    using assms(1,2) by (metis length_0_conv length_sort) (simp add: assms(2))
  show "user_id out = user_id (newest ps)" "updated_at out = updated_at (newest ps)"
    using absorb_last [OF ps(1)] newest_sorted [OF assms(1)] by (simp_all add: out)
  have start: "bt_ok (attrs profile_default)" "bt_get (attrs profile_default) k = None" for k
    by (simp_all add: profile_default_def bt.ok_empty bt.get_empty)
  note attr = absorb_attrs [OF ps(2) start(1), of "[]"]
  then show "bt_ok (attrs out)"
    by (simp add: out)
  show "bt_get (attrs out) = newest_attr ps"
  proof
    fix k
    let ?qs = "filter (\<lambda>p. bt_contains_key (attrs p) k) ps"
    have sorted: "filter (\<lambda>p. bt_contains_key (attrs p) k) ?ps = sort_key ?f ?qs"
      by (simp add: filter_sort)
    show "bt_get (attrs out) k = newest_attr ps k"
    proof (cases "?qs = []")
      case True
      then show ?thesis
        using attr [of k] start(2) sorted by (simp add: out newest_attr_def)
    next
      case False
      then have "sort_key ?f ?qs \<noteq> []"
        by (metis length_0_conv length_sort)
      then have "bt_get (attrs out) k = bt_get (attrs (last (sort_key ?f ?qs))) k"
        using attr [of k] sorted by (simp add: out split: list.splits)
      moreover have "newest_attr ps k = bt_get (attrs (newest ?qs)) k"
        using False by (cases ?qs) (simp_all add: newest_attr_def del: newest.simps)
      ultimately show ?thesis
        using newest_sorted [OF False] by simp
    qed
  qed
  have "bt_ok (snd ?acc)" "dom (bt_get (snd ?acc)) = \<Union> (set ` badges ` set ps)"
    using absorb_badges [of "[]" profile_default ?ps] by (simp_all add: bt.ok_empty bt_get_eq)
  then show "badges out = sorted_list_of_set (\<Union> (set ` badges ` set ps))"
    by (simp add: out bt.keys_eq_sorted_list_of_set)
qed

section \<open>Properties\<close>

text \<open>
  C31. The profile merge: with no decodable hit it misses; otherwise the profile it encodes has the user
  and timestamp of the newest decoded profile (the last in pool order among equally new
  ones), for every attribute the value of the newest profile that has it, and as badges
  the sorted union without duplicates of all badges.
\<close>

theorem merge_profile_spec:
  assumes "\<forall>bs p. decode bs = Some p \<longrightarrow> bt_ok (attrs p)"
  shows "if profiles_of decode es = [] then fst (merge_profile decode encode es) = SMiss
    else (\<exists>out. fst (merge_profile decode encode es) = SSynthesized (encode out) \<and>
      user_id out = user_id (newest (profiles_of decode es)) \<and>
      updated_at out = updated_at (newest (profiles_of decode es)) \<and>
      bt_get (attrs out) = newest_attr (profiles_of decode es) \<and> bt_ok (attrs out) \<and>
      badges out = sorted_list_of_set (\<Union> (set ` badges ` set (profiles_of decode es))))"
proof -
  obtain decoded warned where d: "decode_hits decode es [] [] = (decoded, warned)"
    by (cases "decode_hits decode es [] []")
  then have decoded: "decoded = profiles_of decode es"
    using decode_hits_spec [of decode es "[]" "[]"] by simp
  have "\<forall>p \<in> set (profiles_of decode es). bt_ok (attrs p)"
    using assms by (auto simp: profiles_of_def List.map_filter_def)
  then show ?thesis
    using d decoded merge_sorted_fields [of "profiles_of decode es"]
    by (auto simp: merge_profile_def)
qed

text \<open>Two profiles of the same age: the later pool wins the shared attribute.\<close>

theorem merge_profile_spec_witness:
  defines "a \<equiv> \<lparr>user_id = ''u'', updated_at = 5, attrs = [(''k'', ''1'')], badges = [''y'', ''x'']\<rparr>"
    and "b \<equiv> \<lparr>user_id = ''v'', updated_at = 5, attrs = [(''k'', ''2'')], badges = [''x'']\<rparr>"
    and "es \<equiv> map (\<lambda>n. \<lparr>e_key = [], e_pool = ''p'', e_status = StHit, e_t = None, e_value = Some [n], e_line = None\<rparr>) [0, 1]"
  defines "dec \<equiv> \<lambda>bs :: bytes. if bs = [0] then Some a else if bs = [1] then Some b else None"
  shows "\<exists>out :: profile. fst (merge_profile dec (\<lambda>p. as_bytes (user_id p)) es) = SSynthesized (as_bytes (user_id out)) \<and>
    user_id out = ''v'' \<and> bt_get (attrs out) ''k'' = Some ''2''"
proof -
  have prof: "profiles_of dec es = [a, b]"
    by (simp add: profiles_of_def es_def dec_def map_filter_simps)
  have new: "newest [a, b] = b" and attr: "newest_attr [a, b] ''k'' = Some ''2''" and user: "user_id b = ''v''"
    by (simp_all add: a_def b_def newest_attr_def bt_contains_key_def bt_get_def)
  have ok: "\<forall>bs p. dec bs = Some p \<longrightarrow> bt_ok (attrs p)"
    by (auto simp: dec_def a_def b_def bt_ok_def split: if_splits)
  have "\<exists>out :: profile. fst (merge_profile dec (\<lambda>p. as_bytes (user_id p)) es) = SSynthesized (as_bytes (user_id out)) \<and>
      user_id out = user_id b \<and> bt_get (attrs out) = newest_attr [a, b]"
    using merge_profile_spec [where decode = dec and es = es and encode = "\<lambda>p. as_bytes (user_id p)", OF ok]
    unfolding prof new by (simp only: list.distinct if_False) blast
  then show ?thesis
    unfolding user using attr by metis
qed

text \<open>
  C32. End to end, a gateway that runs the last-n-wins guest returns the earliest hit of greatest TTL
  among the hits that carry one, and a miss exactly when no hit does: the host's call of
  an SDK-built module whose function computes last-n-wins picks that entry of the list
  the host was given.
\<close>

theorem last_n_wins_end_to_end:
  assumes "guest_machine M blocks avail ok"
    and "module_exports pre = merge_fn M flags_ptr flags user"
    and "instantiate pre (store_data_new name) ticks = Inr s" "ok s"
    and "user_returns M blocks avail ok user es (last_n_wins es) k"
    and "entries_cost es + k + result_cost (last_n_wins es) \<le> avail s"
    and "\<forall>e \<in> set es. is_str (e_pool e)" "length es < 2 ^ 32"
  shows "(run_with_pre pre name ticks es = Inr (Winner i) \<longleftrightarrow> best_ttl has_ttl es i) \<and>
    (run_with_pre pre name ticks es = Inr Miss \<longleftrightarrow> (\<forall>i < length es. \<not> has_ttl (es ! i)))"
proof -
  have run: "run_with_pre pre name ticks es = check_winner (length es) (host_result (last_n_wins es))"
    by (rule guest_machine.run_user_guest [OF assms(1-7)])
  show ?thesis
  proof (cases "lnw_loop None 0 es")
    case None
    then have "run_with_pre pre name ticks es = Inr Miss"
      by (simp add: run last_n_wins_def)
    then show ?thesis
      using None lnw_None [of es] lnw_Some [of es i] by auto
  next
    case (Some x)
    then obtain j t where j: "lnw_loop None 0 es = Some (j, t)"
      by (cases x) auto
    then have best: "best_ttl has_ttl es j"
      using lnw_Some [of es j] by blast
    then have "j < length es"
      by (simp add: best_ttl_def)
    then have "run_with_pre pre name ticks es = Inr (Winner j)"
      using assms(8) by (simp add: run last_n_wins_def j unat_of_nat)
    then show ?thesis
      using best lnw_None [of es] j best_ttl_unique by auto
  qed
qed

theorem last_n_wins_end_to_end_witness:
  "run_with_pre
     \<lparr>prelink = None, instantiate = (\<lambda>_ _. Inr \<lparr>ar_mem = replicate 1024 0, ar_blocks = []\<rparr>),
      module_exports = merge_fn arena_machine 0 None (pure_user last_n_wins)\<rparr>
     ''m'' 25 [arena_entry 1, arena_entry 2] = Inr (Winner 1)"
proof -
  define s :: arena where "s = \<lparr>ar_mem = replicate 1024 0, ar_blocks = []\<rparr>"
  let ?es = "[arena_entry 1, arena_entry 2]"
  have "last_n_wins ?es = SWinner 1"
    by (simp add: last_n_wins_def lnw_step_def)
  then have "entries_cost ?es + 0 + result_cost (last_n_wins ?es) \<le> arena_avail s"
    by (simp add: s_def arena_avail_def arena_top_def entries_cost_def entry_cost_def entry_len_def opt_len_def
        result_cost_def)
  moreover have "arena_ok s"
    by (simp add: s_def arena_ok_def MAX_GUEST_MEMORY_BYTES_def)
  moreover have "\<forall>e \<in> set ?es. is_str (e_pool e)"
    by (simp add: is_str_def as_bytes_def utf8_step_def utf8_tail_def)
  moreover have "best_ttl has_ttl ?es 1"
    by (simp add: best_ttl_def has_ttl_def all_less_Suc_split)
  ultimately show ?thesis
    using last_n_wins_end_to_end [OF am.guest_machine_axioms _ _ _ am.pure_user_returns [of last_n_wins ?es],
        where s = s and i = 1]
    by (simp add: s_def)
qed

end
