(* ===== verification/Registries.thy ===== *)
theory Registries
  imports Core_Merge
begin

text \<open>
  registries.rs: the built-in registry and the table of WASM modules behind one lookup.
  The table sits behind an \<open>ArcSwap\<close>: a swap replaces it whole, and every operation loads
  it at most once, so each operation works on one table from start to end. Here an
  operation takes the registries with the table it loaded.

  The locale \<open>merge_directory\<close> is what the Lua module relies on: the four ways of asking
  about a name agree. \<open>Registries\<close> is its interpretation.
\<close>

section \<open>Definitions\<close>

record 'w wasm_entry =
  we_merge :: "'w merge"
  we_required_flags :: string

type_synonym 'w wasm_table = "(string, 'w wasm_entry) btree"

record 'w registries =
  builtins :: "'w registry"
  wasm :: "'w wasm_table"

definition registries_new :: "'w registry \<Rightarrow> 'w registries" where
  "registries_new b = \<lparr>builtins = b, wasm = []\<rparr>"

definition swap_wasm :: "'w wasm_table \<Rightarrow> 'w registries \<Rightarrow> 'w registries" where
  "swap_wasm new_table r = r\<lparr>wasm := new_table\<rparr>"

definition registries_has :: "'w registries \<Rightarrow> string \<Rightarrow> bool" where
  "registries_has r name =
     (if registry_has (builtins r) name then True else bt_contains_key (wasm r) name)"

definition registries_apply ::
  "'w registries \<Rightarrow> string \<Rightarrow> entry list \<Rightarrow> 'w \<Rightarrow> (merge_result \<times> 'w) option" where
  "registries_apply r name entries w =
     (case registry_get (builtins r) name of
        Some m \<Rightarrow> Some (merge_apply m entries w)
      | None \<Rightarrow>
          map_option (\<lambda>e. merge_apply (we_merge e) entries w) (bt_get (wasm r) name))"

definition registries_required_flags :: "'w registries \<Rightarrow> string \<Rightarrow> string option" where
  "registries_required_flags r name =
     (case registry_get (builtins r) name of
        Some m \<Rightarrow> Some (merge_flags m)
      | None \<Rightarrow> map_option we_required_flags (bt_get (wasm r) name))"

fun push_missing :: "string list \<Rightarrow> string list \<Rightarrow> string list" where
  "push_missing out [] = out"
| "push_missing out (k # ks) = push_missing (if k \<in> set out then out else out @ [k]) ks"

definition registries_names :: "'w registries \<Rightarrow> string list" where
  "registries_names r = sort (push_missing (registry_names (builtins r)) (bt_keys (wasm r)))"

definition registries_ok :: "'w registries \<Rightarrow> bool" where
  "registries_ok r \<longleftrightarrow> registry_ok (builtins r) \<and> bt_ok (wasm r)"

text \<open>A merge that never answers with an index past the entries.\<close>

definition in_range :: "'w merge \<Rightarrow> bool" where
  "in_range m \<longleftrightarrow> (\<forall>es w i. fst (merge_apply m es w) = Winner i \<longrightarrow> i < length es)"

definition registries_in_range :: "'w registries \<Rightarrow> bool" where
  "registries_in_range r \<longleftrightarrow>
     (\<forall>n m. registry_get (builtins r) n = Some m \<longrightarrow> in_range m) \<and>
     (\<forall>n e. bt_get (wasm r) n = Some e \<longrightarrow> in_range (we_merge e))"

text \<open>An example: one module with a name of its own, one with the name of a built-in.\<close>

definition example_registries :: "unit registries" where
  "example_registries = swap_wasm
     [(''concat'', \<lparr>we_merge = pure_merge (\<lambda>_. Miss) '''', we_required_flags = ''t''\<rparr>),
      (''first-hit'', \<lparr>we_merge = pure_merge (\<lambda>_. Miss) '''', we_required_flags = ''v''\<rparr>)]
     (registries_new (register registry_new))"

section \<open>The contract of the directory\<close>

locale merge_directory =
  fixes has_name :: "'r \<Rightarrow> string \<Rightarrow> bool"
    and dispatch :: "'r \<Rightarrow> string \<Rightarrow> entry list \<Rightarrow> 'w \<Rightarrow> (merge_result \<times> 'w) option"
    and flags_of :: "'r \<Rightarrow> string \<Rightarrow> string option"
    and listing :: "'r \<Rightarrow> string list"
    and valid :: "'r \<Rightarrow> bool"
  assumes dispatch_iff: "valid r \<Longrightarrow> dispatch r n es w \<noteq> None \<longleftrightarrow> has_name r n"
    and flags_iff: "valid r \<Longrightarrow> flags_of r n \<noteq> None \<longleftrightarrow> has_name r n"
    and listing_set: "valid r \<Longrightarrow> set (listing r) = {n. has_name r n}"
    and listing_sorted: "valid r \<Longrightarrow> sorted_wrt (<) (listing r)"
begin

lemma dispatch_obtain:
  assumes "valid r" "has_name r n"
  obtains res w' where "dispatch r n es w = Some (res, w')"
  using dispatch_iff [OF assms(1), of n es w] assms(2) by auto

lemma flags_obtain:
  assumes "valid r" "has_name r n"
  obtains fl where "flags_of r n = Some fl"
  using flags_iff [OF assms(1), of n] assms(2) by auto

lemma unknown_name:
  "valid r \<Longrightarrow> \<not> has_name r n \<Longrightarrow> dispatch r n es w = None \<and> flags_of r n = None"
  using dispatch_iff flags_iff by metis

lemma listing_distinct: "valid r \<Longrightarrow> distinct (listing r)"
  using listing_sorted strict_sorted_iff by blast

end

section \<open>Lemmas\<close>

lemma registries_ok_new: "registry_ok b \<Longrightarrow> registries_ok (registries_new b)"
  by (simp add: registries_ok_def registries_new_def bt.ok_empty)

lemma registries_ok_swap: "registries_ok r \<Longrightarrow> bt_ok t \<Longrightarrow> registries_ok (swap_wasm t r)"
  by (simp add: registries_ok_def swap_wasm_def)

lemma registries_has_iff:
  "registries_has r n \<longleftrightarrow> registry_get (builtins r) n \<noteq> None \<or> bt_get (wasm r) n \<noteq> None"
  by (simp add: registries_has_def registry_has_iff bt_contains_key_def)

lemma set_push_missing: "set (push_missing out ks) = set out \<union> set ks"
  by (induction out ks rule: push_missing.induct) auto

lemma distinct_push_missing: "distinct out \<Longrightarrow> distinct (push_missing out ks)"
  by (induction out ks rule: push_missing.induct) auto

lemma set_registries_names:
  "registries_ok r \<Longrightarrow> set (registries_names r) = {n. registries_has r n}"
  by (auto simp: registries_names_def set_push_missing registries_ok_def set_registry_names
      bt.keys_dom registries_has_def bt_contains_key_iff)

lemma registries_names_sorted:
  assumes "registries_ok r"
  shows "sorted_wrt (<) (registries_names r)"
proof -
  have "distinct (registry_names (builtins r))"
    using assms registry_names_sorted strict_sorted_iff by (auto simp: registries_ok_def)
  then show ?thesis
    by (simp add: registries_names_def strict_sorted_iff distinct_push_missing)
qed

interpretation rd: merge_directory registries_has registries_apply registries_required_flags
  registries_names registries_ok
proof unfold_locales
  fix r :: "'w registries" and n :: string and es and w :: 'w
  show "registries_apply r n es w \<noteq> None \<longleftrightarrow> registries_has r n"
    by (auto simp: registries_apply_def registries_has_iff split: option.splits)
  show "registries_required_flags r n \<noteq> None \<longleftrightarrow> registries_has r n"
    by (auto simp: registries_required_flags_def registries_has_iff split: option.splits)
  show "set (registries_names r) = {n. registries_has r n}" if "registries_ok r"
    using that by (rule set_registries_names)
  show "sorted_wrt (<) (registries_names r)" if "registries_ok r"
    using that by (rule registries_names_sorted)
qed

lemma in_range_builtins: "in_range FirstHit" "in_range PoolPreferred" "in_range LastWriteWins"
  by (auto simp: in_range_def FirstHit_def PoolPreferred_def LastWriteWins_def
      intro: fh.pick_in_range pp.pick_in_range lww.pick_in_range)

lemma registries_in_range_new: "registries_in_range (registries_new (register registry_new))"
  by (auto simp: registries_in_range_def registries_new_def registry_get_register bt.get_empty
      in_range_builtins split: if_splits)

lemma registries_in_range_swap:
  "registries_in_range r \<Longrightarrow> (\<And>n e. bt_get t n = Some e \<Longrightarrow> in_range (we_merge e)) \<Longrightarrow>
   registries_in_range (swap_wasm t r)"
  by (simp add: registries_in_range_def swap_wasm_def)

lemma registries_apply_in_range:
  assumes "registries_in_range r" "registries_apply r n es w = Some (Winner i, w')"
  shows "i < length es"
proof -
  obtain m where "in_range m" "merge_apply m es w = (Winner i, w')"
    using assms by (fastforce simp: registries_in_range_def registries_apply_def split: option.splits)
  then show ?thesis
    by (metis fst_conv in_range_def)
qed

lemma example_registries_ok: "registries_ok example_registries"
  by (simp add: example_registries_def registries_ok_swap registries_ok_new registry_ok_register
      bt_ok_def)

section \<open>Properties\<close>

text \<open>
  The four lookups agree: a name is listed exactly when \<open>has\<close> accepts it, exactly then
  \<open>apply\<close> dispatches and \<open>required_flags\<close> answers; and the list is strictly sorted.
\<close>

lemma lookups_agree:
  assumes "registries_ok r"
  shows "(n \<in> set (registries_names r) \<longleftrightarrow> registries_has r n) \<and>
    (registries_apply r n es w \<noteq> None \<longleftrightarrow> registries_has r n) \<and>
    (registries_required_flags r n \<noteq> None \<longleftrightarrow> registries_has r n) \<and>
    sorted_wrt (<) (registries_names r)"
  using rd.dispatch_iff [OF assms] rd.flags_iff [OF assms] rd.listing_set [OF assms]
    rd.listing_sorted [OF assms] by auto

text \<open>
  Built-ins shadow modules: whatever table is published, a built-in name dispatches to
  the built-in and reports its flags.
\<close>

lemma builtins_shadow:
  assumes "registry_get (builtins r) n = Some m"
  shows "registries_apply (swap_wasm t r) n es w = Some (merge_apply m es w) \<and>
    registries_required_flags (swap_wasm t r) n = Some (merge_flags m)"
  using assms by (simp add: registries_apply_def registries_required_flags_def swap_wasm_def)

end
