(* ===== verification/Token_Bucket.thy ===== *)
theory Token_Bucket
  imports Prelude
begin

text \<open>
  \<open>TokenBucket\<close> of metrics.rs, the limiter of per-request log lines. The first part is the
  bucket as one thread sees it (\<open>try_acquire_at\<close>), on 64-bit words, with an ideal bucket
  on natural numbers as its specification. The second part is the bucket shared by
  threads: every atomic access of \<open>try_acquire_at\<close> is one step, steps of different
  threads interleave freely, and the relaxed load of \<open>refilled_to\<close> may return any value
  at all, which covers every stale value the memory model allows.
\<close>

section \<open>Definitions\<close>

record token_bucket =
  tb_capacity :: u64
  nanos_per_token :: u64
  tb_origin :: nat
  refilled_to :: u64
  tokens :: u64

text \<open>\<open>u64::try_from(n).unwrap_or(u64::MAX)\<close>\<close>

definition u64_or_max :: "nat \<Rightarrow> u64" where
  "u64_or_max n = (case u64_try_from n of Some w \<Rightarrow> w | None \<Rightarrow> - 1)"

text \<open>\<open>TokenBucket::new\<close> at the instant \<open>now\<close>; durations and instants are nanoseconds.\<close>

definition token_bucket_new :: "u64 \<Rightarrow> nat \<Rightarrow> nat \<Rightarrow> token_bucket" where
  "token_bucket_new cap refill_interval now =
     \<lparr>tb_capacity = cap, nanos_per_token = u64_or_max (max refill_interval 1), tb_origin = now,
      refilled_to = 0, tokens = cap\<rparr>"

definition credit :: "u64 \<Rightarrow> token_bucket \<Rightarrow> token_bucket" where
  "credit earned b = b\<lparr>tokens := min (saturating_add_u64 (tokens b) earned) (tb_capacity b)\<rparr>"

definition take_token :: "token_bucket \<Rightarrow> bool \<times> token_bucket" where
  "take_token b =
     (case checked_sub_u64 (tokens b) 1 of
        Some t \<Rightarrow> (True, b\<lparr>tokens := t\<rparr>)
      | None \<Rightarrow> (False, b))"

definition try_acquire_at :: "u64 \<Rightarrow> token_bucket \<Rightarrow> bool \<times> token_bucket" where
  "try_acquire_at now b =
     (let last = refilled_to b;
          b' = (if last < now then
                  let earned = (now - last) div nanos_per_token b in
                  if 0 < earned
                  then credit earned (b\<lparr>refilled_to := last + earned * nanos_per_token b\<rparr>)
                  else b
                else b)
      in take_token b')"

text \<open>\<open>try_acquire\<close>, reading the clock.\<close>

definition try_acquire :: "nat \<Rightarrow> token_bucket \<Rightarrow> bool \<times> token_bucket" where
  "try_acquire instant b = try_acquire_at (u64_or_max (instant - tb_origin b)) b"

definition log_limiter_new :: "nat \<Rightarrow> token_bucket" where
  "log_limiter_new now = token_bucket_new 10 1000000000 now"

text \<open>A sequence of calls at the given times: how many tokens were taken.\<close>

fun acquire_all :: "u64 list \<Rightarrow> token_bucket \<Rightarrow> nat \<times> token_bucket" where
  "acquire_all [] b = (0, b)"
| "acquire_all (t # ts) b =
     (let (ok, b') = try_acquire_at t b; (n, b'') = acquire_all ts b'
      in ((if ok then 1 else 0) + n, b''))"

subsection \<open>Specification: an ideal bucket\<close>

record ideal =
  i_refilled :: nat
  i_tokens :: nat

definition ideal_acquire :: "nat \<Rightarrow> nat \<Rightarrow> nat \<Rightarrow> ideal \<Rightarrow> bool \<times> ideal" where
  "ideal_acquire cap npt now i =
     (let earned = (now - i_refilled i) div npt;
          avail = min (i_tokens i + earned) cap
      in (0 < avail, \<lparr>i_refilled = i_refilled i + earned * npt, i_tokens = avail - 1\<rparr>))"

definition bucket_abs :: "token_bucket \<Rightarrow> ideal" where
  "bucket_abs b = \<lparr>i_refilled = unat (refilled_to b), i_tokens = unat (tokens b)\<rparr>"

definition bucket_ok :: "token_bucket \<Rightarrow> bool" where
  "bucket_ok b \<longleftrightarrow> 0 < nanos_per_token b \<and> tokens b \<le> tb_capacity b \<and>
     unat (nanos_per_token b) dvd unat (refilled_to b)"

subsection \<open>Threads\<close>

text \<open>
  Where a thread stands inside \<open>try_acquire_at\<close>: before it, after the load of
  \<open>refilled_to\<close>, after winning the compare-exchange, before the final update, and back
  with its answer.
\<close>

datatype thread =
    Idle
  | Loaded u64 u64
  | Crediting u64
  | Taking

text \<open>\<open>clock\<close> is the time since the bucket was made, \<open>granted\<close> counts the answers \<open>true\<close>.\<close>

record shared =
  bucket :: token_bucket
  threads :: "thread list"
  clock :: u64
  granted :: nat

definition earned_at :: "token_bucket \<Rightarrow> u64 \<Rightarrow> u64 \<Rightarrow> u64" where
  "earned_at b now lst = (if lst < now then (now - lst) div nanos_per_token b else 0)"

inductive thread_step :: "shared \<Rightarrow> shared \<Rightarrow> bool" where
  tick: "clock s \<le> c \<Longrightarrow> thread_step s (s\<lparr>clock := c\<rparr>)"
| load: "t < length (threads s) \<Longrightarrow> threads s ! t = Idle \<Longrightarrow> now \<le> clock s \<Longrightarrow>
    thread_step s (s\<lparr>threads := (threads s)[t := Loaded now lst]\<rparr>)"
| skip: "t < length (threads s) \<Longrightarrow> threads s ! t = Loaded now lst \<Longrightarrow>
    earned_at (bucket s) now lst = 0 \<or> refilled_to (bucket s) \<noteq> lst \<Longrightarrow>
    thread_step s (s\<lparr>threads := (threads s)[t := Taking]\<rparr>)"
| elect: "t < length (threads s) \<Longrightarrow> threads s ! t = Loaded now lst \<Longrightarrow>
    earned = earned_at (bucket s) now lst \<Longrightarrow> 0 < earned \<Longrightarrow> refilled_to (bucket s) = lst \<Longrightarrow>
    thread_step s (s\<lparr>bucket := (bucket s)\<lparr>refilled_to := lst + earned * nanos_per_token (bucket s)\<rparr>,
      threads := (threads s)[t := Crediting earned]\<rparr>)"
| add: "t < length (threads s) \<Longrightarrow> threads s ! t = Crediting earned \<Longrightarrow>
    thread_step s (s\<lparr>bucket := credit earned (bucket s), threads := (threads s)[t := Taking]\<rparr>)"
| acquire: "t < length (threads s) \<Longrightarrow> threads s ! t = Taking \<Longrightarrow> take_token (bucket s) = (ok, b) \<Longrightarrow>
    thread_step s (s\<lparr>bucket := b, threads := (threads s)[t := Idle],
      granted := granted s + (if ok then 1 else 0)\<rparr>)"

definition shared_new :: "nat \<Rightarrow> u64 \<Rightarrow> nat \<Rightarrow> shared" where
  "shared_new n cap refill_interval =
     \<lparr>bucket = token_bucket_new cap refill_interval 0, threads = replicate n Idle, clock = 0,
      granted = 0\<rparr>"

text \<open>Credit that was won by the compare-exchange and is not yet added.\<close>

fun pending :: "thread \<Rightarrow> nat" where
  "pending (Crediting earned) = unat earned"
| "pending _ = 0"

definition shared_inv :: "u64 \<Rightarrow> u64 \<Rightarrow> shared \<Rightarrow> bool" where
  "shared_inv cap npt s \<longleftrightarrow>
     tb_capacity (bucket s) = cap \<and> nanos_per_token (bucket s) = npt \<and> 0 < npt \<and>
     tokens (bucket s) \<le> cap \<and> refilled_to (bucket s) \<le> clock s \<and>
     (\<forall>now lst. Loaded now lst \<in> set (threads s) \<longrightarrow> now \<le> clock s) \<and>
     (granted s + unat (tokens (bucket s)) + sum_list (map pending (threads s))) * unat npt
       \<le> unat cap * unat npt + unat (refilled_to (bucket s))"

section \<open>Lemmas\<close>

lemma unat_u64_or_max: "unat (u64_or_max n) = min n (2 ^ 64 - 1)"
  by (simp add: u64_or_max_def u64_try_from_def unat_of_nat unat_minus_1_u64)

lemma token_bucket_new_ok: "bucket_ok (token_bucket_new cap iv now)"
  by (simp add: bucket_ok_def token_bucket_new_def word_less_nat_alt unat_u64_or_max)

lemma unat_credit:
  "unat (tokens (credit earned b)) = min (unat (tokens b) + unat earned) (unat (tb_capacity b))"
  using unat_u64_bound [of "tb_capacity b"]
  by (simp add: credit_def min_def word_le_nat_alt unat_saturating_add_u64)

lemma credit_simps [simp]:
  "tb_capacity (credit e b) = tb_capacity b" "nanos_per_token (credit e b) = nanos_per_token b"
  "refilled_to (credit e b) = refilled_to b"
  by (simp_all add: credit_def)

lemma take_token_simps:
  "take_token b = (if tokens b = 0 then (False, b) else (True, b\<lparr>tokens := tokens b - 1\<rparr>))"
  using unat_eq_zero [of "tokens b"] by (auto simp: take_token_def checked_sub_u64_def word_le_nat_alt)

text \<open>The credit of one window is whole tokens and never runs past \<open>now\<close>.\<close>

lemma unat_earned_at:
  "unat (earned_at b now lst) = (unat now - unat lst) div unat (nanos_per_token b)"
  by (auto simp: earned_at_def unat_div unat_sub word_less_nat_alt order_less_imp_le word_le_nat_alt)

lemma unat_refilled:
  assumes "lst \<le> now"
  shows "unat (lst + earned_at b now lst * nanos_per_token b) =
      unat lst + unat (earned_at b now lst) * unat (nanos_per_token b)"
    and "lst + earned_at b now lst * nanos_per_token b \<le> now"
proof -
  have le: "unat lst + unat (earned_at b now lst) * unat (nanos_per_token b) \<le> unat now"
    using assms div_times_less_eq_dividend [of "unat now - unat lst" "unat (nanos_per_token b)"]
    unfolding unat_earned_at word_le_nat_alt by linarith
  then show eq: "unat (lst + earned_at b now lst * nanos_per_token b) =
      unat lst + unat (earned_at b now lst) * unat (nanos_per_token b)"
    using unat_u64_bound [of now] by (simp add: unat_word_ariths)
  then show "lst + earned_at b now lst * nanos_per_token b \<le> now"
    using le by (simp add: word_le_nat_alt)
qed

lemma try_acquire_at_alt:
  "try_acquire_at now b =
     (let earned = earned_at b now (refilled_to b) in
      take_token
        (if 0 < earned
         then credit earned (b\<lparr>refilled_to := refilled_to b + earned * nanos_per_token b\<rparr>) else b))"
  by (simp add: try_acquire_at_def earned_at_def Let_def)

subsection \<open>One thread\<close>

lemma unat_take_token:
  assumes "take_token b = (ok, b')"
  shows "unat (tokens b) = unat (tokens b') + (if ok then 1 else 0)"
    and "\<not> ok \<longleftrightarrow> tokens b = 0" and "b' = b\<lparr>tokens := tokens b'\<rparr>"
  using assms unat_pred [of "tokens b"] by (auto simp: take_token_simps split: if_splits)

lemma earned_refilled:
  "unat (refilled_to b + earned_at b now (refilled_to b) * nanos_per_token b) =
   unat (refilled_to b) + unat (earned_at b now (refilled_to b)) * unat (nanos_per_token b)"
  using unat_refilled(1) [of "refilled_to b" now b]
  by (cases "refilled_to b \<le> now") (auto simp: earned_at_def not_le)

text \<open>The bucket on words is the ideal bucket: nothing wraps.\<close>

lemma try_acquire_at_ideal:
  assumes "bucket_ok b" "try_acquire_at now b = (ok, b')"
  shows "ideal_acquire (unat (tb_capacity b)) (unat (nanos_per_token b)) (unat now) (bucket_abs b) =
      (ok, bucket_abs b')"
    and "bucket_ok b'" "tb_capacity b' = tb_capacity b" "nanos_per_token b' = nanos_per_token b"
proof -
  define e where "e = earned_at b now (refilled_to b)"
  define b1 where "b1 = (if 0 < e
    then credit e (b\<lparr>refilled_to := refilled_to b + e * nanos_per_token b\<rparr>) else b)"
  have take: "take_token b1 = (ok, b')"
    using assms(2) by (simp only: try_acquire_at_alt e_def b1_def Let_def)
  have tok: "unat (tokens b1) = min (unat (tokens b) + unat e) (unat (tb_capacity b))"
    using assms(1) unat_credit [of e "b\<lparr>refilled_to := refilled_to b + e * nanos_per_token b\<rparr>"]
    by (auto simp: b1_def bucket_ok_def word_le_nat_alt word_less_nat_alt min_def)
  have ref: "unat (refilled_to b1) = unat (refilled_to b) + unat e * unat (nanos_per_token b)"
    using earned_refilled [of b now] by (auto simp: b1_def e_def word_less_nat_alt)
  have same: "tb_capacity b1 = tb_capacity b" "nanos_per_token b1 = nanos_per_token b"
    by (simp_all add: b1_def)
  note t = unat_take_token [OF take]
  have b': "tb_capacity b' = tb_capacity b1" "nanos_per_token b' = nanos_per_token b1"
    "refilled_to b' = refilled_to b1"
    using t(3) by (metis token_bucket.select_convs token_bucket.surjective
        token_bucket.update_convs(5))+
  show "tb_capacity b' = tb_capacity b" "nanos_per_token b' = nanos_per_token b"
    using b' same by simp_all
  show "ideal_acquire (unat (tb_capacity b)) (unat (nanos_per_token b)) (unat now) (bucket_abs b) =
      (ok, bucket_abs b')"
    using tok ref t(1,2) b' unat_earned_at [of b now "refilled_to b", folded e_def]
      unat_eq_zero [of "tokens b1"]
    by (auto simp: ideal_acquire_def bucket_abs_def Let_def)
  show "bucket_ok b'"
    using assms(1) tok ref t(1) b' same by (auto simp: bucket_ok_def word_le_nat_alt)
qed

text \<open>One call, in the units of the clock.\<close>

lemma ideal_acquire_bounds:
  assumes "ideal_acquire cap npt now i = (ok, i')" "0 < npt"
  shows "i_tokens i' + (if ok then 1 else 0) \<le> cap"
    and "(i_tokens i' + (if ok then 1 else 0)) * npt + i_refilled i \<le> i_tokens i * npt + i_refilled i'"
    and "now < i_refilled i' + npt" "i_refilled i' \<le> max now (i_refilled i)"
proof -
  define e where "e = (now - i_refilled i) div npt"
  have i': "i_refilled i' = i_refilled i + e * npt" "i_tokens i' = min (i_tokens i + e) cap - 1"
    "ok \<longleftrightarrow> 0 < min (i_tokens i + e) cap"
    using assms(1) by (auto simp: ideal_acquire_def Let_def e_def)
  have sum: "i_tokens i' + (if ok then 1 else 0) = min (i_tokens i + e) cap"
    using i' by auto
  show "i_tokens i' + (if ok then 1 else 0) \<le> cap"
    unfolding sum by simp
  have "min (i_tokens i + e) cap * npt \<le> (i_tokens i + e) * npt"
    by (intro mult_le_mono1) simp
  then show "(i_tokens i' + (if ok then 1 else 0)) * npt + i_refilled i \<le>
      i_tokens i * npt + i_refilled i'"
    unfolding sum i'(1) by (simp add: algebra_simps)
  have "(now - i_refilled i) mod npt < npt" "e * npt + (now - i_refilled i) mod npt = now - i_refilled i"
    using assms(2) by (auto simp: e_def)
  then show "now < i_refilled i' + npt" "i_refilled i' \<le> max now (i_refilled i)"
    unfolding i'(1) by linarith+
qed

lemma try_acquire_at_bounds:
  assumes "bucket_ok b" "try_acquire_at now b = (ok, b')"
  shows "unat (tokens b') + (if ok then 1 else 0) \<le> unat (tb_capacity b)"
    and "(unat (tokens b') + (if ok then 1 else 0)) * unat (nanos_per_token b) + unat (refilled_to b)
      \<le> unat (tokens b) * unat (nanos_per_token b) + unat (refilled_to b')"
    and "unat now < unat (refilled_to b') + unat (nanos_per_token b)"
    and "unat (refilled_to b') \<le> max (unat now) (unat (refilled_to b))"
  using ideal_acquire_bounds [OF try_acquire_at_ideal(1) [OF assms]] assms(1)
  by (auto simp: bucket_abs_def bucket_ok_def word_less_nat_alt)

lemma acquire_all_bounds:
  "bucket_ok b \<Longrightarrow> acquire_all ts b = (n, b') \<Longrightarrow> \<forall>t \<in> set ts. unat t \<le> t1 \<Longrightarrow>
   n * unat (nanos_per_token b) + unat (refilled_to b) \<le>
     unat (tokens b) * unat (nanos_per_token b) + unat (refilled_to b') \<and>
   unat (refilled_to b') \<le> max t1 (unat (refilled_to b))"
proof (induction ts arbitrary: b n)
  case Nil
  then show ?case by simp
next
  case (Cons t ts)
  obtain ok b1 where one: "try_acquire_at t b = (ok, b1)"
    by (cases "try_acquire_at t b")
  obtain m where rest: "acquire_all ts b1 = (m, b')" and n: "n = (if ok then 1 else 0) + m"
    using Cons.prems(2) one by (auto split: prod.splits)
  note step = try_acquire_at_bounds [OF Cons.prems(1) one]
  note same = try_acquire_at_ideal(2-4) [OF Cons.prems(1) one]
  have "m * unat (nanos_per_token b) + unat (refilled_to b1) \<le>
      unat (tokens b1) * unat (nanos_per_token b) + unat (refilled_to b') \<and>
      unat (refilled_to b') \<le> max t1 (unat (refilled_to b1))"
    using Cons.IH [OF same(1) rest] Cons.prems(3) same(3) by simp
  then show ?case
    using step(2,4) Cons.prems(3) by (auto simp: n algebra_simps)
qed

lemma acquire_all_window:
  assumes ok: "bucket_ok b" and all: "acquire_all ts b = (n, b')"
    and win: "\<forall>t \<in> set ts. t0 \<le> unat t \<and> unat t \<le> t1" and le: "t0 \<le> t1"
  shows "n \<le> unat (tb_capacity b) + (t1 - t0) div unat (nanos_per_token b) + 1"
proof (cases ts)
  case Nil
  then show ?thesis
    using all by simp
next
  case (Cons t ts')
  define npt where "npt = unat (nanos_per_token b)"
  have pos: "0 < npt"
    using ok by (simp add: npt_def bucket_ok_def word_less_nat_alt)
  obtain a b1 where one: "try_acquire_at t b = (a, b1)"
    by (cases "try_acquire_at t b")
  obtain m where rest: "acquire_all ts' b1 = (m, b')" and n: "n = (if a then 1 else 0) + m"
    using all one Cons by (auto split: prod.splits)
  note step = try_acquire_at_bounds [OF ok one, folded npt_def]
  note same = try_acquire_at_ideal(2-4) [OF ok one]
  have "m * npt + unat (refilled_to b1) \<le> unat (tokens b1) * npt + unat (refilled_to b')"
    "unat (refilled_to b') \<le> max t1 (unat (refilled_to b1))"
    using acquire_all_bounds [OF same(1) rest] win Cons same(3) by (auto simp: npt_def)
  moreover have "t0 < unat (refilled_to b1) + npt"
    using step(3) win Cons by auto
  ultimately have "m * npt < unat (tokens b1) * npt + (t1 - t0) + npt"
    using le pos by (auto simp: max_def split: if_splits)
  then have "n * npt < unat (tb_capacity b) * npt + (t1 - t0) + npt"
    using mult_le_mono1 [OF step(1), of npt] by (auto simp: n algebra_simps)
  then have "(n - unat (tb_capacity b) - 1) * npt \<le> t1 - t0"
    by (auto simp: algebra_simps diff_mult_distrib)
  then have "n - unat (tb_capacity b) - 1 \<le> (t1 - t0) div npt"
    using pos by (simp add: less_eq_div_iff_mult_less_eq)
  then show ?thesis
    by (simp add: npt_def)
qed

subsection \<open>Many threads\<close>

inductive_cases thread_stepE: "thread_step s s'"

lemma sum_list_pending_update:
  "t < length ts \<Longrightarrow>
   sum_list (map pending (ts[t := x])) + pending (ts ! t) = sum_list (map pending ts) + pending x"
proof (induction ts arbitrary: t)
  case (Cons a ts)
  then show ?case
    by (cases t) auto
qed simp

lemma Loaded_update:
  "Loaded now lst \<in> set (ts[t := x]) \<Longrightarrow> Loaded now lst \<in> set ts \<or> x = Loaded now lst"
  using set_update_subset_insert [of ts t x] by auto

lemma shared_inv_new: "shared_inv cap (u64_or_max (max iv 1)) (shared_new n cap iv)"
  by (auto simp: shared_inv_def shared_new_def token_bucket_new_def word_less_nat_alt
      unat_u64_or_max sum_list_replicate map_replicate_const)

text \<open>Every step of every thread keeps the account balanced.\<close>

lemma elect_keeps_inv:
  assumes inv: "shared_inv cap npt s" and t: "t < length (threads s)" "threads s ! t = Loaded now lst"
    and e: "earned = earned_at (bucket s) now lst" "0 < earned" and lst: "refilled_to (bucket s) = lst"
  shows "shared_inv cap npt
    (s\<lparr>bucket := (bucket s)\<lparr>refilled_to := lst + earned * nanos_per_token (bucket s)\<rparr>,
      threads := (threads s)[t := Crediting earned]\<rparr>)"
proof -
  have now: "now \<le> clock s"
    using inv t nth_mem [OF t(1)] by (auto simp: shared_inv_def)
  have "lst \<le> now"
    using e by (auto simp: earned_at_def split: if_splits)
  note ref = unat_refilled [OF this, of "bucket s", folded e(1)]
  have sum: "sum_list (map pending ((threads s)[t := Crediting earned])) =
      sum_list (map pending (threads s)) + unat earned"
    using sum_list_pending_update [OF t(1), of "Crediting earned"] t(2) by simp
  have npt: "nanos_per_token (bucket s) = npt"
    using inv by (simp add: shared_inv_def)
  have "lst + earned * npt \<le> clock s"
    using ref(2) now npt by (auto intro: order_trans)
  then show ?thesis
    using inv lst ref(1) npt sum by (auto simp: shared_inv_def algebra_simps dest!: Loaded_update)
qed

lemma add_keeps_inv:
  assumes inv: "shared_inv cap npt s" and t: "t < length (threads s)" "threads s ! t = Crediting earned"
  shows "shared_inv cap npt
    (s\<lparr>bucket := credit earned (bucket s), threads := (threads s)[t := Taking]\<rparr>)"
proof -
  let ?tok = "unat (tokens (credit earned (bucket s)))"
  have sum: "sum_list (map pending ((threads s)[t := Taking])) + unat earned =
      sum_list (map pending (threads s))"
    using sum_list_pending_update [OF t(1), of Taking] t(2) by simp
  have "?tok \<le> unat (tokens (bucket s)) + unat earned" "?tok \<le> unat cap"
    using inv by (simp_all add: unat_credit shared_inv_def)
  then have "granted s + ?tok + sum_list (map pending ((threads s)[t := Taking])) \<le>
      granted s + unat (tokens (bucket s)) + sum_list (map pending (threads s))"
    using sum by simp
  from mult_le_mono1 [OF this, of "unat npt"]
  have "(granted s + ?tok + sum_list (map pending ((threads s)[t := Taking]))) * unat npt \<le>
      unat cap * unat npt + unat (refilled_to (bucket s))"
    using inv unfolding shared_inv_def by (meson order_trans)
  then show ?thesis
    using inv \<open>?tok \<le> unat cap\<close>
    by (auto simp: shared_inv_def word_le_nat_alt dest!: Loaded_update)
qed

lemma thread_step_inv:
  assumes "thread_step s s'" "shared_inv cap npt s"
  shows "shared_inv cap npt s'"
  using assms(1)
proof cases
  case (tick c)
  then show ?thesis
    using assms(2) by (auto simp: shared_inv_def intro: order_trans)
next
  case (load t now lst)
  then show ?thesis
    using assms(2) sum_list_pending_update [of t "threads s" "Loaded now lst"]
    by (auto simp: shared_inv_def dest!: Loaded_update)
next
  case (skip t now lst)
  then show ?thesis
    using assms(2) sum_list_pending_update [of t "threads s" Taking]
    by (auto simp: shared_inv_def dest!: Loaded_update)
next
  case (elect t now lst earned)
  then show ?thesis
    using elect_keeps_inv [OF assms(2)] by blast
next
  case (add t earned)
  then show ?thesis
    using add_keeps_inv [OF assms(2)] by blast
next
  case (acquire t ok b)
  note a = unat_take_token [OF acquire(4)]
  have "tb_capacity b = tb_capacity (bucket s)" "nanos_per_token b = nanos_per_token (bucket s)"
    "refilled_to b = refilled_to (bucket s)" "tokens b \<le> tokens (bucket s)"
    using acquire(4) a(1) by (auto simp: take_token_simps word_le_nat_alt split: if_splits)
  then show ?thesis
    using assms(2) acquire(1-3) a(1) sum_list_pending_update [OF acquire(2), of Idle]
    by (auto simp: shared_inv_def add.assoc [symmetric] dest!: Loaded_update)
qed

lemma reachable_inv:
  "thread_step\<^sup>*\<^sup>* (shared_new n cap iv) s \<Longrightarrow> shared_inv cap (u64_or_max (max iv 1)) s"
  by (induction rule: rtranclp_induct) (rule shared_inv_new, rule thread_step_inv)

section \<open>Properties\<close>

text \<open>
  C12. Rate limit under concurrency: however the atomic steps of any number of threads
  interleave, and however stale their relaxed loads are, the bucket never holds more than
  its capacity and by time \<open>clock\<close> it has granted at most the burst plus one token per
  refill interval.
\<close>

theorem concurrent_rate_limit:
  assumes "thread_step\<^sup>*\<^sup>* (shared_new n cap iv) s"
  shows "tokens (bucket s) \<le> cap \<and>
    granted s \<le> unat cap + unat (clock s) div unat (u64_or_max (max iv 1))"
proof
  define npt where "npt = u64_or_max (max iv 1)"
  have inv: "shared_inv cap npt s"
    using reachable_inv [OF assms] by (simp add: npt_def)
  then show "tokens (bucket s) \<le> cap"
    by (simp add: shared_inv_def)
  have "granted s * unat npt \<le> unat cap * unat npt + unat (refilled_to (bucket s))"
    using inv by (simp add: shared_inv_def algebra_simps)
  also have "\<dots> \<le> unat cap * unat npt + unat (clock s)"
    using inv by (simp add: shared_inv_def word_le_nat_alt)
  finally have "(granted s - unat cap) * unat npt \<le> unat (clock s)"
    by (simp add: diff_mult_distrib)
  moreover have "0 < unat npt"
    using inv by (simp add: shared_inv_def word_less_nat_alt)
  ultimately have "granted s - unat cap \<le> unat (clock s) div unat npt"
    by (simp add: less_eq_div_iff_mult_less_eq)
  then show "granted s \<le> unat cap + unat (clock s) div unat (u64_or_max (max iv 1))"
    unfolding npt_def [symmetric] by linarith
qed

theorem concurrent_rate_limit_witness:
  "\<exists>s. thread_step\<^sup>*\<^sup>* (shared_new 2 1 5) s \<and> granted s = 1 \<and>
    granted s \<le> unat (1::u64) + unat (clock s) div unat (u64_or_max (max 5 1))"
proof -
  let ?s0 = "shared_new 2 1 5"
  let ?s1 = "?s0\<lparr>threads := [Loaded 0 7, Idle]\<rparr>"
  let ?s2 = "?s1\<lparr>threads := [Taking, Idle]\<rparr>"
  let ?s3 = "?s2\<lparr>bucket := (bucket ?s2)\<lparr>tokens := 0\<rparr>, threads := [Idle, Idle], granted := 1\<rparr>"
  have "thread_step ?s0 ?s1"
    using load [of 0 ?s0 0 7] by (simp add: shared_new_def numeral_2_eq_2)
  moreover have "thread_step ?s1 ?s2"
    using skip [of 0 ?s1 0 7] by (simp add: shared_new_def earned_at_def)
  moreover have "thread_step ?s2 ?s3"
    using acquire [of 0 ?s2 True "(bucket ?s2)\<lparr>tokens := 0\<rparr>"]
    by (simp add: shared_new_def token_bucket_new_def take_token_simps)
  ultimately have reach: "thread_step\<^sup>*\<^sup>* ?s0 ?s3"
    by (meson converse_rtranclp_into_rtranclp rtranclp.rtrancl_refl)
  show ?thesis
    using concurrent_rate_limit [OF reach] reach by (intro exI [of _ ?s3]) simp
qed

text \<open>
  In any window of time, a thread's calls take at most the burst, plus one token per
  refill interval of the window, plus one.
\<close>

lemma window_rate_limit:
  assumes "bucket_ok b" "acquire_all ts b = (n, b')"
    and "\<forall>t \<in> set ts. t0 \<le> unat t \<and> unat t \<le> t1" "t0 \<le> t1"
  shows "n \<le> unat (tb_capacity b) + (t1 - t0) div unat (nanos_per_token b) + 1"
  using assms by (rule acquire_all_window)

text \<open>
  C13. On 64-bit words \<open>try_acquire_at\<close> is the ideal bucket on natural numbers, for every
  time that can be passed: no addition or product wraps, the tokens stay within the
  capacity, and the invariant is kept.
\<close>

theorem try_acquire_at_refines:
  assumes "bucket_ok b"
  shows "(\<lambda>(ok, b'). (ok, bucket_abs b')) (try_acquire_at now b) =
      ideal_acquire (unat (tb_capacity b)) (unat (nanos_per_token b)) (unat now) (bucket_abs b) \<and>
    bucket_ok (snd (try_acquire_at now b))"
  using try_acquire_at_ideal [OF assms] by (cases "try_acquire_at now b") simp

theorem try_acquire_at_refines_witness:
  "bucket_ok (token_bucket_new 10 1000000000 0) \<and>
   bucket_ok (snd (try_acquire_at (- 1) (token_bucket_new 10 1000000000 0)))"
  using try_acquire_at_refines [OF token_bucket_new_ok] token_bucket_new_ok by blast

text \<open>
  The limiter does not stay shut: once a whole refill interval has passed since the
  last credit, a bucket of non-zero capacity grants the next call.
\<close>

lemma acquire_after_interval:
  assumes "bucket_ok b" "0 < tb_capacity b"
    and "unat (refilled_to b) + unat (nanos_per_token b) \<le> unat now"
  shows "fst (try_acquire_at now b)"
proof -
  have "unat (nanos_per_token b) \<le> unat now - unat (refilled_to b)" "0 < unat (nanos_per_token b)"
    using assms by (auto simp: bucket_ok_def word_less_nat_alt)
  then have "0 < (unat now - unat (refilled_to b)) div unat (nanos_per_token b)"
    by (simp add: div_greater_zero_iff)
  then have "fst (ideal_acquire (unat (tb_capacity b)) (unat (nanos_per_token b)) (unat now) (bucket_abs b))"
    using assms(2) by (simp add: ideal_acquire_def bucket_abs_def Let_def word_less_nat_alt)
  then show ?thesis
    using try_acquire_at_ideal(1) [OF assms(1)] by (cases "try_acquire_at now b") simp
qed

text \<open>
  The step relation is the code: a thread that runs through its steps without being
  interrupted, with a load that returns the current value, does what \<open>try_acquire_at\<close>
  computes.
\<close>

lemma uninterrupted_thread:
  assumes t: "t < length (threads s)" "threads s ! t = Idle" "now \<le> clock s"
    and r: "try_acquire_at now (bucket s) = (ok, b)"
  shows "thread_step\<^sup>*\<^sup>* s (s\<lparr>bucket := b, granted := granted s + (if ok then 1 else 0)\<rparr>)"
proof -
  define e where "e = earned_at (bucket s) now (refilled_to (bucket s))"
  define b1 where "b1 = (if 0 < e then credit e ((bucket s)\<lparr>refilled_to :=
    refilled_to (bucket s) + e * nanos_per_token (bucket s)\<rparr>) else bucket s)"
  let ?s1 = "s\<lparr>threads := (threads s)[t := Loaded now (refilled_to (bucket s))]\<rparr>"
  let ?s2 = "s\<lparr>bucket := b1, threads := (threads s)[t := Taking]\<rparr>"
  have take: "take_token b1 = (ok, b)"
    using r by (simp only: try_acquire_at_alt e_def b1_def Let_def)
  have "thread_step\<^sup>*\<^sup>* s ?s1"
    using load [OF t] by blast
  also have "thread_step\<^sup>*\<^sup>* ?s1 ?s2"
  proof (cases "0 < e")
    case True
    let ?b = "(bucket s)\<lparr>refilled_to := refilled_to (bucket s) + e * nanos_per_token (bucket s)\<rparr>"
    have "thread_step\<^sup>*\<^sup>* ?s1 (s\<lparr>bucket := ?b, threads := (threads s)[t := Crediting e]\<rparr>)"
      using elect [of t ?s1 now "refilled_to (bucket s)" e] t(1) True
      by (simp add: e_def r_into_rtranclp)
    also have "thread_step\<^sup>*\<^sup>* \<dots> ?s2"
      using add [of t "s\<lparr>bucket := ?b, threads := (threads s)[t := Crediting e]\<rparr>" e] t(1) True
      by (simp add: b1_def r_into_rtranclp)
    finally show ?thesis .
  next
    case False
    then have "e = 0"
      using word_neq_0_conv [of e] by blast
    then have "thread_step ?s1 ?s2"
      using skip [of t ?s1 now "refilled_to (bucket s)"] t(1)
      by (simp add: b1_def flip: e_def)
    then show ?thesis by blast
  qed
  also have "thread_step\<^sup>*\<^sup>* ?s2 (s\<lparr>bucket := b, granted := granted s + (if ok then 1 else 0)\<rparr>)"
    using acquire [of t ?s2 ok b] t(1,2) take list_update_id [of "threads s" t]
    by (simp add: r_into_rtranclp)
  finally show ?thesis .
qed

end
