(* ===== verification/Paths.thy ===== *)
theory Paths
  imports Prelude
begin

text \<open>
  What the gateway uses of \<open>std::path\<close> and of the file system.

  A \<open>Path\<close> is compared, and taken apart, by its components, so a path is a root flag and
  a list of component names (byte strings, as \<open>OsStr\<close> is on Unix). \<open>OsStr::to_str\<close> is
  \<open>from_utf8\<close>. The file system itself is outside the program: the record \<open>file_system\<close>
  holds the answers to the calls the code makes.
\<close>

section \<open>Definitions\<close>

record path =
  p_root :: bool
  p_comps :: "bytes list"

definition dot :: u8 where "dot = 0x2E"

text \<open>\<open>Path::parent\<close>: the path without its final component.\<close>

definition parent :: "path \<Rightarrow> path option" where
  "parent p = (if p_comps p = [] then None else Some (p\<lparr>p_comps := butlast (p_comps p)\<rparr>))"

text \<open>\<open>Path::file_name\<close>: the final component, unless it is \<open>.\<close> or \<open>..\<close>.\<close>

definition file_name :: "path \<Rightarrow> bytes option" where
  "file_name p =
     (if p_comps p = [] \<or> last (p_comps p) \<in> {[dot], [dot, dot]} then None
      else Some (last (p_comps p)))"

text \<open>The text before and after the last dot, if there is one.\<close>

fun rsplit_dot :: "bytes \<Rightarrow> (bytes \<times> bytes) option" where
  "rsplit_dot [] = None"
| "rsplit_dot (b # bs) =
     (case rsplit_dot bs of
        Some (before, after) \<Rightarrow> Some (b # before, after)
      | None \<Rightarrow> if b = dot then Some ([], bs) else None)"

text \<open>A name whose only dot comes first has no extension.\<close>

definition stem_of :: "bytes \<Rightarrow> bytes" where
  "stem_of name =
     (case rsplit_dot name of
        Some (before, _) \<Rightarrow> if before = [] then name else before
      | None \<Rightarrow> name)"

definition ext_of :: "bytes \<Rightarrow> bytes option" where
  "ext_of name =
     (case rsplit_dot name of
        Some (before, after) \<Rightarrow> if before = [] then None else Some after
      | None \<Rightarrow> None)"

definition file_stem :: "path \<Rightarrow> bytes option" where
  "file_stem p = map_option stem_of (file_name p)"

definition extension :: "path \<Rightarrow> bytes option" where
  "extension p = Option.bind (file_name p) ext_of"

text \<open>\<open>dir.join(name)\<close> for a plain name, as \<open>DirEntry::path\<close> builds it.\<close>

definition join :: "path \<Rightarrow> bytes \<Rightarrow> path" where
  "join dir name = dir\<lparr>p_comps := p_comps dir @ [name]\<rparr>"

text \<open>
  \<open>PathBuf::from\<close> on a Unix path: empty pieces and \<open>.\<close> are dropped, except a leading
  \<open>.\<close> of a relative path.
\<close>

definition path_of :: "string \<Rightarrow> path" where
  "path_of str =
     (let bs = as_bytes str; root = (bs \<noteq> [] \<and> hd bs = 0x2F);
          normal = filter (\<lambda>c. c \<noteq> [] \<and> c \<noteq> [dot])
      in \<lparr>p_root = root,
          p_comps =
            (case split_on 0x2F bs of
               [] \<Rightarrow> []
             | c # cs \<Rightarrow> (if c = [dot] then [c] else normal [c]) @ normal cs)\<rparr>)"

datatype io_error = IoError nat | TimedOut | WriteZero

record file_system =
  is_dir :: "path \<Rightarrow> bool"
  read_dir :: "path \<Rightarrow> io_error + (io_error + bytes) list"
  fs_read :: "path \<Rightarrow> io_error + bytes"
  canonicalize :: "path \<Rightarrow> io_error + path"

definition wasm_ext :: bytes where
  "wasm_ext = as_bytes ''wasm''"

text \<open>\<open>path.extension().and_then(|s| s.to_str()) == Some("wasm")\<close>\<close>

definition has_wasm_extension :: "path \<Rightarrow> bool" where
  "has_wasm_extension p \<longleftrightarrow> Option.bind (extension p) from_utf8 = Some ''wasm''"

section \<open>Lemmas\<close>

lemma rsplit_dot_None_iff: "rsplit_dot bs = None \<longleftrightarrow> dot \<notin> set bs"
  by (induction bs) (auto split: option.splits)

lemma rsplit_dot_append [simp]:
  "dot \<notin> set after \<Longrightarrow> rsplit_dot (before @ dot # after) = Some (before, after)"
  using rsplit_dot_None_iff [of after] by (induction before) auto

lemma rsplit_dot_SomeD:
  "rsplit_dot name = Some (before, after) \<Longrightarrow> name = before @ dot # after \<and> dot \<notin> set after"
  by (induction name arbitrary: before)
    (auto simp: rsplit_dot_None_iff split: option.splits if_splits)

text \<open>A name with an extension is its stem, a dot and the extension.\<close>

lemma stem_ext:
  assumes "ext_of name = Some e"
  shows "name = stem_of name @ dot # e" "stem_of name \<noteq> []" "dot \<notin> set e"
  using assms by (auto simp: ext_of_def stem_of_def dest!: rsplit_dot_SomeD split: option.splits if_splits)

lemma stem_of_append: "st \<noteq> [] \<Longrightarrow> dot \<notin> set e \<Longrightarrow> stem_of (st @ dot # e) = st"
  by (simp add: stem_of_def)

lemma ext_of_append: "st \<noteq> [] \<Longrightarrow> dot \<notin> set e \<Longrightarrow> ext_of (st @ dot # e) = Some e"
  by (simp add: ext_of_def)

lemma file_name_join:
  "name \<notin> {[dot], [dot, dot]} \<Longrightarrow> file_name (join dir name) = Some name"
  by (simp add: file_name_def join_def)

lemma parent_join [simp]: "parent (join dir name) = Some dir"
  by (simp add: parent_def join_def)

lemma join_inj [simp]: "join dir a = join dir b \<longleftrightarrow> a = b"
  by (cases dir) (simp add: join_def)

lemma wasm_ext_no_dot: "dot \<notin> set wasm_ext"
  by (simp add: wasm_ext_def as_bytes_def dot_def)

lemma from_utf8_wasm_iff: "from_utf8 bs = Some ''wasm'' \<longleftrightarrow> bs = wasm_ext"
proof -
  have "is_str ''wasm''"
    by (simp add: is_str_def as_bytes_def utf8_step_def utf8_tail_def)
  then show ?thesis
    by (auto simp: wasm_ext_def from_utf8_Some_iff from_utf8_as_bytes)
qed


text \<open>The files a scan looks at: a stem and the extension.\<close>

lemma wasm_file_iff:
  "has_wasm_extension (join dir name) \<longleftrightarrow> (\<exists>st. st \<noteq> [] \<and> name = st @ dot # wasm_ext)"
proof (cases "name \<in> {[dot], [dot, dot]}")
  case True
  then have "file_name (join dir name) = None"
    by (simp add: file_name_def join_def)
  moreover have "name \<noteq> st @ dot # wasm_ext" if "st \<noteq> []" for st
    using True that by (auto simp: wasm_ext_def as_bytes_def Cons_eq_append_conv dot_def)
  ultimately show ?thesis
    by (auto simp: has_wasm_extension_def extension_def)
next
  case False
  then have "has_wasm_extension (join dir name) \<longleftrightarrow> ext_of name = Some wasm_ext"
    by (auto simp: has_wasm_extension_def extension_def file_name_join from_utf8_wasm_iff
        bind_eq_Some_conv)
  then show ?thesis
    using stem_ext [of name wasm_ext] ext_of_append [OF _ wasm_ext_no_dot] by metis
qed

lemma wasm_file_stem:
  assumes "st \<noteq> []"
  shows "file_stem (join dir (st @ dot # wasm_ext)) = Some st"
proof -
  have "st @ dot # wasm_ext \<notin> {[dot], [dot, dot]}"
    using assms by (auto simp: wasm_ext_def as_bytes_def append_eq_Cons_conv)
  then show ?thesis
    using assms by (simp add: file_stem_def file_name_join stem_of_append wasm_ext_no_dot)
qed

end
