(* ===== verification/Metrics.thy ===== *)
theory Metrics
  imports Token_Bucket Paths Wasm_Abi
begin

text \<open>
  The metrics of metrics.rs and the process-wide state the dispatch path touches.

  The counters, gauges and histograms are those of the prometheus-client crate, which is
  not part of the repository. The model keeps the sequence of calls made into it, in
  order, one constructor per family: what a family shows is a function of these calls. A
  duration in seconds is a floating-point number obtained by one conversion; it is kept
  as that conversion of its exact integer argument.

  \<open>world\<close> is the state behind the process-wide statics: the metrics, the log limiter
  (made on first use), the lines logged, and the monotonic clock, a sequence of readings
  consumed one at a time.
\<close>

section \<open>Definitions\<close>

subsection \<open>Labels and families\<close>

record kind_labels = l_kind :: string
record result_labels = l_result :: string
record reason_labels = l_reason :: string
record trigger_labels = l_trigger :: string
record merge_error_labels = me_merge :: string
  me_kind :: string
record request_labels = rq_keyspace :: string
  rq_op :: string
  rq_outcome :: string
record keyspace_op_labels = ko_keyspace :: string
  ko_op :: string
record backend_labels = be_pool :: string
  be_status :: string
record pool_labels = po_pool :: string
record merge_labels = ml_merge :: string

datatype seconds = MicrosToSeconds i64 | NanosToSeconds i64 | DurationSeconds nat

datatype metric_call =
    IncRequests request_labels
  | ObserveRequestDuration keyspace_op_labels seconds
  | IncBackendRequests backend_labels
  | ObserveBackendDuration pool_labels seconds
  | ObserveMergeDuration merge_labels seconds
  | IncMergeErrors merge_error_labels
  | IncConfigReloads result_labels
  | SetConfigPools i64
  | SetConfigKeyspaces i64
  | SetRegistryMerges kind_labels i64
  | IncUdfRescans result_labels
  | IncUdfModuleFailures reason_labels
  | IncReloadSignals trigger_labels

type_synonym metrics = "metric_call list"

text \<open>\<open>i64::try_from(n).unwrap_or(i64::MAX)\<close>\<close>

definition i64_or_max :: "nat \<Rightarrow> i64" where
  "i64_or_max n = (case i64_try_from n of Some w \<Rightarrow> w | None \<Rightarrow> i64_max)"

definition observe_request ::
  "string \<Rightarrow> string \<Rightarrow> string \<Rightarrow> seconds option \<Rightarrow> metrics \<Rightarrow> metrics" where
  "observe_request keyspace op outcome duration m =
     m @ [IncRequests \<lparr>rq_keyspace = keyspace, rq_op = op, rq_outcome = outcome\<rparr>] @
     (case duration of
        None \<Rightarrow> []
      | Some s \<Rightarrow> [ObserveRequestDuration \<lparr>ko_keyspace = keyspace, ko_op = op\<rparr> s])"

definition observe_backend :: "string \<Rightarrow> string \<Rightarrow> seconds option \<Rightarrow> metrics \<Rightarrow> metrics" where
  "observe_backend pool status elapsed m =
     m @ [IncBackendRequests \<lparr>be_pool = pool, be_status = status\<rparr>] @
     (case elapsed of
        None \<Rightarrow> []
      | Some s \<Rightarrow> [ObserveBackendDuration \<lparr>po_pool = pool\<rparr> s])"

definition observe_merge_duration :: "string \<Rightarrow> seconds \<Rightarrow> metrics \<Rightarrow> metrics" where
  "observe_merge_duration merge s m = m @ [ObserveMergeDuration \<lparr>ml_merge = merge\<rparr> s]"

definition config_reload :: "string \<Rightarrow> nat \<Rightarrow> nat \<Rightarrow> metrics \<Rightarrow> metrics" where
  "config_reload result pools keyspaces m =
     m @ [IncConfigReloads \<lparr>l_result = result\<rparr>, SetConfigPools (i64_or_max pools),
          SetConfigKeyspaces (i64_or_max keyspaces)]"

definition set_registry_merges :: "string \<Rightarrow> nat \<Rightarrow> metrics \<Rightarrow> metrics" where
  "set_registry_merges kind n m = m @ [SetRegistryMerges \<lparr>l_kind = kind\<rparr> (i64_or_max n)]"

definition udf_rescan :: "string \<Rightarrow> metrics \<Rightarrow> metrics" where
  "udf_rescan result m = m @ [IncUdfRescans \<lparr>l_result = result\<rparr>]"

definition udf_module_failure :: "string \<Rightarrow> metrics \<Rightarrow> metrics" where
  "udf_module_failure reason m = m @ [IncUdfModuleFailures \<lparr>l_reason = reason\<rparr>]"

definition reload_signal :: "string \<Rightarrow> metrics \<Rightarrow> metrics" where
  "reload_signal trigger m = m @ [IncReloadSignals \<lparr>l_trigger = trigger\<rparr>]"

definition merge_error :: "string \<Rightarrow> string \<Rightarrow> metrics \<Rightarrow> metrics" where
  "merge_error merge kind m = m @ [IncMergeErrors \<lparr>me_merge = merge, me_kind = kind\<rparr>]"

subsection \<open>Registration\<close>

text \<open>\<open>DURATION_BUCKETS\<close> and \<open>MERGE_BUCKETS\<close>, in units of ten microseconds.\<close>

definition DURATION_BUCKETS :: "nat list" where
  "DURATION_BUCKETS =
     [10, 20, 40, 80, 160, 320, 640, 1280, 2560, 5120, 10240, 20480, 40960, 81920, 163840]"

definition MERGE_BUCKETS :: "nat list" where
  "MERGE_BUCKETS = [1, 2, 4, 8, 16, 32, 64, 128, 256, 512, 1024, 2048, 4096, 8192]"

datatype family_kind = CounterFamily | GaugeFamily | HistogramFamily "nat list"

text \<open>\<open>Metrics::new\<close>: the families in the order they are registered.\<close>

definition registered :: "(string \<times> family_kind) list" where
  "registered =
     [(''mcgateway_requests'', CounterFamily),
      (''mcgateway_request_duration_seconds'', HistogramFamily DURATION_BUCKETS),
      (''mcgateway_backend_requests'', CounterFamily),
      (''mcgateway_backend_duration_seconds'', HistogramFamily DURATION_BUCKETS),
      (''mcgateway_merge_duration_seconds'', HistogramFamily MERGE_BUCKETS),
      (''mcgateway_merge_errors'', CounterFamily),
      (''mcgateway_config_reloads'', CounterFamily),
      (''mcgateway_config_pools'', GaugeFamily),
      (''mcgateway_config_keyspaces'', GaugeFamily),
      (''mcgateway_registry_merges'', GaugeFamily),
      (''mcgateway_udf_rescans'', CounterFamily),
      (''mcgateway_udf_module_failures'', CounterFamily),
      (''mcgateway_reload_signals'', CounterFamily)]"

text \<open>The family a call goes to.\<close>

fun family_of :: "metric_call \<Rightarrow> string" where
  "family_of (IncRequests _) = ''mcgateway_requests''"
| "family_of (ObserveRequestDuration _ _) = ''mcgateway_request_duration_seconds''"
| "family_of (IncBackendRequests _) = ''mcgateway_backend_requests''"
| "family_of (ObserveBackendDuration _ _) = ''mcgateway_backend_duration_seconds''"
| "family_of (ObserveMergeDuration _ _) = ''mcgateway_merge_duration_seconds''"
| "family_of (IncMergeErrors _) = ''mcgateway_merge_errors''"
| "family_of (IncConfigReloads _) = ''mcgateway_config_reloads''"
| "family_of (SetConfigPools _) = ''mcgateway_config_pools''"
| "family_of (SetConfigKeyspaces _) = ''mcgateway_config_keyspaces''"
| "family_of (SetRegistryMerges _ _) = ''mcgateway_registry_merges''"
| "family_of (IncUdfRescans _) = ''mcgateway_udf_rescans''"
| "family_of (IncUdfModuleFailures _) = ''mcgateway_udf_module_failures''"
| "family_of (IncReloadSignals _) = ''mcgateway_reload_signals''"

subsection \<open>The process-wide state\<close>

text \<open>The log lines of the crate, by their call site.\<close>

datatype log_event =
    MergeFailed string merge_error_kind wasm_error
  | UdfSkipped path string
  | RescanFailed
  | ReloadRequested string
  | ReloadArmed string
  | MetricsListening string
  | MetricsDisabled

record world =
  w_metrics :: metrics
  w_limiter :: "token_bucket option"
  w_log :: "log_event list"
  w_clock :: "nat \<Rightarrow> nat"
  w_reads :: nat
  w_clock_origin :: "nat option"

definition record_metrics :: "(metrics \<Rightarrow> metrics) \<Rightarrow> world \<Rightarrow> world" where
  "record_metrics f w = w\<lparr>w_metrics := f (w_metrics w)\<rparr>"

definition log_line_out :: "log_event \<Rightarrow> world \<Rightarrow> world" where
  "log_line_out e w = w\<lparr>w_log := w_log w @ [e]\<rparr>"

text \<open>\<open>Instant::now()\<close>\<close>

definition instant_now :: "world \<Rightarrow> nat \<times> world" where
  "instant_now w = (w_clock w (w_reads w), w\<lparr>w_reads := Suc (w_reads w)\<rparr>)"

text \<open>\<open>log_limiter()\<close>: made on first use.\<close>

definition log_limiter :: "world \<Rightarrow> token_bucket \<times> world" where
  "log_limiter w =
     (case w_limiter w of
        Some b \<Rightarrow> (b, w)
      | None \<Rightarrow>
          let (now, w) = instant_now w; b = log_limiter_new now
          in (b, w\<lparr>w_limiter := Some b\<rparr>))"

text \<open>\<open>log_limiter().try_acquire()\<close>\<close>

definition limiter_try_acquire :: "world \<Rightarrow> bool \<times> world" where
  "limiter_try_acquire w =
     (let (b, w) = log_limiter w; (now, w) = instant_now w; (ok, b) = try_acquire now b
      in (ok, w\<lparr>w_limiter := Some b\<rparr>))"

text \<open>A line logged only when the limiter grants it.\<close>

definition log_limited :: "log_event \<Rightarrow> world \<Rightarrow> world" where
  "log_limited e w =
     (let (ok, w) = limiter_try_acquire w in if ok then log_line_out e w else w)"

subsection \<open>The label contract\<close>

text \<open>Labels with a fixed set of values, wherever they are used.\<close>

definition op_labels :: "string set" where
  "op_labels = {''read'', ''write'', ''other''}"

definition outcome_labels :: "string set" where
  "outcome_labels = {''hit'', ''miss'', ''error'', ''stored'', ''negative'', ''other''}"

fun labels_closed :: "metric_call \<Rightarrow> bool" where
  "labels_closed (IncRequests l) \<longleftrightarrow> rq_op l \<in> op_labels \<and> rq_outcome l \<in> outcome_labels"
| "labels_closed (ObserveRequestDuration l _) \<longleftrightarrow> ko_op l \<in> op_labels"
| "labels_closed (IncBackendRequests l) \<longleftrightarrow> be_status l \<in> {''hit'', ''miss'', ''error''}"
| "labels_closed (IncMergeErrors l) \<longleftrightarrow> me_kind l \<in> {''deadline'', ''trap'', ''guest'', ''host''}"
| "labels_closed (IncConfigReloads l) \<longleftrightarrow> l_result l \<in> {''ok'', ''fallback'', ''other''}"
| "labels_closed (SetRegistryMerges l _) \<longleftrightarrow> l_kind l \<in> {''builtin'', ''wasm''}"
| "labels_closed (IncUdfRescans l) \<longleftrightarrow> l_result l \<in> {''ok'', ''error''}"
| "labels_closed (IncUdfModuleFailures l) \<longleftrightarrow>
     l_reason l \<in> {''invalid-name'', ''builtin-collision'', ''load-failed''}"
| "labels_closed (IncReloadSignals l) \<longleftrightarrow> l_trigger l \<in> {''config'', ''udf-swap''}"
| "labels_closed _ \<longleftrightarrow> True"

definition is_failure :: "log_event \<Rightarrow> bool" where
  "is_failure e = (case e of MergeFailed _ _ _ \<Rightarrow> True | _ \<Rightarrow> False)"

definition failure_lines :: "world \<Rightarrow> nat" where
  "failure_lines w = length (filter is_failure (w_log w))"

text \<open>
  The invariant of the process-wide state: labels stay in their sets, and the failure
  lines logged so far are covered by the limiter's account, whose credit never runs ahead
  of the clock.
\<close>

definition limiter_ok :: "nat \<Rightarrow> nat \<Rightarrow> token_bucket \<Rightarrow> bool" where
  "limiter_ok lines now b \<longleftrightarrow> bucket_ok b \<and> tb_capacity b = 10 \<and> nanos_per_token b = 1000000000 \<and>
     (lines + unat (tokens b)) * 1000000000 \<le> 10 * 1000000000 + unat (refilled_to b) \<and>
     unat (refilled_to b) \<le> now - tb_origin b"

definition world_ok :: "world \<Rightarrow> bool" where
  "world_ok w \<longleftrightarrow> mono (w_clock w) \<and> list_all labels_closed (w_metrics w) \<and>
     (case w_limiter w of
        None \<Rightarrow> failure_lines w = 0
      | Some b \<Rightarrow> limiter_ok (failure_lines w) (w_clock w (w_reads w)) b)"

section \<open>Lemmas\<close>

lemma labels_closed_ops:
  "list_all labels_closed (observe_request ks op oc d m) \<longleftrightarrow>
     list_all labels_closed m \<and> op \<in> op_labels \<and> oc \<in> outcome_labels"
  "list_all labels_closed (observe_backend pool st el m) \<longleftrightarrow>
     list_all labels_closed m \<and> st \<in> {''hit'', ''miss'', ''error''}"
  "list_all labels_closed (observe_merge_duration mn s m) \<longleftrightarrow> list_all labels_closed m"
  "list_all labels_closed (config_reload r p k m) \<longleftrightarrow>
     list_all labels_closed m \<and> r \<in> {''ok'', ''fallback'', ''other''}"
  "list_all labels_closed (set_registry_merges kind n m) \<longleftrightarrow>
     list_all labels_closed m \<and> kind \<in> {''builtin'', ''wasm''}"
  "list_all labels_closed (udf_rescan r m) \<longleftrightarrow> list_all labels_closed m \<and> r \<in> {''ok'', ''error''}"
  "list_all labels_closed (udf_module_failure rs m) \<longleftrightarrow>
     list_all labels_closed m \<and> rs \<in> {''invalid-name'', ''builtin-collision'', ''load-failed''}"
  "list_all labels_closed (reload_signal t m) \<longleftrightarrow>
     list_all labels_closed m \<and> t \<in> {''config'', ''udf-swap''}"
  "list_all labels_closed (merge_error mn kind m) \<longleftrightarrow>
     list_all labels_closed m \<and> kind \<in> {''deadline'', ''trap'', ''guest'', ''host''}"
  by (auto simp: observe_request_def observe_backend_def observe_merge_duration_def
      config_reload_def set_registry_merges_def udf_rescan_def udf_module_failure_def
      reload_signal_def merge_error_def split: option.splits)

lemma kind_as_str_closed: "kind_as_str k \<in> {''deadline'', ''trap'', ''guest'', ''host''}"
  by (cases k) auto

lemma limiter_ok_later: "limiter_ok n now b \<Longrightarrow> now \<le> now' \<Longrightarrow> limiter_ok n now' b"
  by (auto simp: limiter_ok_def)

lemma world_ok_record:
  "world_ok w \<Longrightarrow> list_all labels_closed (f (w_metrics w)) \<Longrightarrow> world_ok (record_metrics f w)"
  by (auto simp: world_ok_def record_metrics_def failure_lines_def split: option.splits)

lemma world_ok_log: "world_ok w \<Longrightarrow> \<not> is_failure e \<Longrightarrow> world_ok (log_line_out e w)"
  by (auto simp: world_ok_def log_line_out_def failure_lines_def split: option.splits)

lemma world_ok_instant_now: "world_ok w \<Longrightarrow> instant_now w = (t, w') \<Longrightarrow> world_ok w'"
  using monoD [of "w_clock w" "w_reads w" "Suc (w_reads w)"]
  by (auto simp: world_ok_def instant_now_def failure_lines_def intro: limiter_ok_later
      split: option.splits)

lemma limiter_ok_new: "limiter_ok 0 now (log_limiter_new t)"
  by (simp add: limiter_ok_def log_limiter_new_def token_bucket_new_def bucket_ok_def u64_or_max_def
      u64_try_from_def)

lemma log_limiter_ok:
  assumes "world_ok w" "log_limiter w = (b, w')"
  shows "world_ok w'" "w_limiter w' = Some b" "w_log w' = w_log w" "w_metrics w' = w_metrics w"
proof -
  obtain t w1 where now: "instant_now w = (t, w1)"
    by (cases "instant_now w")
  have w1: "world_ok w1"
    using world_ok_instant_now [OF assms(1) now] .
  show "world_ok w'"
    using assms now w1 limiter_ok_new
    by (auto simp: log_limiter_def world_ok_def instant_now_def failure_lines_def Let_def
        split: option.splits)
  show "w_limiter w' = Some b" "w_log w' = w_log w" "w_metrics w' = w_metrics w"
    using assms(2) now by (auto simp: log_limiter_def instant_now_def Let_def split: option.splits)
qed

lemma limiter_ok_acquire:
  assumes "limiter_ok n now b" "try_acquire t b = (ok, b')" "now \<le> t"
  shows "limiter_ok (n + (if ok then 1 else 0)) t b'"
proof -
  have b: "bucket_ok b" "tb_capacity b = 10" "nanos_per_token b = 1000000000"
    using assms(1) by (simp_all add: limiter_ok_def)
  have acq: "try_acquire_at (u64_or_max (t - tb_origin b)) b = (ok, b')"
    using assms(2) by (simp add: try_acquire_def)
  note bnd = try_acquire_at_bounds [OF b(1) acq] and same = try_acquire_at_ideal(2-4) [OF b(1) acq]
  have "tb_origin b' = tb_origin b"
    using acq by (auto simp: try_acquire_at_def take_token_simps credit_def Let_def split: if_splits)
  moreover have "unat (refilled_to b') \<le> t - tb_origin b"
    using bnd(4) assms(1,3) by (auto simp: limiter_ok_def unat_u64_or_max)
  moreover have "unat (nanos_per_token b) = 1000000000"
    by (simp add: b(3))
  then have "(n + (if ok then 1 else 0) + unat (tokens b')) * 1000000000
      \<le> 10 * 1000000000 + unat (refilled_to b')"
    using bnd(2) assms(1) by (simp add: limiter_ok_def)
  ultimately show ?thesis
    using same b by (simp add: limiter_ok_def)
qed

lemma log_limited_ok:
  assumes "world_ok w" "is_failure e"
  shows "world_ok (log_limited e w)" "w_metrics (log_limited e w) = w_metrics w"
proof -
  obtain b w1 where l: "log_limiter w = (b, w1)"
    by (cases "log_limiter w")
  note w1 = log_limiter_ok [OF assms(1) l]
  obtain ok b' where acq: "try_acquire (w_clock w1 (w_reads w1)) b = (ok, b')"
    by (cases "try_acquire (w_clock w1 (w_reads w1)) b")
  have inv: "limiter_ok (failure_lines w1) (w_clock w1 (w_reads w1)) b"
    and rest: "mono (w_clock w1)" "list_all labels_closed (w_metrics w1)"
    using w1(1,2) by (simp_all add: world_ok_def)
  have "w_clock w1 (w_reads w1) \<le> w_clock w1 (Suc (w_reads w1))"
    using rest(1) by (simp add: monoD)
  then have new: "limiter_ok (failure_lines w1 + (if ok then 1 else 0)) (w_clock w1 (Suc (w_reads w1))) b'"
    using limiter_ok_later [OF limiter_ok_acquire [OF inv acq order_refl]] by simp
  have w': "log_limited e w = (let w2 = w1\<lparr>w_reads := Suc (w_reads w1), w_limiter := Some b'\<rparr>
      in if ok then log_line_out e w2 else w2)"
    using l acq by (simp add: log_limited_def limiter_try_acquire_def instant_now_def Let_def)
  show "world_ok (log_limited e w)"
    using new rest assms(2)
    by (cases ok) (auto simp: w' world_ok_def log_line_out_def failure_lines_def Let_def)
  show "w_metrics (log_limited e w) = w_metrics w"
    using w1(4) by (simp add: w' log_line_out_def Let_def)
qed

section \<open>Properties\<close>

text \<open>
  The exporter's families are registered once each under distinct names, and every call
  the code makes goes to one of them. The latency buckets double from 100 microseconds
  to 1.6384 seconds and the merge buckets from 10 microseconds to 81.92 milliseconds, so
  the merge deadline lies strictly inside the latter.
\<close>

lemma families_registered:
  "distinct (map fst registered) \<and> family_of c \<in> set (map fst registered) \<and>
   DURATION_BUCKETS = map (\<lambda>i. 10 * 2 ^ i) [0..<15] \<and> MERGE_BUCKETS = map (\<lambda>i. 2 ^ i) [0..<14] \<and>
   hd MERGE_BUCKETS < unat DEFAULT_DEADLINE_MS * 100 \<and> unat DEFAULT_DEADLINE_MS * 100 < last MERGE_BUCKETS"
proof (intro conjI)
  show "family_of c \<in> set (map fst registered)"
    by (cases c) (simp_all add: registered_def)
qed (simp_all add: registered_def DURATION_BUCKETS_def MERGE_BUCKETS_def DEFAULT_DEADLINE_MS_def
    upt_rec)

end
