(* ===== verification/Udf_Loader.thy ===== *)
theory Udf_Loader
  imports Registries Metrics Wasm_Host
begin

text \<open>
  udf_loader.rs: where the modules are (\<open>udf_dir\<close>), one scan of the directory
  (\<open>scan_dir\<close>, \<open>load_module\<close>), and the wrapper that counts and logs the failures of a
  loaded module (\<open>ObservedMerge\<close>). The environment, the file system and wasmtime's
  compiler are parameters. The callback \<open>on_problem\<close> is a function on a state of its
  own.
\<close>

section \<open>Definitions\<close>

datatype udf_problem = InvalidName | BuiltinCollision | LoadFailed

fun problem_as_str :: "udf_problem \<Rightarrow> string" where
  "problem_as_str InvalidName = ''invalid-name''"
| "problem_as_str BuiltinCollision = ''builtin-collision''"
| "problem_as_str LoadFailed = ''load-failed''"

definition UDF_DIR_ENV :: string where "UDF_DIR_ENV = ''MCGW_UDF_DIR''"
definition DEFAULT_UDF_DIR :: string where "DEFAULT_UDF_DIR = ''/etc/mcgateway/udf''"

text \<open>The error is the value that is not a directory.\<close>

definition udf_dir :: "(string \<Rightarrow> string option) \<Rightarrow> file_system \<Rightarrow> string + path option" where
  "udf_dir env fs =
     (case env UDF_DIR_ENV of
        Some custom \<Rightarrow>
          let p = path_of custom in
          if is_dir fs p then Inr (Some p) else Inl custom
      | None \<Rightarrow>
          let default = path_of DEFAULT_UDF_DIR in
          Inr (if is_dir fs default then Some default else None))"

datatype udf_error = ReadFailed io_error | CompileFailed wasm_error | FromModuleFailed load_error

definition observed_apply :: "'s wasm_merge \<Rightarrow> entry list \<Rightarrow> world \<Rightarrow> merge_result \<times> world" where
  "observed_apply inner entries w =
     (case wasm_run inner entries of
        Inr r \<Rightarrow> (r, w)
      | Inl e \<Rightarrow>
          let kind = classify e;
              w = record_metrics (merge_error (wm_module_name inner) (kind_as_str kind)) w;
              w = log_limited (MergeFailed (wm_module_name inner) kind e) w
          in (Miss, w))"

definition ObservedMerge :: "'s wasm_merge \<Rightarrow> world merge" where
  "ObservedMerge inner =
     \<lparr>merge_apply = observed_apply inner, merge_flags = default_required_flags\<rparr>"

type_synonym 's compiler = "bytes \<Rightarrow> wasm_error + 's wasm_module"

definition load_module ::
  "'s compiler \<Rightarrow> file_system \<Rightarrow> path \<Rightarrow> string \<Rightarrow> udf_error + world wasm_entry" where
  "load_module compile fs path name =
     and_then (map_err ReadFailed (fs_read fs path)) (\<lambda>bs.
     and_then (map_err CompileFailed (compile bs)) (\<lambda>m.
     and_then (map_err FromModuleFailed (from_module m name)) (\<lambda>merge.
     Inr \<lparr>we_merge = ObservedMerge merge, we_required_flags = wm_required_flags merge\<rparr>)))"

text \<open>The loop over the directory's entries.\<close>

fun scan_entries ::
  "'s compiler \<Rightarrow> file_system \<Rightarrow> world registries \<Rightarrow> path \<Rightarrow> (path \<Rightarrow> udf_problem \<Rightarrow> 'c \<Rightarrow> 'c) \<Rightarrow>
   (io_error + bytes) list \<Rightarrow> world wasm_table \<Rightarrow> 'c \<Rightarrow> (io_error + world wasm_table) \<times> 'c" where
  "scan_entries compile fs regs dir on_problem [] out c = (Inr out, c)"
| "scan_entries compile fs regs dir on_problem (Inl e # es) out c = (Inl e, c)"
| "scan_entries compile fs regs dir on_problem (Inr file # es) out c =
     (let path = join dir file in
      if \<not> has_wasm_extension path then scan_entries compile fs regs dir on_problem es out c
      else
        (case Option.bind (file_stem path) from_utf8 of
           None \<Rightarrow>
             scan_entries compile fs regs dir on_problem es out (on_problem path InvalidName c)
         | Some name \<Rightarrow>
             if registry_has (builtins regs) name then
               scan_entries compile fs regs dir on_problem es out (on_problem path BuiltinCollision c)
             else
               (case load_module compile fs path name of
                  Inr entry \<Rightarrow>
                    scan_entries compile fs regs dir on_problem es (bt_insert name entry out) c
                | Inl err \<Rightarrow>
                    scan_entries compile fs regs dir on_problem es out (on_problem path LoadFailed c))))"

definition scan_dir ::
  "'s compiler \<Rightarrow> file_system \<Rightarrow> world registries \<Rightarrow> path \<Rightarrow> (path \<Rightarrow> udf_problem \<Rightarrow> 'c \<Rightarrow> 'c) \<Rightarrow> 'c \<Rightarrow>
   (io_error + world wasm_table) \<times> 'c" where
  "scan_dir compile fs regs dir on_problem c =
     (case read_dir fs dir of
        Inl e \<Rightarrow> (Inl e, c)
      | Inr es \<Rightarrow> scan_entries compile fs regs dir on_problem es [] c)"

subsection \<open>Specification of a scan\<close>

definition wasm_file :: "string \<Rightarrow> bytes" where
  "wasm_file name = as_bytes name @ dot # wasm_ext"

text \<open>What a directory with these files makes of a name.\<close>

definition module_for ::
  "'s compiler \<Rightarrow> file_system \<Rightarrow> world registries \<Rightarrow> path \<Rightarrow> bytes list \<Rightarrow> string \<Rightarrow>
   world wasm_entry option" where
  "module_for compile fs regs dir files name =
     (if name \<noteq> [] \<and> is_str name \<and> wasm_file name \<in> set files \<and> \<not> registry_has (builtins regs) name
      then (case load_module compile fs (join dir (wasm_file name)) name of
              Inr e \<Rightarrow> Some e | Inl _ \<Rightarrow> None)
      else None)"

text \<open>What is reported about a file.\<close>

definition problem_of ::
  "'s compiler \<Rightarrow> file_system \<Rightarrow> world registries \<Rightarrow> path \<Rightarrow> bytes \<Rightarrow> udf_problem option" where
  "problem_of compile fs regs dir file =
     (if \<not> has_wasm_extension (join dir file) then None
      else (case from_utf8 (stem_of file) of
              None \<Rightarrow> Some InvalidName
            | Some name \<Rightarrow>
                if registry_has (builtins regs) name then Some BuiltinCollision
                else (case load_module compile fs (join dir file) name of
                        Inr _ \<Rightarrow> None | Inl _ \<Rightarrow> Some LoadFailed)))"

text \<open>What the dispatch path needs of every merge it may call.\<close>

definition safe_merge :: "world merge \<Rightarrow> bool" where
  "safe_merge m \<longleftrightarrow> in_range m \<and> (\<forall>es w. world_ok w \<longrightarrow> world_ok (snd (merge_apply m es w)))"

definition safe_table :: "world wasm_table \<Rightarrow> bool" where
  "safe_table t \<longleftrightarrow> bt_ok t \<and> (\<forall>n e. bt_get t n = Some e \<longrightarrow> safe_merge (we_merge e))"

text \<open>Calls of loaded modules, one after the other, with the process-wide state threaded through.\<close>

fun run_calls :: "('s wasm_merge \<times> entry list) list \<Rightarrow> world \<Rightarrow> world" where
  "run_calls [] w = w"
| "run_calls ((inner, es) # cs) w = run_calls cs (snd (observed_apply inner es w))"

definition example_world_registries :: "world registries" where
  "example_world_registries = registries_new registry_new"

section \<open>Lemmas\<close>

lemma problem_as_str_closed:
  "problem_as_str p \<in> {''invalid-name'', ''builtin-collision'', ''load-failed''}"
  by (cases p) auto

lemma observed_apply_result: "fst (observed_apply inner es w) = wasm_apply inner es"
  by (simp add: observed_apply_def wasm_apply_def Let_def split: sum.split)

lemma in_range_ObservedMerge: "in_range (ObservedMerge inner)"
  by (auto simp: in_range_def ObservedMerge_def observed_apply_result wasm_apply_def wasm_run_def
      dest: run_winner_in_range split: sum.splits)

lemma observed_apply_ok: "world_ok w \<Longrightarrow> world_ok (snd (observed_apply inner es w))"
proof (cases "wasm_run inner es")
  case (Inl e)
  assume "world_ok w"
  then have "world_ok (record_metrics (merge_error (wm_module_name inner) (kind_as_str (classify e))) w)"
    using kind_as_str_closed [of "classify e"]
    by (intro world_ok_record) (auto simp: labels_closed_ops world_ok_def)
  then show ?thesis
    using Inl by (simp add: observed_apply_def Let_def log_limited_ok is_failure_def)
qed (simp add: observed_apply_def)

lemma load_module_merge:
  "load_module (compile :: 's compiler) fs path name = Inr e \<Longrightarrow>
   \<exists>inner :: 's wasm_merge. we_merge e = ObservedMerge inner \<and> wm_module_name inner = name \<and>
     we_required_flags e = wm_required_flags inner"
  by (auto simp: load_module_def result_simps dest: from_module_ok(2))

text \<open>The stem of a module's file and the file of a name.\<close>

lemma module_file_cases:
  assumes "has_wasm_extension (join dir file)"
  obtains st where "st \<noteq> []" "file = st @ dot # wasm_ext" "file_stem (join dir file) = Some st"
    "stem_of file = st"
  using assms wasm_file_stem stem_of_append [OF _ wasm_ext_no_dot] by (auto simp: wasm_file_iff)

lemma wasm_file_inj: "wasm_file a = wasm_file b \<longleftrightarrow> a = b"
  by (auto simp: wasm_file_def dest: arg_cong [of _ _ str_of_bytes])

lemma module_for_Cons:
  "module_for compile fs regs dir (file # files) name =
     (if name \<noteq> [] \<and> is_str name \<and> wasm_file name = file \<and> \<not> registry_has (builtins regs) name
      then (case load_module compile fs (join dir file) name of Inr e \<Rightarrow> Some e | Inl _ \<Rightarrow> None)
      else module_for compile fs regs dir files name)"
  by (auto simp: module_for_def)


lemma problem_of_cases:
  assumes "has_wasm_extension (join dir file)"
  shows "Option.bind (file_stem (join dir file)) from_utf8 = from_utf8 (stem_of file)"
    and "from_utf8 (stem_of file) = Some name \<longleftrightarrow> name \<noteq> [] \<and> is_str name \<and> wasm_file name = file"
proof -
  obtain st where st: "st \<noteq> []" "file = st @ dot # wasm_ext" "file_stem (join dir file) = Some st"
    "stem_of file = st"
    using assms by (rule module_file_cases)
  show "Option.bind (file_stem (join dir file)) from_utf8 = from_utf8 (stem_of file)"
    using st by simp
  show "from_utf8 (stem_of file) = Some name \<longleftrightarrow> name \<noteq> [] \<and> is_str name \<and> wasm_file name = file"
    using st(1) unfolding st(2,4) from_utf8_Some_iff wasm_file_def st(4) [unfolded st(2)]
    by (auto simp: as_bytes_def)
qed

lemma module_for_skip:
  assumes "\<not> has_wasm_extension (join dir file)"
  shows "module_for compile fs regs dir (file # files) name = module_for compile fs regs dir files name"
proof -
  have "wasm_file name \<noteq> file" if "name \<noteq> []"
    using assms that by (auto simp: wasm_file_iff wasm_file_def as_bytes_def)
  then show ?thesis
    by (auto simp: module_for_Cons)
qed

lemma module_for_found:
  assumes "has_wasm_extension (join dir fl)" "from_utf8 (stem_of fl) = Some name"
    and "\<not> registry_has (builtins regs) name" "load_module compile fs (join dir fl) name = Inr e"
  shows "module_for compile fs regs dir (fl # files) = (module_for compile fs regs dir files)(name \<mapsto> e)"
proof (rule ext)
  fix n
  have "from_utf8 (stem_of fl) = Some n \<longleftrightarrow> n = name"
    using assms(2) by auto
  then show "module_for compile fs regs dir (fl # files) n =
      ((module_for compile fs regs dir files)(name \<mapsto> e)) n"
    using problem_of_cases(2) [OF assms(1), of n] assms(3,4)
    by (cases "n = name") (auto simp: module_for_Cons)
qed

lemma module_for_same:
  assumes "name \<noteq> []" "is_str name" "wasm_file name = fl" "load_module compile fs (join dir fl) name = Inr e"
  shows "module_for compile fs regs dir files name \<in> {None, Some e}"
  using assms by (simp add: module_for_def)

lemma scan_entries_problem:
  assumes "problem_of compile fs regs dir fl = Some p"
  shows "scan_entries compile fs regs dir on_problem (Inr fl # es) out c =
    scan_entries compile fs regs dir on_problem es out (on_problem (join dir fl) p c)"
proof -
  have ext: "has_wasm_extension (join dir fl)"
    using assms by (auto simp: problem_of_def split: if_splits)
  show ?thesis
    using assms ext problem_of_cases(1) [OF ext]
    by (auto simp: problem_of_def Let_def split: if_splits option.splits sum.splits)
qed

text \<open>The loop finds the modules and reports the others, whatever the order of the files.\<close>

lemma scan_entries_spec:
  "bt_ok out \<Longrightarrow>
   \<exists>table. scan_entries compile fs regs dir on_problem (map Inr files) out c =
     (Inr table, fold (\<lambda>file. case problem_of compile fs regs dir file of
        None \<Rightarrow> id | Some p \<Rightarrow> on_problem (join dir file) p) files c) \<and>
   bt_ok table \<and> bt_get table = bt_get out ++ module_for compile fs regs dir files"
proof (induction files arbitrary: out c)
  case Nil
  have "module_for compile fs regs dir [] = Map.empty"
    by (simp add: module_for_def fun_eq_iff)
  with Nil show ?case by simp
next
  case (Cons fl files)
  let ?path = "join dir fl"
  show ?case
  proof (cases "has_wasm_extension ?path")
    case False
    then have "module_for compile fs regs dir (fl # files) = module_for compile fs regs dir files"
      by (simp add: fun_eq_iff module_for_skip)
    then show ?thesis
      using Cons.IH [OF Cons.prems, of c] False by (simp add: problem_of_def Let_def)
  next
    case True
    note stem = problem_of_cases [OF True]
    show ?thesis
    proof (cases "\<exists>name e. from_utf8 (stem_of fl) = Some name \<and>
        \<not> registry_has (builtins regs) name \<and> load_module compile fs ?path name = Inr e")
      case found: True
      then obtain name e where name: "from_utf8 (stem_of fl) = Some name"
        "\<not> registry_has (builtins regs) name" "load_module compile fs ?path name = Inr e"
        by blast
      have "module_for compile fs regs dir files name \<in> {None, Some e}"
        using stem(2) [of name] name(1,3) by (intro module_for_same) auto
      then have "bt_get out ++ module_for compile fs regs dir (fl # files) =
          bt_get (bt_insert name e out) ++ module_for compile fs regs dir files"
        using module_for_found [OF True name, of files] Cons.prems
        by (auto simp: fun_eq_iff bt.get_insert map_add_def split: option.splits)
      then show ?thesis
        using Cons.IH [OF bt.ok_insert [OF Cons.prems], of name e c] name stem(1) True
        by (simp add: problem_of_def Let_def)
    next
      case lost: False
      then have "problem_of compile fs regs dir fl \<noteq> None"
        using True by (auto simp: problem_of_def split: option.splits sum.splits)
      then obtain p where p: "problem_of compile fs regs dir fl = Some p"
        by blast
      have "module_for compile fs regs dir (fl # files) name = module_for compile fs regs dir files name"
        for name
        using lost stem(2) [of name] by (auto simp: module_for_def split: sum.splits)
      then have "module_for compile fs regs dir (fl # files) = module_for compile fs regs dir files"
        by blast
      then show ?thesis
        using Cons.IH [OF Cons.prems, of "on_problem ?path p c"] p
          scan_entries_problem [OF p, of on_problem "map Inr files" out c]
        by (simp del: scan_entries.simps)
    qed
  qed
qed

lemma scan_dir_ok:
  assumes "read_dir fs dir = Inr (map Inr files)"
  shows "\<exists>table. scan_dir compile fs regs dir on_problem c =
      (Inr table, fold (\<lambda>fl. case problem_of compile fs regs dir fl of
         None \<Rightarrow> id | Some p \<Rightarrow> on_problem (join dir fl) p) files c) \<and>
    bt_ok table \<and> bt_get table = module_for compile fs regs dir files"
  using scan_entries_spec [of "[]" compile fs regs dir on_problem files c] assms
  by (simp add: scan_dir_def bt.ok_empty bt_get_eq)

text \<open>Whatever the directory holds, a table that is published is well formed and safe.\<close>

lemma scan_entries_step:
  assumes "scan_entries compile fs regs dir on_problem (x # es) out c = (Inr table, c')"
  shows "\<exists>out' c1. scan_entries compile fs regs dir on_problem es out' c1 = (Inr table, c') \<and>
    (out' = out \<or> (\<exists>path name e. out' = bt_insert name e out \<and> load_module compile fs path name = Inr e))"
  using assms by (cases x) (auto simp: Let_def split: if_splits option.splits sum.splits)

lemma load_module_safe: "load_module compile fs path name = Inr e \<Longrightarrow> safe_merge (we_merge e)"
  by (auto simp: load_module_def result_simps safe_merge_def in_range_ObservedMerge)
    (simp add: ObservedMerge_def observed_apply_ok)

lemma scan_entries_safe:
  "scan_entries compile fs regs dir on_problem es out c = (Inr table, c') \<Longrightarrow> safe_table out \<Longrightarrow>
   safe_table table"
proof (induction es arbitrary: out c)
  case Nil
  then show ?case by simp
next
  case (Cons x es)
  have "safe_table (bt_insert name e out)" if "load_module compile fs path name = Inr e" for path name e
    using that Cons.prems(2) by (auto simp: safe_table_def bt.ok_insert bt.get_insert load_module_safe)
  then show ?case
    using scan_entries_step [OF Cons.prems(1)] Cons.IH Cons.prems(2) by blast
qed

lemma safe_table_empty: "safe_table []"
  by (simp add: safe_table_def bt.ok_empty bt.get_empty)

lemma scan_dir_safe:
  "scan_dir compile fs regs dir on_problem c = (Inr table, c') \<Longrightarrow> safe_table table"
  by (auto simp: scan_dir_def split: sum.splits intro: scan_entries_safe safe_table_empty)

subsection \<open>A sequence of merge calls\<close>

lemma observed_apply_metrics:
  "w_metrics (snd (observed_apply inner es w)) = w_metrics w @
     (case wasm_run inner es of Inr _ \<Rightarrow> []
      | Inl e \<Rightarrow> [IncMergeErrors \<lparr>me_merge = wm_module_name inner, me_kind = kind_as_str (classify e)\<rparr>])"
proof -
  have "w_metrics (log_limited e w) = w_metrics w" for e w
    by (auto simp: log_limited_def limiter_try_acquire_def log_limiter_def instant_now_def
        log_line_out_def Let_def split: prod.splits option.splits)
  then show ?thesis
    by (simp add: observed_apply_def Let_def record_metrics_def merge_error_def split: sum.split)
qed

lemma run_calls_ok: "world_ok w \<Longrightarrow> world_ok (run_calls cs w)"
  by (induction cs arbitrary: w) (auto simp: observed_apply_ok)

lemma run_calls_metrics:
  "w_metrics (run_calls cs w) = w_metrics w @
     concat (map (\<lambda>(inner, es). case wasm_run inner es of Inr _ \<Rightarrow> []
       | Inl e \<Rightarrow> [IncMergeErrors \<lparr>me_merge = wm_module_name inner,
           me_kind = kind_as_str (classify e)\<rparr>]) cs)"
  by (induction cs arbitrary: w) (auto simp: observed_apply_metrics)

section \<open>Properties\<close>

text \<open>
  C14. A scan of a readable directory never fails, and the table it publishes is determined
  by the files alone: a name resolves exactly when the directory has a file
  \<open>name.wasm\<close> that loads and the name is not that of a built-in. One broken file never
  hides another, and each skipped file is reported once with its reason, in the order of
  the listing.
\<close>

theorem scan_dir_spec:
  assumes "read_dir fs dir = Inr (map Inr files)"
  shows "\<exists>table. scan_dir compile fs regs dir on_problem c =
      (Inr table, fold (\<lambda>fl. case problem_of compile fs regs dir fl of
         None \<Rightarrow> id | Some p \<Rightarrow> on_problem (join dir fl) p) files c) \<and>
    bt_ok table \<and> bt_get table = module_for compile fs regs dir files"
  using assms by (rule scan_dir_ok)

theorem scan_dir_spec_witness:
  "\<exists>table. fst (scan_dir (\<lambda>bs. if bs = [1] then Inr (stub_module 0) else Inl (ErrRuntime 0))
      \<lparr>is_dir = (\<lambda>_. True), read_dir = (\<lambda>_. Inr (map Inr [wasm_file ''b'', wasm_file ''a'', [97]])),
       fs_read = (\<lambda>p. Inr (if p = join \<lparr>p_root = True, p_comps = []\<rparr> (wasm_file ''a'') then [1] else [2])),
       canonicalize = Inr\<rparr> example_world_registries \<lparr>p_root = True, p_comps = []\<rparr> (\<lambda>_ _ n. Suc n) 0) =
      Inr table \<and> bt_get table ''a'' \<noteq> None \<and> bt_get table ''b'' = None"
proof -
  let ?dir = "\<lparr>p_root = True, p_comps = []\<rparr>"
  let ?compile = "\<lambda>bs. if bs = [1] then Inr (stub_module 0) else Inl (ErrRuntime 0)"
  let ?fs = "\<lparr>is_dir = (\<lambda>_. True), read_dir = (\<lambda>_. Inr (map Inr [wasm_file ''b'', wasm_file ''a'', [97]])),
    fs_read = (\<lambda>p. Inr (if p = join ?dir (wasm_file ''a'') then [1] else [2])), canonicalize = Inr\<rparr>"
  have read: "read_dir ?fs ?dir = Inr (map Inr [wasm_file ''b'', wasm_file ''a'', [97]])"
    by simp
  obtain table where table: "fst (scan_dir ?compile ?fs example_world_registries ?dir (\<lambda>_ _ n. Suc n) 0) = Inr table"
    "bt_get table = module_for ?compile ?fs example_world_registries ?dir
      [wasm_file ''b'', wasm_file ''a'', [97]]"
    using scan_dir_spec [OF read, of ?compile example_world_registries "\<lambda>_ _ n. Suc n" 0] by auto
  have str: "is_str ''a''" "is_str ''b''"
    by (simp_all add: is_str_def as_bytes_def utf8_step_def utf8_tail_def)
  have load: "from_module (stub_module 0) ''a'' = Inr \<lparr>wm_module_name = ''a'', wm_required_flags = [],
      wm_deadline_ticks = 25, wm_pre = stub_module 0\<rparr>"
    by (simp add: from_module_def stub_module_def read_required_flags_def result_simps and_then_def
        ok_or_def map_err_def Let_def ABI_VERSION_def default_deadline_ticks_value)
  have "bt_get table ''a'' \<noteq> None \<and> bt_get table ''b'' = None"
    using str load
    by (simp add: table(2) module_for_def load_module_def example_world_registries_def
        registries_new_def registry_has_iff wasm_file_inj map_err_def)
  with table(1) show ?thesis
    by blast
qed

text \<open>
  C15. The wrapper does not change what a module answers: it answers as the bare module
  does, every error as a miss. Each failed call adds exactly one to the error counter of
  that module and kind, and a successful call records nothing.
\<close>

theorem observed_merge_transparent:
  "fst (merge_apply (ObservedMerge inner) es w) = wasm_apply inner es \<and>
   w_metrics (snd (merge_apply (ObservedMerge inner) es w)) = w_metrics w @
     (case wasm_run inner es of Inr _ \<Rightarrow> []
      | Inl e \<Rightarrow> [IncMergeErrors \<lparr>me_merge = wm_module_name inner, me_kind = kind_as_str (classify e)\<rparr>])"
  by (simp add: ObservedMerge_def observed_apply_result observed_apply_metrics)

text \<open>
  C16. A module that fails on every request does not flood the log. Over any sequence of
  calls of any modules, the lines logged about failures are at most ten plus one for every
  second since the limiter was made, while the error counters have counted every failure.
\<close>

theorem failure_log_bounded:
  assumes "world_ok w0" "w_limiter (run_calls cs w0) = Some b"
  shows "failure_lines (run_calls cs w0) \<le>
      10 + (w_clock (run_calls cs w0) (w_reads (run_calls cs w0)) - tb_origin b) div 1000000000 \<and>
    w_metrics (run_calls cs w0) = w_metrics w0 @
      concat (map (\<lambda>(inner, es). case wasm_run inner es of Inr _ \<Rightarrow> []
        | Inl e \<Rightarrow> [IncMergeErrors \<lparr>me_merge = wm_module_name inner,
            me_kind = kind_as_str (classify e)\<rparr>]) cs)"
proof
  let ?w = "run_calls cs w0"
  have "limiter_ok (failure_lines ?w) (w_clock ?w (w_reads ?w)) b"
    using run_calls_ok [OF assms(1), of cs] assms(2) by (simp add: world_ok_def)
  then have "failure_lines ?w * 1000000000 \<le>
      10 * 1000000000 + (w_clock ?w (w_reads ?w) - tb_origin b)"
    by (auto simp: limiter_ok_def)
  then show "failure_lines ?w \<le> 10 + (w_clock ?w (w_reads ?w) - tb_origin b) div 1000000000"
    by linarith
qed (rule run_calls_metrics)

theorem failure_log_bounded_witness:
  defines "inner \<equiv> \<lparr>wm_module_name = ''m'', wm_required_flags = [], wm_deadline_ticks = 25,
      wm_pre = stub_module 0xFF\<rparr>"
    and "w0 \<equiv> \<lparr>w_metrics = [], w_limiter = None, w_log = [], w_clock = (\<lambda>i. 1000 * i), w_reads = 0,
      w_clock_origin = None\<rparr>"
  shows "failure_lines (run_calls [(inner, [])] w0) = 1 \<and>
    length (w_metrics (run_calls [(inner, [])] w0)) = 1"
proof -
  have run: "wasm_run inner [] = Inl (ErrGuest 0)"
    by (simp add: inner_def wasm_run_def run_with_pre_def stub_module_def encoded_entries_write_def
        checked_mul_u32_def u32_try_from_def decode_result_def write_mem_def and_then_def ok_or_def
        Let_def abi_constants)
  have ok: "world_ok w0"
    by (simp add: w0_def world_ok_def failure_lines_def mono_def)
  have "run_calls [(inner, [])] w0 =
      log_limited (MergeFailed ''m'' KGuest (ErrGuest 0))
        (record_metrics (merge_error ''m'' ''guest'') w0)"
    using run by (simp add: observed_apply_def inner_def)
  also have "\<dots> = w0\<lparr>w_metrics := [IncMergeErrors \<lparr>me_merge = ''m'', me_kind = ''guest''\<rparr>],
      w_limiter := Some ((log_limiter_new 0)\<lparr>tokens := 9\<rparr>),
      w_log := [MergeFailed ''m'' KGuest (ErrGuest 0)], w_reads := 2\<rparr>"
    by (simp add: w0_def record_metrics_def merge_error_def log_limited_def limiter_try_acquire_def
        log_limiter_def instant_now_def log_limiter_new_def token_bucket_new_def try_acquire_def
        try_acquire_at_def take_token_simps u64_or_max_def u64_try_from_def log_line_out_def Let_def)
  finally have w: "run_calls [(inner, [])] w0 = \<dots>" .
  then have lim: "w_limiter (run_calls [(inner, [])] w0) = Some ((log_limiter_new 0)\<lparr>tokens := 9\<rparr>)"
    by simp
  show ?thesis
  proof
    show "failure_lines (run_calls [(inner, [])] w0) = 1"
      unfolding w by (simp add: failure_lines_def is_failure_def)
    show "length (w_metrics (run_calls [(inner, [])] w0)) = 1"
      using conjunct2 [OF failure_log_bounded [OF ok lim]] run
      by (simp add: w0_def del: run_calls.simps)
  qed
qed

end
