(* ===== verification/Native.thy ===== *)
theory Native
  imports Udf_Loader
begin

text \<open>
  The functions \<open>mcgateway_native\<close> exports to Lua, lib.rs of mcgateway-clib: projecting the
  entries table, dispatching to the registries, recording the read metrics, and the
  small exports around them.

  Access to Lua values goes through the mlua crate, which is not part of the repository:
  the record \<open>lua_api\<close> holds its answers, on tables of a type \<open>'t\<close>. An exported function
  takes the registries with the table in force and threads the process-wide \<open>world\<close>.
\<close>

section \<open>Definitions\<close>

subsection \<open>The Lua interface\<close>

datatype lua_error =
    InvalidStatus string
  | MergeNameNotUtf8
  | UnknownMerge string
  | WinnerOverflow
  | StringNotUtf8
  | LuaFailure nat

text \<open>
  Length and fields of a table, converted to the type the caller asks for, and the
  creation of values, which may run out of memory.
\<close>

record 't lua_api =
  raw_len :: "'t \<Rightarrow> nat"
  get_table :: "'t \<Rightarrow> nat \<Rightarrow> lua_error + 't"
  get_str :: "'t \<Rightarrow> string \<Rightarrow> lua_error + bytes"
  get_opt_str :: "'t \<Rightarrow> string \<Rightarrow> lua_error + bytes option"
  get_opt_i64 :: "'t \<Rightarrow> string \<Rightarrow> lua_error + i64 option"
  create_string :: "bytes \<Rightarrow> lua_error + unit"
  create_table :: "lua_error + unit"
  raw_set :: "nat \<Rightarrow> string \<Rightarrow> lua_error + unit"

datatype lua_value = LuaInteger i64 | LuaString bytes | LuaNil | LuaBoolean bool | LuaTable "string list"

subsection \<open>Clock and labels\<close>

definition clock_origin :: "world \<Rightarrow> nat \<times> world" where
  "clock_origin w =
     (case w_clock_origin w of
        Some origin \<Rightarrow> (origin, w)
      | None \<Rightarrow> let (now, w) = instant_now w in (now, w\<lparr>w_clock_origin := Some now\<rparr>))"

definition now_nanos :: "world \<Rightarrow> i64 \<times> world" where
  "now_nanos w =
     (let (origin, w) = clock_origin w; (now, w) = instant_now w in (i64_or_max (now - origin), w))"

text \<open>The conversions to seconds are the constructors of \<open>seconds\<close>.\<close>

definition duration_since :: "i64 option \<Rightarrow> world \<Rightarrow> seconds option \<times> world" where
  "duration_since start w =
     (case start of
        None \<Rightarrow> (None, w)
      | Some s \<Rightarrow>
          let (now, w) = now_nanos w
          in (Some (NanosToSeconds (max_i64 (saturating_sub_i64 now s) 0)), w))"

fun status_label :: "status \<Rightarrow> string" where
  "status_label StHit = ''hit''"
| "status_label StMiss = ''miss''"
| "status_label StError = ''error''"

definition op_label :: "string \<Rightarrow> string" where
  "op_label s = (if s = ''read'' then ''read'' else if s = ''write'' then ''write'' else ''other'')"

definition outcome_label :: "string \<Rightarrow> string" where
  "outcome_label s =
     (if s = ''hit'' then ''hit''
      else if s = ''miss'' then ''miss''
      else if s = ''error'' then ''error''
      else if s = ''stored'' then ''stored''
      else if s = ''negative'' then ''negative''
      else ''other'')"

definition reload_label :: "string \<Rightarrow> string" where
  "reload_label s = (if s = ''ok'' then ''ok'' else if s = ''fallback'' then ''fallback'' else ''other'')"

definition parse_status :: "bytes \<Rightarrow> lua_error + status" where
  "parse_status s =
     (if s = as_bytes ''hit'' then Inr StHit
      else if s = as_bytes ''miss'' then Inr StMiss
      else if s = as_bytes ''error'' then Inr StError
      else Inl (InvalidStatus (from_utf8_lossy s)))"

subsection \<open>Projection\<close>

record owned_entry =
  o_key :: bytes
  o_pool :: string
  o_status :: status
  o_t :: "i64 option"
  o_value :: "bytes option"
  o_line :: "bytes option"
  o_elapsed :: "i64 option"

definition project_entry :: "'t lua_api \<Rightarrow> 't \<Rightarrow> lua_error + owned_entry" where
  "project_entry api e =
     and_then (get_str api e ''key'') (\<lambda>key.
     and_then (get_str api e ''pool'') (\<lambda>pool.
     and_then (get_str api e ''status'') (\<lambda>status.
     and_then (get_opt_i64 api e ''t'') (\<lambda>t.
     and_then (get_opt_str api e ''value'') (\<lambda>value.
     and_then (get_opt_str api e ''line'') (\<lambda>line.
     and_then (get_opt_i64 api e ''elapsed'') (\<lambda>elapsed.
     and_then (ok_or StringNotUtf8 (from_utf8 pool)) (\<lambda>pool.
     and_then (parse_status status) (\<lambda>status.
       Inr \<lparr>o_key = key, o_pool = pool, o_status = status, o_t = t, o_value = value, o_line = line,
            o_elapsed = elapsed\<rparr>)))))))))"

fun project_from :: "'t lua_api \<Rightarrow> 't \<Rightarrow> nat list \<Rightarrow> owned_entry list \<Rightarrow> lua_error + owned_entry list" where
  "project_from api entries [] out = Inr out"
| "project_from api entries (i # is) out =
     and_then (get_table api entries i) (\<lambda>e.
     and_then (project_entry api e) (\<lambda>o_entry.
     project_from api entries is (out @ [o_entry])))"

definition project :: "'t lua_api \<Rightarrow> 't \<Rightarrow> lua_error + owned_entry list" where
  "project api entries = project_from api entries [1..<Suc (raw_len api entries)] []"

definition as_view :: "owned_entry \<Rightarrow> entry" where
  "as_view e =
     \<lparr>e_key = o_key e, e_pool = o_pool e, e_status = o_status e, e_t = o_t e, e_value = o_value e,
      e_line = o_line e\<rparr>"

definition as_views :: "owned_entry list \<Rightarrow> entry list" where
  "as_views owned = map as_view owned"

subsection \<open>The read metrics\<close>

definition no_winner :: "owned_entry list \<Rightarrow> string" where
  "no_winner owned = (if list_ex (\<lambda>e. o_status e = StMiss) owned then ''miss'' else ''error'')"

definition read_outcome :: "merge_result \<Rightarrow> owned_entry list \<Rightarrow> string" where
  "read_outcome result owned =
     (case result of
        Synthesized _ \<Rightarrow> ''hit''
      | Winner i \<Rightarrow> if i < length owned then status_label (o_status (owned ! i)) else no_winner owned
      | Miss \<Rightarrow> no_winner owned)"

fun observe_backends :: "owned_entry list \<Rightarrow> metrics \<Rightarrow> metrics" where
  "observe_backends [] m = m"
| "observe_backends (e # es) m =
     observe_backends es
       (observe_backend (o_pool e) (status_label (o_status e)) (map_option MicrosToSeconds (o_elapsed e)) m)"

text \<open>\<open>ok().flatten()\<close>\<close>

definition flat_ok :: "'e + 'a option \<Rightarrow> 'a option" where
  "flat_ok r = (case r of Inl _ \<Rightarrow> None | Inr v \<Rightarrow> v)"

definition observe_read_dispatch ::
  "'t lua_api \<Rightarrow> string \<Rightarrow> seconds \<Rightarrow> owned_entry list \<Rightarrow> merge_result \<Rightarrow> 't option \<Rightarrow> world \<Rightarrow> world" where
  "observe_read_dispatch api merge_name merge_seconds owned result opts w =
     (let w = record_metrics (observe_merge_duration merge_name merge_seconds) w;
          w = record_metrics (observe_backends owned) w
      in case opts of
           None \<Rightarrow> w
         | Some opts \<Rightarrow>
             let prefix = flat_ok (get_opt_str api opts ''prefix'');
                 start = flat_ok (get_opt_i64 api opts ''start'')
             in case prefix of
                  None \<Rightarrow> w
                | Some prefix \<Rightarrow>
                    let (duration, w) = duration_since start w
                    in record_metrics
                         (observe_request (from_utf8_lossy prefix) ''read'' (read_outcome result owned) duration) w)"

subsection \<open>The exports\<close>

definition name_str :: "bytes \<Rightarrow> lua_error + string" where
  "name_str name = ok_or MergeNameNotUtf8 (from_utf8 name)"

definition reply_of :: "'t lua_api \<Rightarrow> merge_result \<Rightarrow> lua_error + lua_value" where
  "reply_of api result =
     (case result of
        Winner i \<Rightarrow> and_then (ok_or WinnerOverflow (i64_try_from (i + 1))) (\<lambda>n. Inr (LuaInteger n))
      | Synthesized bs \<Rightarrow> and_then (create_string api bs) (\<lambda>_. Inr (LuaString bs))
      | Miss \<Rightarrow> Inr LuaNil)"

definition native_merge ::
  "'t lua_api \<Rightarrow> world registries \<Rightarrow> bytes \<Rightarrow> 't \<Rightarrow> 't option \<Rightarrow> world \<Rightarrow> (lua_error + lua_value) \<times> world" where
  "native_merge api regs name entries opts w =
     (case and_then (name_str name) (\<lambda>name. and_then (project api entries) (\<lambda>owned. Inr (name, owned))) of
        Inl e \<Rightarrow> (Inl e, w)
      | Inr (name, owned) \<Rightarrow>
          let (merge_started, w) = instant_now w in
          (case registries_apply regs name (as_views owned) w of
             None \<Rightarrow> (Inl (UnknownMerge name), w)
           | Some (result, w) \<Rightarrow>
               let (now, w) = instant_now w;
                   w = observe_read_dispatch api name (DurationSeconds (now - merge_started)) owned result opts w
               in (reply_of api result, w)))"

definition native_now :: "world \<Rightarrow> lua_value \<times> world" where
  "native_now w = (let (n, w) = now_nanos w in (LuaInteger n, w))"

definition native_observe :: "bytes \<Rightarrow> bytes \<Rightarrow> bytes \<Rightarrow> i64 option \<Rightarrow> world \<Rightarrow> world" where
  "native_observe prefix op outcome start w =
     (let (duration, w) = duration_since start w
      in record_metrics
           (observe_request (from_utf8_lossy prefix) (op_label (from_utf8_lossy op))
             (outcome_label (from_utf8_lossy outcome)) duration) w)"

definition native_observe_reload :: "bytes \<Rightarrow> nat \<Rightarrow> nat \<Rightarrow> world \<Rightarrow> world" where
  "native_observe_reload result pools keyspaces w =
     record_metrics (config_reload (reload_label (from_utf8_lossy result)) pools keyspaces) w"

definition native_has_merge :: "world registries \<Rightarrow> bytes \<Rightarrow> bool" where
  "native_has_merge regs name =
     registries_has regs (case from_utf8 name of Some s \<Rightarrow> s | None \<Rightarrow> '''')"

definition native_required_flags :: "world registries \<Rightarrow> bytes \<Rightarrow> lua_error + string" where
  "native_required_flags regs name =
     and_then (name_str name) (\<lambda>name. ok_or (UnknownMerge name) (registries_required_flags regs name))"

fun set_names :: "'t lua_api \<Rightarrow> nat \<Rightarrow> string list \<Rightarrow> string list \<Rightarrow> lua_error + string list" where
  "set_names api i [] tbl = Inr tbl"
| "set_names api i (n # ns) tbl = and_then (raw_set api (i + 1) n) (\<lambda>_. set_names api (i + 1) ns (tbl @ [n]))"

definition native_names :: "'t lua_api \<Rightarrow> world registries \<Rightarrow> lua_error + string list" where
  "native_names api regs = and_then (create_table api) (\<lambda>_. set_names api 0 (registries_names regs) [])"

text \<open>The registries a process starts with: the built-ins and no module.\<close>

definition builtin_registries :: "world registries" where
  "builtin_registries = registries_new (register registry_new)"

subsection \<open>What the exports rely on\<close>

text \<open>Every merge the registries may dispatch to is safe.\<close>

definition safe_registries :: "world registries \<Rightarrow> bool" where
  "safe_registries r \<longleftrightarrow> registries_ok r \<and>
     (\<forall>n m. registry_get (builtins r) n = Some m \<longrightarrow> safe_merge m) \<and> safe_table (wasm r)"

text \<open>The metric calls of one entry and of the request.\<close>

definition backend_calls :: "owned_entry \<Rightarrow> metrics" where
  "backend_calls e =
     observe_backend (o_pool e) (status_label (o_status e)) (map_option MicrosToSeconds (o_elapsed e)) []"

subsection \<open>Plain tables\<close>

text \<open>Tables as data, with the answers mlua gives for them: a sequence, or named fields.\<close>

datatype lua_data = Sequence "lua_data list" | Fields "(string \<times> bytes) list" "(string \<times> i64) list"

fun elements :: "lua_data \<Rightarrow> lua_data list" where
  "elements (Sequence ts) = ts"
| "elements (Fields _ _) = []"

fun str_field :: "lua_data \<Rightarrow> string \<Rightarrow> bytes option" where
  "str_field (Fields ss _) k = map_of ss k"
| "str_field (Sequence _) k = None"

fun int_field :: "lua_data \<Rightarrow> string \<Rightarrow> i64 option" where
  "int_field (Fields _ is) k = map_of is k"
| "int_field (Sequence _) k = None"

definition plain_api :: "lua_data lua_api" where
  "plain_api =
     \<lparr>raw_len = (\<lambda>t. length (elements t)),
      get_table = (\<lambda>t i. if 1 \<le> i \<and> i \<le> length (elements t) then Inr (elements t ! (i - 1)) else Inl (LuaFailure 0)),
      get_str = (\<lambda>t k. ok_or (LuaFailure 1) (str_field t k)),
      get_opt_str = (\<lambda>t k. Inr (str_field t k)),
      get_opt_i64 = (\<lambda>t k. Inr (int_field t k)),
      create_string = (\<lambda>_. Inr ()), create_table = Inr (), raw_set = (\<lambda>_ _. Inr ())\<rparr>"

text \<open>A miss and a hit, as Lua passes them, and the options of the read handler.\<close>

definition example_table :: lua_data where
  "example_table = Sequence
     [Fields [(''key'', [0x6B]), (''pool'', as_bytes ''a''), (''status'', as_bytes ''miss'')] [],
      Fields [(''key'', [0x6B]), (''pool'', as_bytes ''b''), (''status'', as_bytes ''hit''), (''value'', [1, 2])]
        [(''elapsed'', 40)]]"

definition example_opts :: lua_data where
  "example_opts = Fields [(''prefix'', as_bytes ''p'')] [(''start'', 0)]"

definition example_owned :: "owned_entry list" where
  "example_owned =
     [\<lparr>o_key = [0x6B], o_pool = ''a'', o_status = StMiss, o_t = None, o_value = None, o_line = None, o_elapsed = None\<rparr>,
      \<lparr>o_key = [0x6B], o_pool = ''b'', o_status = StHit, o_t = None, o_value = Some [1, 2], o_line = None,
       o_elapsed = Some 40\<rparr>]"

definition world_new :: "(nat \<Rightarrow> nat) \<Rightarrow> world" where
  "world_new readings =
     \<lparr>w_metrics = [], w_limiter = None, w_log = [], w_clock = readings, w_reads = 0, w_clock_origin = None\<rparr>"

section \<open>Lemmas\<close>

subsection \<open>Labels\<close>

lemma op_label_closed: "op_label s \<in> op_labels"
  by (simp add: op_label_def op_labels_def)

lemma outcome_label_closed: "outcome_label s \<in> outcome_labels"
  by (simp add: outcome_label_def outcome_labels_def)

lemma op_label_id: "s \<in> op_labels \<Longrightarrow> op_label s = s"
  by (auto simp: op_label_def op_labels_def)

lemma outcome_label_id: "s \<in> outcome_labels \<Longrightarrow> outcome_label s = s"
  by (auto simp: outcome_label_def outcome_labels_def)

lemma reload_label_closed: "reload_label s \<in> {''ok'', ''fallback'', ''other''}"
  by (simp add: reload_label_def)

lemma status_label_closed: "status_label s \<in> {''hit'', ''miss'', ''error''}"
  by (cases s) simp_all

lemma read_outcome_closed: "read_outcome r owned \<in> {''hit'', ''miss'', ''error''}"
  using status_label_closed by (auto simp: read_outcome_def no_winner_def split: merge_result.splits)

lemma parse_status_label: "parse_status (as_bytes (status_label s)) = Inr s"
  by (cases s) (simp_all add: parse_status_def as_bytes_def)

subsection \<open>Projection\<close>

lemma project_from_spec:
  "project_from api entries is out = Inr owned \<longleftrightarrow>
     (\<exists>more. owned = out @ more \<and>
        list_all2 (\<lambda>i e. \<exists>t. get_table api entries i = Inr t \<and> project_entry api t = Inr e) is more)"
  by (induction "is" arbitrary: out) (fastforce simp: result_simps list_all2_Cons1)+

lemma project_spec:
  "project api entries = Inr owned \<longleftrightarrow>
     length owned = raw_len api entries \<and>
     (\<forall>i < raw_len api entries.
        \<exists>t. get_table api entries (Suc i) = Inr t \<and> project_entry api t = Inr (owned ! i))"
  by (auto simp: project_def project_from_spec list_all2_conv_all_nth simp del: upt_Suc)

lemma length_as_views [simp]: "length (as_views owned) = length owned"
  by (simp add: as_views_def)

subsection \<open>The world stays well formed\<close>

lemma world_ok_clock_origin: "world_ok w \<Longrightarrow> clock_origin w = (t, w') \<Longrightarrow> world_ok w'"
proof (cases "w_clock_origin w")
  case None
  assume ok: "world_ok w" and eq: "clock_origin w = (t, w')"
  obtain now w1 where now: "instant_now w = (now, w1)"
    by (cases "instant_now w")
  have "world_ok w1"
    by (rule world_ok_instant_now [OF ok now])
  then show ?thesis
    using eq None now
    by (auto simp: clock_origin_def world_ok_def failure_lines_def Let_def split: option.splits)
qed (simp add: clock_origin_def)

lemma world_ok_now_nanos:
  assumes "world_ok w" "now_nanos w = (n, w')"
  shows "world_ok w'"
proof -
  obtain origin w1 where o: "clock_origin w = (origin, w1)"
    by (cases "clock_origin w")
  obtain now w2 where now: "instant_now w1 = (now, w2)"
    by (cases "instant_now w1")
  show ?thesis
    using assms(2) o now world_ok_instant_now [OF world_ok_clock_origin [OF assms(1) o] now]
    by (simp add: now_nanos_def)
qed

lemma world_ok_duration_since:
  assumes "world_ok w" "duration_since start w = (d, w')"
  shows "world_ok w'"
proof (cases start)
  case (Some s)
  obtain now w1 where now: "now_nanos w = (now, w1)"
    by (cases "now_nanos w")
  show ?thesis
    using assms(2) Some now world_ok_now_nanos [OF assms(1) now] by (simp add: duration_since_def)
qed (use assms in \<open>simp add: duration_since_def\<close>)

lemma world_ok_metrics: "world_ok w \<Longrightarrow> list_all labels_closed (w_metrics w)"
  by (simp add: world_ok_def)

lemma observe_backends_eq: "observe_backends es m = m @ concat (map backend_calls es)"
  by (induction es arbitrary: m) (simp_all add: backend_calls_def observe_backend_def)

lemma observe_backends_closed: "list_all labels_closed (observe_backends es m) \<longleftrightarrow> list_all labels_closed m"
  using status_label_closed by (induction es arbitrary: m) (simp_all add: labels_closed_ops)

text \<open>A request recorded with a duration, as both metrics paths do it.\<close>

lemma world_ok_timed_request:
  assumes "world_ok w" "op \<in> op_labels" "oc \<in> outcome_labels"
  shows "world_ok (case duration_since start w of (d, w) \<Rightarrow> record_metrics (observe_request ks op oc d) w)"
proof -
  obtain d w1 where d: "duration_since start w = (d, w1)"
    by (cases "duration_since start w")
  have "world_ok w1"
    by (rule world_ok_duration_since [OF assms(1) d])
  then show ?thesis
    using assms(2,3) by (simp add: d world_ok_record labels_closed_ops world_ok_metrics)
qed

lemma observe_read_dispatch_ok:
  assumes "world_ok w"
  shows "world_ok (observe_read_dispatch api mn s owned result opts w)"
proof -
  have oc: "read_outcome result owned \<in> outcome_labels" "''read'' \<in> op_labels"
    using read_outcome_closed [of result owned] by (auto simp: outcome_labels_def op_labels_def)
  have "world_ok (record_metrics (observe_backends owned) (record_metrics (observe_merge_duration mn s) w))"
    by (intro world_ok_record assms)
      (simp_all add: record_metrics_def observe_backends_closed labels_closed_ops world_ok_metrics [OF assms])
  then show ?thesis
    using world_ok_timed_request [OF _ oc(2,1)]
    by (simp add: observe_read_dispatch_def Let_def split: option.split)
qed

lemma native_observe_ok: "world_ok w \<Longrightarrow> world_ok (native_observe p op oc start w)"
  by (simp add: native_observe_def world_ok_timed_request op_label_closed outcome_label_closed)

lemma native_observe_reload_ok: "world_ok w \<Longrightarrow> world_ok (native_observe_reload r p k w)"
  using reload_label_closed [of "from_utf8_lossy r"]
  by (simp add: native_observe_reload_def world_ok_record labels_closed_ops world_ok_metrics)

subsection \<open>Dispatch\<close>

lemma safe_registries_apply:
  assumes "safe_registries r" "registries_apply r n es w = Some (res, w')"
  shows "res = Winner i \<Longrightarrow> i < length es" "world_ok w \<Longrightarrow> world_ok w'"
proof -
  obtain m where m: "safe_merge m" "merge_apply m es w = (res, w')"
    using assms
    by (fastforce simp: safe_registries_def safe_table_def registries_apply_def split: option.splits)
  then show "res = Winner i \<Longrightarrow> i < length es" "world_ok w \<Longrightarrow> world_ok w'"
    unfolding safe_merge_def in_range_def by (metis fst_conv snd_conv)+
qed

lemma safe_builtins:
  assumes "registry_get (register registry_new) n = Some m"
  shows "safe_merge m"
  using assms in_range_builtins
  by (auto simp: registry_get_register safe_merge_def FirstHit_def PoolPreferred_def LastWriteWins_def
      split: if_splits)

lemma safe_builtin_registries: "safe_registries builtin_registries"
proof -
  have "registry_ok (register registry_new)"
    by (rule registry_ok_register) (rule registry_ok_new)
  then show ?thesis
    using safe_builtins safe_table_empty registries_ok_new [of "register registry_new"]
    by (simp add: safe_registries_def builtin_registries_def registries_new_def)
qed

lemma safe_registries_swap: "safe_registries r \<Longrightarrow> safe_table t \<Longrightarrow> safe_registries (swap_wasm t r)"
  by (auto simp: safe_registries_def registries_ok_def swap_wasm_def safe_table_def)

text \<open>The ways a merge call goes.\<close>

lemma native_merge_cases [consumes 1, case_names Rejected Unknown Dispatched]:
  assumes "native_merge api regs name entries opts w = (r, w')"
  obtains e where "and_then (name_str name) (\<lambda>name. and_then (project api entries) (\<lambda>owned. Inr (name, owned))) = Inl e"
      "r = Inl e" "w' = w"
  | n owned t where "from_utf8 name = Some n" "project api entries = Inr owned"
      "instant_now w = (t, w')" "registries_apply regs n (as_views owned) w' = None" "r = Inl (UnknownMerge n)"
  | n owned t0 w1 result w2 t1 w3 where "from_utf8 name = Some n" "project api entries = Inr owned"
      "instant_now w = (t0, w1)" "registries_apply regs n (as_views owned) w1 = Some (result, w2)"
      "instant_now w2 = (t1, w3)" "r = reply_of api result"
      "w' = observe_read_dispatch api n (DurationSeconds (t1 - t0)) owned result opts w3"
proof (cases "and_then (name_str name) (\<lambda>name. and_then (project api entries) (\<lambda>owned. Inr (name, owned)))")
  case (Inl e)
  then show ?thesis
    using assms that(1) by (simp add: native_merge_def)
next
  case (Inr x)
  then obtain n owned where n: "from_utf8 name = Some n" "project api entries = Inr owned" "x = (n, owned)"
    by (auto simp: result_simps name_str_def)
  obtain t0 w1 where t0: "instant_now w = (t0, w1)"
    by (cases "instant_now w")
  show ?thesis
  proof (cases "registries_apply regs n (as_views owned) w1")
    case None
    then show ?thesis
      using assms that(2) n t0 Inr by (simp add: native_merge_def Let_def)
  next
    case (Some y)
    obtain result w2 where y: "y = (result, w2)"
      by (cases y)
    obtain t1 w3 where "instant_now w2 = (t1, w3)"
      by (cases "instant_now w2")
    then show ?thesis
      using assms that(3) n t0 Inr Some y by (simp add: native_merge_def Let_def)
  qed
qed

lemma native_merge_ok:
  assumes "native_merge api regs name entries opts w = (r, w')" "safe_registries regs" "world_ok w"
  shows "world_ok w'"
  using assms(1)
proof (cases rule: native_merge_cases)
  case (Dispatched n owned t0 w1 result w2 t1 w3)
  then show ?thesis
    using assms(3) world_ok_instant_now safe_registries_apply(2) [OF assms(2) Dispatched(4)]
    by (auto intro: observe_read_dispatch_ok)
qed (use assms(3) world_ok_instant_now in auto)

subsection \<open>Replies and metrics of a merge call\<close>

lemma reply_of_Inr:
  assumes "reply_of api result = Inr v"
  shows "v = (case result of Winner i \<Rightarrow> LuaInteger (of_nat (Suc i)) | Synthesized bs \<Rightarrow> LuaString bs | Miss \<Rightarrow> LuaNil)"
    and "result = Winner i \<Longrightarrow> Suc i < 2 ^ 63"
  using assms by (auto simp: reply_of_def result_simps i64_try_from_def split: merge_result.splits if_splits)

lemma reply_of_total:
  assumes "\<And>bs. create_string api bs = Inr ()" "\<And>i. result = Winner i \<Longrightarrow> Suc i < 2 ^ 63"
  shows "\<exists>v. reply_of api result = Inr v"
  using assms by (auto simp: reply_of_def i64_try_from_def split: merge_result.splits)

lemma sint_of_nat_i64: "n < 2 ^ 63 \<Longrightarrow> sint (of_nat n :: i64) = int n"
  by (simp add: signed_of_nat signed_take_bit_int_eq_self)

lemma duration_since_frame:
  assumes "duration_since start w = (d, w')"
  shows "w_metrics w' = w_metrics w" "d = None \<longleftrightarrow> start = None"
  using assms by (auto simp: duration_since_def now_nanos_def clock_origin_def instant_now_def Let_def
      split: option.splits)

lemma instant_now_frame: "instant_now w = (t, w') \<Longrightarrow> w_metrics w' = w_metrics w"
  by (auto simp: instant_now_def)

lemma observe_read_dispatch_metrics:
  "\<exists>d. (d = None \<longleftrightarrow> Option.bind opts (\<lambda>op. flat_ok (get_opt_i64 api op ''start'')) = None) \<and>
     w_metrics (observe_read_dispatch api mn s owned result opts w) =
       w_metrics w @ [ObserveMergeDuration \<lparr>ml_merge = mn\<rparr> s] @ concat (map backend_calls owned) @
       (case Option.bind opts (\<lambda>op. flat_ok (get_opt_str api op ''prefix'')) of
          None \<Rightarrow> []
        | Some prefix \<Rightarrow> observe_request (from_utf8_lossy prefix) ''read'' (read_outcome result owned) d [])"
proof -
  let ?w = "record_metrics (observe_backends owned) (record_metrics (observe_merge_duration mn s) w)"
  let ?start = "Option.bind opts (\<lambda>op. flat_ok (get_opt_i64 api op ''start''))"
  obtain d w1 where d: "duration_since ?start ?w = (d, w1)"
    by (cases "duration_since ?start ?w")
  note frame = duration_since_frame [OF d]
  have w: "w_metrics ?w = w_metrics w @ [ObserveMergeDuration \<lparr>ml_merge = mn\<rparr> s] @ concat (map backend_calls owned)"
    by (simp add: record_metrics_def observe_backends_eq observe_merge_duration_def)
  show ?thesis
  proof (cases "Option.bind opts (\<lambda>op. flat_ok (get_opt_str api op ''prefix''))")
    case None
    then have "observe_read_dispatch api mn s owned result opts w = ?w"
      by (auto simp: observe_read_dispatch_def Let_def split: option.splits)
    then show ?thesis
      using None w frame(2) by auto
  next
    case (Some prefix)
    then have "observe_read_dispatch api mn s owned result opts w =
        record_metrics (observe_request (from_utf8_lossy prefix) ''read'' (read_outcome result owned) d) w1"
      using d by (auto simp: observe_read_dispatch_def Let_def split: option.splits)
    then show ?thesis
      using Some w frame by (intro exI [of _ d]) (simp add: record_metrics_def observe_request_def)
  qed
qed

lemma dispatchable_cases:
  assumes "from_utf8 name = Some n" "project api entries = Inr owned"
  shows "and_then (name_str name) (\<lambda>name. and_then (project api entries) (\<lambda>owned. Inr (name, owned))) = Inr (n, owned)"
  using assms by (simp add: name_str_def)

subsection \<open>An example call\<close>

lemma is_str_examples:
  "is_str ''a''" "is_str ''b''" "is_str ''first-hit''" "is_str ''p''"
  by (simp_all add: is_str_def as_bytes_def utf8_step_def utf8_tail_def)

lemma example_project: "project plain_api example_table = Inr example_owned"
  using is_str_examples from_utf8_as_bytes
  by (simp add: project_def plain_api_def example_table_def example_owned_def project_entry_def upt_rec
      parse_status_def as_bytes_def [of "''hit''"] as_bytes_def [of "''miss''"] as_bytes_def [of "''error''"])

lemma example_apply:
  "registries_apply builtin_registries ''first-hit'' (as_views example_owned) w =
     Some (Winner 1, w)"
  by (simp add: registries_apply_def builtin_registries_def registries_new_def registry_get_register FirstHit_def as_views_def
      as_view_def example_owned_def first_hit_def)

lemma example_call:
  "\<exists>w'. native_merge plain_api builtin_registries (as_bytes ''first-hit'') example_table
     (Some example_opts) w = (Inr (LuaInteger 2), w')"
proof -
  note name = dispatchable_cases [OF from_utf8_as_bytes [OF is_str_examples(3)] example_project]
  obtain t0 w1 where t0: "instant_now w = (t0, w1)"
    by (cases "instant_now w")
  obtain t1 w2 where t1: "instant_now w1 = (t1, w2)"
    by (cases "instant_now w1")
  show ?thesis
    unfolding native_merge_def name sum.case prod.case t0 Let_def example_apply option.case t1
    by (simp add: reply_of_def i64_try_from_def)
qed

section \<open>Properties\<close>

text \<open>
  C24. The reply of a merge call is the merge's answer on the entries Lua passed, and an integer
  reply is a valid index of that table: it lies between 1 and the table's length, and the
  table's element there is the entry that won.
\<close>

theorem native_merge_reply:
  assumes "safe_registries regs" "native_merge api regs name entries opts w = (Inr v, w')"
  shows "\<exists>n owned w1 result w2. from_utf8 name = Some n \<and> project api entries = Inr owned \<and>
    registries_apply regs n (as_views owned) w1 = Some (result, w2) \<and>
    (case result of
       Winner i \<Rightarrow> v = LuaInteger (of_nat (Suc i)) \<and> sint (of_nat (Suc i) :: i64) = int (Suc i) \<and>
         Suc i \<le> raw_len api entries \<and>
         (\<exists>t. get_table api entries (Suc i) = Inr t \<and> project_entry api t = Inr (owned ! i))
     | Synthesized bs \<Rightarrow> v = LuaString bs
     | Miss \<Rightarrow> v = LuaNil)"
  using assms(2)
proof (cases rule: native_merge_cases)
  case (Dispatched n owned t0 w1 result w2 t1 w3)
  note reply = reply_of_Inr [OF Dispatched(6) [symmetric]]
  have "case result of
       Winner i \<Rightarrow> v = LuaInteger (of_nat (Suc i)) \<and> sint (of_nat (Suc i) :: i64) = int (Suc i) \<and>
         Suc i \<le> raw_len api entries \<and>
         (\<exists>t. get_table api entries (Suc i) = Inr t \<and> project_entry api t = Inr (owned ! i))
     | Synthesized bs \<Rightarrow> v = LuaString bs
     | Miss \<Rightarrow> v = LuaNil"
  proof (cases result)
    case (Winner i)
    have "i < length owned"
      using safe_registries_apply(1) [OF assms(1) Dispatched(4) Winner] by simp
    then show ?thesis
      using Winner reply sint_of_nat_i64 [of "Suc i"] Dispatched(2) by (simp add: project_spec del: of_nat_Suc)
  qed (use reply in simp_all)
  then show ?thesis
    using Dispatched(1,2,4) by blast
qed simp_all

theorem native_merge_reply_witness:
  "\<exists>i. LuaInteger 2 = LuaInteger (of_nat (Suc i)) \<and> Suc i \<le> raw_len plain_api example_table"
proof -
  obtain w' where "native_merge plain_api builtin_registries (as_bytes ''first-hit'')
      example_table (Some example_opts) (world_new id) = (Inr (LuaInteger 2), w')"
    using example_call by blast
  from native_merge_reply [OF safe_builtin_registries this] obtain n owned w1 result w2 where
    "from_utf8 (as_bytes ''first-hit'') = Some n" "project plain_api example_table = Inr owned"
    "registries_apply builtin_registries n (as_views owned) w1 = Some (result, w2)"
    and reply: "case result of
       Winner i \<Rightarrow> LuaInteger 2 = LuaInteger (of_nat (Suc i)) \<and> sint (of_nat (Suc i) :: i64) = int (Suc i) \<and>
         Suc i \<le> raw_len plain_api example_table \<and>
         (\<exists>t. get_table plain_api example_table (Suc i) = Inr t \<and> project_entry plain_api t = Inr (owned ! i))
     | Synthesized bs \<Rightarrow> LuaInteger 2 = LuaString bs
     | Miss \<Rightarrow> LuaInteger 2 = LuaNil"
    by blast
  moreover from this have "n = ''first-hit''" "owned = example_owned"
    using from_utf8_as_bytes [OF is_str_examples(3)] example_project by simp_all
  ultimately have "result = Winner 1"
    using example_apply by simp
  then show ?thesis
    using reply unfolding \<open>result = Winner 1\<close> merge_result.case by blast
qed

text \<open>
  C25. A merge call fails exactly when it cannot be dispatched: with a name that is not UTF-8, a
  table that does not project or an unknown merge, it is an error that records no metric;
  with a known name and a table that projects it succeeds, given memory for the reply and
  an indexable table.
\<close>

theorem native_merge_total:
  assumes "safe_registries regs" "\<And>bs. create_string api bs = Inr ()" "raw_len api entries < 2 ^ 63"
  shows "case native_merge api regs name entries opts w of (r, w') \<Rightarrow>
    if (\<exists>n owned. from_utf8 name = Some n \<and> project api entries = Inr owned \<and> registries_has regs n)
    then (\<exists>v. r = Inr v)
    else (\<exists>e. r = Inl e) \<and> w_metrics w' = w_metrics w"
proof -
  obtain r w' where call: "native_merge api regs name entries opts w = (r, w')"
    by (cases "native_merge api regs name entries opts w")
  have known: "registries_has regs n \<longleftrightarrow> registries_apply regs n es v \<noteq> None" for n es v
    using rd.dispatch_iff [of regs n es v] assms(1) by (simp add: safe_registries_def)
  from call show ?thesis
  proof (cases rule: native_merge_cases)
    case (Rejected e)
    have "\<not> (\<exists>n owned. from_utf8 name = Some n \<and> project api entries = Inr owned \<and> registries_has regs n)"
      using dispatchable_cases Rejected(1) by (metis Inl_Inr_False)
    then show ?thesis
      using call Rejected(2,3) by simp
  next
    case (Unknown n owned t)
    then have "\<not> (\<exists>n owned. from_utf8 name = Some n \<and> project api entries = Inr owned \<and> registries_has regs n)"
      using known [of n "as_views owned" w'] by auto
    then show ?thesis
      using call Unknown(5) instant_now_frame [OF Unknown(3)] by simp
  next
    case (Dispatched n owned t0 w1 result w2 t1 w3)
    have "\<exists>v. reply_of api result = Inr v"
      using safe_registries_apply(1) [OF assms(1) Dispatched(4)] Dispatched(2) assms(2,3)
      by (intro reply_of_total) (auto simp: project_spec)
    moreover have "\<exists>n owned. from_utf8 name = Some n \<and> project api entries = Inr owned \<and> registries_has regs n"
      using Dispatched(1,2,4) known [of n "as_views owned" w1] by auto
    ultimately show ?thesis
      using call Dispatched(6) by simp
  qed
qed

theorem native_merge_total_witness:
  "\<exists>e. fst (native_merge plain_api builtin_registries (as_bytes ''nope'')
     example_table None (world_new id)) = Inl e"
proof -
  have "\<not> registries_has builtin_registries ''nope''"
    by (simp add: registries_has_iff builtin_registries_def registries_new_def registry_get_register bt.get_empty)
  moreover have "from_utf8 (as_bytes ''nope'') = Some ''nope''"
    by (rule from_utf8_as_bytes) (simp add: is_str_def as_bytes_def utf8_step_def utf8_tail_def)
  moreover have "raw_len plain_api example_table < 2 ^ 63" "\<And>bs. create_string plain_api bs = Inr ()"
    by (simp_all add: plain_api_def example_table_def)
  ultimately show ?thesis
    using native_merge_total [OF safe_builtin_registries, of plain_api example_table,
        where name = "as_bytes ''nope''" and opts = None and w = "world_new id"]
    by (simp split: prod.splits)
qed

text \<open>
  C26. A dispatched merge call records, after whatever the merge itself recorded, exactly: one merge
  duration under the merge's name, one backend request per entry under its pool and status,
  and one read request under the given prefix, with the outcome of the reply, when Lua
  passed a prefix.
\<close>

theorem native_merge_metrics:
  assumes "native_merge api regs name entries opts w = (Inr v, w')"
  shows "\<exists>n owned w1 result w2 s d.
    from_utf8 name = Some n \<and> project api entries = Inr owned \<and> w_metrics w1 = w_metrics w \<and>
    registries_apply regs n (as_views owned) w1 = Some (result, w2) \<and>
    w_metrics w' = w_metrics w2 @ [ObserveMergeDuration \<lparr>ml_merge = n\<rparr> s] @ concat (map backend_calls owned) @
      (case Option.bind opts (\<lambda>op. flat_ok (get_opt_str api op ''prefix'')) of
         None \<Rightarrow> []
       | Some prefix \<Rightarrow> observe_request (from_utf8_lossy prefix) ''read'' (read_outcome result owned) d [])"
  using assms
proof (cases rule: native_merge_cases)
  case (Dispatched n owned t0 w1 result w2 t1 w3)
  let ?s = "DurationSeconds (t1 - t0)"
  obtain d where "w_metrics w' = w_metrics w3 @ [ObserveMergeDuration \<lparr>ml_merge = n\<rparr> ?s] @
      concat (map backend_calls owned) @
      (case Option.bind opts (\<lambda>op. flat_ok (get_opt_str api op ''prefix'')) of
         None \<Rightarrow> []
       | Some prefix \<Rightarrow> observe_request (from_utf8_lossy prefix) ''read'' (read_outcome result owned) d [])"
    using observe_read_dispatch_metrics [of opts api n ?s owned result w3] Dispatched(7) by blast
  then show ?thesis
    using Dispatched(1,2,4) instant_now_frame [OF Dispatched(3)] instant_now_frame [OF Dispatched(5)]
    by (intro exI [of _ n] exI [of _ owned] exI [of _ w1] exI [of _ result] exI [of _ w2] exI [of _ ?s]
        exI [of _ d]) simp
qed simp_all

theorem native_merge_metrics_witness:
  "\<exists>w' s d. native_merge plain_api builtin_registries (as_bytes ''first-hit'')
       example_table (Some example_opts) (world_new id) = (Inr (LuaInteger 2), w') \<and>
     w_metrics w' = [ObserveMergeDuration \<lparr>ml_merge = ''first-hit''\<rparr> s,
       IncBackendRequests \<lparr>be_pool = ''a'', be_status = ''miss''\<rparr>,
       IncBackendRequests \<lparr>be_pool = ''b'', be_status = ''hit''\<rparr>,
       ObserveBackendDuration \<lparr>po_pool = ''b''\<rparr> (MicrosToSeconds 40)] @
       observe_request (from_utf8_lossy (as_bytes ''p'')) ''read'' ''hit'' d []"
proof -
  obtain w' where call: "native_merge plain_api builtin_registries (as_bytes ''first-hit'')
      example_table (Some example_opts) (world_new id) = (Inr (LuaInteger 2), w')"
    using example_call by blast
  have prefix: "flat_ok (get_opt_str plain_api example_opts ''prefix'') = Some (as_bytes ''p'')"
    by (simp add: plain_api_def example_opts_def flat_ok_def)
  have name: "from_utf8 (as_bytes ''first-hit'') = Some n \<longleftrightarrow> n = ''first-hit''" for n
    using from_utf8_as_bytes is_str_examples by auto
  from native_merge_metrics [OF call] obtain n owned w1 result w2 s d where raw:
    "from_utf8 (as_bytes ''first-hit'') = Some n" "project plain_api example_table = Inr owned"
    "w_metrics w1 = w_metrics (world_new id)"
    "registries_apply builtin_registries n (as_views owned) w1 = Some (result, w2)"
    "w_metrics w' = w_metrics w2 @ [ObserveMergeDuration \<lparr>ml_merge = n\<rparr> s] @ concat (map backend_calls owned) @
      (case Option.bind (Some example_opts) (\<lambda>op. flat_ok (get_opt_str plain_api op ''prefix'')) of
         None \<Rightarrow> []
       | Some prefix \<Rightarrow> observe_request (from_utf8_lossy prefix) ''read'' (read_outcome result owned) d [])"
    by blast
  have eqs: "n = ''first-hit''" "owned = example_owned"
    using raw(1,2) name example_project by simp_all
  then have "result = Winner 1" "w2 = w1"
    using raw(4) example_apply by simp_all
  with raw(3,5) eqs have "w_metrics w' = [ObserveMergeDuration \<lparr>ml_merge = ''first-hit''\<rparr> s] @
       concat (map backend_calls example_owned) @
       observe_request (from_utf8_lossy (as_bytes ''p'')) ''read'' (read_outcome (Winner 1) example_owned) d []"
    by (simp add: prefix world_new_def)
  moreover have "concat (map backend_calls example_owned) =
      [IncBackendRequests \<lparr>be_pool = ''a'', be_status = ''miss''\<rparr>,
       IncBackendRequests \<lparr>be_pool = ''b'', be_status = ''hit''\<rparr>,
       ObserveBackendDuration \<lparr>po_pool = ''b''\<rparr> (MicrosToSeconds 40)]"
    "read_outcome (Winner 1) example_owned = ''hit''"
    by (simp_all add: backend_calls_def example_owned_def observe_backend_def read_outcome_def)
  ultimately show ?thesis
    using call by (intro exI conjI) simp_all
qed

end
