(* ===== verification/Exporter.thy ===== *)
theory Exporter
  imports Metrics
begin

text \<open>
  The exposition endpoint of metrics.rs: one connection at a time, one request read under
  a deadline, one response written under the same deadline.

  The socket, the listener and the clock belong to the operating system. They are the
  record \<open>socket\<close>, a parameter of the definitions: its operations answer on a state
  \<open>'s\<close> of their own. A read is given the size of the buffer that is left and cannot
  fill more than that. Instants and durations are nanoseconds.

  \<open>timed_socket\<close> and \<open>ordered_socket\<close> are what the documentation of the socket calls
  promises: an operation with a timeout returns within it, and a successful write has
  sent a prefix of what it was given.
\<close>

section \<open>Definitions\<close>

record 's socket =
  sk_now :: "'s \<Rightarrow> nat \<times> 's"
  sk_set_read_timeout :: "'s \<Rightarrow> nat \<Rightarrow> (io_error + unit) \<times> 's"
  sk_set_write_timeout :: "'s \<Rightarrow> nat \<Rightarrow> (io_error + unit) \<times> 's"
  sk_read :: "'s \<Rightarrow> nat \<Rightarrow> (io_error + bytes) \<times> 's"
  sk_write :: "'s \<Rightarrow> bytes \<Rightarrow> (io_error + nat) \<times> 's"
  sk_flush :: "'s \<Rightarrow> (io_error + unit) \<times> 's"

definition SCRAPE_IO_TIMEOUT :: nat where
  "SCRAPE_IO_TIMEOUT = 5 * 1000000000"

text \<open>The deadline's budget; a spent budget is an error.\<close>

definition remaining_budget :: "'s socket \<Rightarrow> nat \<Rightarrow> 's \<Rightarrow> (io_error + nat) \<times> 's" where
  "remaining_budget sk deadline s =
     (let (now, s) = sk_now sk s; remaining = deadline - now in
      if remaining = 0 then (Inl TimedOut, s) else (Inr remaining, s))"

subsection \<open>Reading the request\<close>

definition CRLF :: bytes where "CRLF = [0x0D, 0x0A]"
definition SPACE :: u8 where "SPACE = 0x20"

text \<open>\<open>windows(n).position(|w| w == pat)\<close>\<close>

fun find_window :: "bytes \<Rightarrow> bytes \<Rightarrow> nat option" where
  "find_window pat [] = (if pat = [] then Some 0 else None)"
| "find_window pat (b # bs) =
     (if take (length pat) (b # bs) = pat then Some 0 else map_option Suc (find_window pat bs))"

definition end_of_headers :: "bytes \<Rightarrow> bool" where
  "end_of_headers bs \<longleftrightarrow> find_window (CRLF @ CRLF) bs \<noteq> None"

definition BUF_LEN :: nat where "BUF_LEN = 4096"

text \<open>One pass of the read loop: what was read into the rest of the buffer, if no error.\<close>

definition read_once :: "'s socket \<Rightarrow> nat \<Rightarrow> nat \<Rightarrow> 's \<Rightarrow> (io_error + bytes) \<times> 's" where
  "read_once sk deadline room s =
     (case remaining_budget sk deadline s of
        (Inl e, s) \<Rightarrow> (Inl e, s)
      | (Inr budget, s) \<Rightarrow>
          (case sk_set_read_timeout sk s budget of
             (Inl e, s) \<Rightarrow> (Inl e, s)
           | (Inr _, s) \<Rightarrow>
               (case sk_read sk s room of
                  (Inl e, s) \<Rightarrow> (Inl e, s)
                | (Inr bs, s) \<Rightarrow> (Inr (take room bs), s))))"

function read_loop :: "'s socket \<Rightarrow> nat \<Rightarrow> bytes \<Rightarrow> 's \<Rightarrow> (io_error + bytes) \<times> 's" where
  "read_loop sk deadline buf s =
     (if length buf = BUF_LEN then (Inr buf, s)
      else
        (case read_once sk deadline (BUF_LEN - length buf) s of
           (Inl e, s) \<Rightarrow> (Inl e, s)
         | (Inr bs, s) \<Rightarrow>
             if bs = [] then (Inr buf, s)
             else if end_of_headers (buf @ bs) then (Inr (buf @ bs), s)
             else read_loop sk deadline (buf @ bs) s))"
  by pat_completeness auto

subsection \<open>The response\<close>

text \<open>\<open>Display\<close> for \<open>usize\<close>.\<close>

fun decimal :: "nat \<Rightarrow> string" where
  "decimal n = (if n < 10 then [char_of (48 + n)] else decimal (n div 10) @ [char_of (48 + n mod 10)])"

definition request_line :: "bytes \<Rightarrow> bytes" where
  "request_line request =
     take (case find_window CRLF request of Some i \<Rightarrow> i | None \<Rightarrow> length request) request"

definition nth_part :: "nat \<Rightarrow> bytes \<Rightarrow> bytes" where
  "nth_part i line = (let parts = split_on SPACE line in if i < length parts then parts ! i else [])"

definition starts_with :: "bytes \<Rightarrow> bytes \<Rightarrow> bool" where
  "starts_with bs pre \<longleftrightarrow> take (length pre) bs = pre"

text \<open>Status, content type and body for a request; \<open>encoded\<close> is the rendered registry.\<close>

definition route :: "string \<Rightarrow> bytes \<Rightarrow> string \<times> string \<times> string" where
  "route encoded request =
     (let line = request_line request; method = nth_part 0 line; path = nth_part 1 line in
      if method \<noteq> as_bytes ''GET'' then
        (''405 Method Not Allowed'', ''text/plain; charset=utf-8'', ''method not allowed'' @ [CHR 0x0A])
      else if path = as_bytes ''/metrics'' \<or> starts_with path (as_bytes ''/metrics?'') then
        (''200 OK'', ''application/openmetrics-text; version=1.0.0; charset=utf-8'', encoded)
      else
        (''404 Not Found'', ''text/plain; charset=utf-8'',
         ''not found; metrics are at /metrics'' @ [CHR 0x0A]))"

definition eol :: string where "eol = [CHR 0x0D, CHR 0x0A]"

definition response :: "string \<times> string \<times> string \<Rightarrow> string" where
  "response r =
     (case r of (status, content_type, body) \<Rightarrow>
        ''HTTP/1.1 '' @ status @ eol @ ''Content-Type: '' @ content_type @ eol @
        ''Content-Length: '' @ decimal (length body) @ eol @ ''Connection: close'' @ eol @ eol @ body)"

subsection \<open>Writing it\<close>

text \<open>One pass of the write loop: how much was written, if no error.\<close>

definition write_once :: "'s socket \<Rightarrow> nat \<Rightarrow> bytes \<Rightarrow> 's \<Rightarrow> (io_error + nat) \<times> 's" where
  "write_once sk deadline buf s =
     (case remaining_budget sk deadline s of
        (Inl e, s) \<Rightarrow> (Inl e, s)
      | (Inr budget, s) \<Rightarrow>
          (case sk_set_write_timeout sk s budget of
             (Inl e, s) \<Rightarrow> (Inl e, s)
           | (Inr _, s) \<Rightarrow>
               (case sk_write sk s buf of
                  (Inl e, s) \<Rightarrow> (Inl e, s)
                | (Inr written, s) \<Rightarrow>
                    if written = 0 then (Inl WriteZero, s) else (Inr written, s))))"

function write_all_until :: "'s socket \<Rightarrow> nat \<Rightarrow> bytes \<Rightarrow> 's \<Rightarrow> (io_error + unit) \<times> 's" where
  "write_all_until sk deadline buf s =
     (if buf = [] then (Inr (), s)
      else
        (case write_once sk deadline buf s of
           (Inl e, s) \<Rightarrow> (Inl e, s)
         | (Inr written, s) \<Rightarrow> write_all_until sk deadline (drop written buf) s))"
  by pat_completeness auto

definition serve_one_until ::
  "(metrics \<Rightarrow> string) \<Rightarrow> 's socket \<Rightarrow> metrics \<Rightarrow> nat \<Rightarrow> 's \<Rightarrow> (io_error + unit) \<times> 's" where
  "serve_one_until encode sk m deadline s =
     (case read_loop sk deadline [] s of
        (Inl e, s) \<Rightarrow> (Inl e, s)
      | (Inr request, s) \<Rightarrow>
          (case write_all_until sk deadline (as_bytes (response (route (encode m) request))) s of
             (Inl e, s) \<Rightarrow> (Inl e, s)
           | (Inr _, s) \<Rightarrow> sk_flush sk s))"

definition serve_one :: "(metrics \<Rightarrow> string) \<Rightarrow> 's socket \<Rightarrow> metrics \<Rightarrow> 's \<Rightarrow> (io_error + unit) \<times> 's" where
  "serve_one encode sk m s =
     (let (now, s) = sk_now sk s in serve_one_until encode sk m (now + SCRAPE_IO_TIMEOUT) s)"

text \<open>
  The exporter's thread over the connections it accepts: a failed accept is a pause of 100
  milliseconds, the outcome of a connection is dropped.
\<close>

datatype accepted = Paused nat | Served "io_error + unit"

fun accept_loop ::
  "(metrics \<Rightarrow> string) \<Rightarrow> 's socket \<Rightarrow> metrics \<Rightarrow> (io_error + 's) list \<Rightarrow> accepted list" where
  "accept_loop encode sk m [] = []"
| "accept_loop encode sk m (Inl e # ss) = Paused (100 * 1000000) # accept_loop encode sk m ss"
| "accept_loop encode sk m (Inr s # ss) =
     Served (fst (serve_one encode sk m s)) # accept_loop encode sk m ss"

datatype exporter_error = BindFailed string io_error | LocalAddrFailed string io_error | SpawnFailed io_error

text \<open>\<open>spawn_exporter\<close>, with the answers of bind, of local_addr and of the thread builder.\<close>

definition spawn_exporter ::
  "(string \<Rightarrow> io_error + 'l) \<Rightarrow> ('l \<Rightarrow> io_error + string) \<Rightarrow> (io_error + unit) \<Rightarrow> string \<Rightarrow>
   exporter_error + string" where
  "spawn_exporter bind local_addr spawn addr =
     and_then (map_err (BindFailed addr) (bind addr)) (\<lambda>listener.
     and_then (map_err (LocalAddrFailed addr) (local_addr listener)) (\<lambda>local.
     and_then (map_err SpawnFailed spawn) (\<lambda>_. Inr local)))"

subsection \<open>What the socket calls promise\<close>

text \<open>
  \<open>time\<close> is the clock, \<open>rto\<close> and \<open>wto\<close> the timeouts in force. Setting a timeout and
  reading the clock are instantaneous; a read or a write takes at most its timeout.
\<close>

definition timed_socket ::
  "'s socket \<Rightarrow> ('s \<Rightarrow> nat) \<Rightarrow> ('s \<Rightarrow> nat) \<Rightarrow> ('s \<Rightarrow> nat) \<Rightarrow> bool" where
  "timed_socket sk time rto wto \<longleftrightarrow>
     (\<forall>s t s'. sk_now sk s = (t, s') \<longrightarrow> t = time s \<and> time s' = time s) \<and>
     (\<forall>s d r s'. sk_set_read_timeout sk s d = (r, s') \<longrightarrow> time s' = time s \<and> (r = Inr () \<longrightarrow> rto s' = d)) \<and>
     (\<forall>s d r s'. sk_set_write_timeout sk s d = (r, s') \<longrightarrow> time s' = time s \<and> (r = Inr () \<longrightarrow> wto s' = d)) \<and>
     (\<forall>s n r s'. sk_read sk s n = (r, s') \<longrightarrow> time s' \<le> time s + rto s) \<and>
     (\<forall>s bs r s'. sk_write sk s bs = (r, s') \<longrightarrow> time s' \<le> time s + wto s) \<and>
     (\<forall>s r s'. sk_flush sk s = (r, s') \<longrightarrow> time s' = time s)"

text \<open>
  \<open>received\<close> and \<open>sent\<close> are the bytes taken from and given to the peer so far. Only a
  read receives, and it receives what it returns; only a write sends, and it sends the
  prefix it reports.
\<close>

definition ordered_socket :: "'s socket \<Rightarrow> ('s \<Rightarrow> bytes) \<Rightarrow> ('s \<Rightarrow> bytes) \<Rightarrow> bool" where
  "ordered_socket sk received sent \<longleftrightarrow>
     (\<forall>s t s'. sk_now sk s = (t, s') \<longrightarrow> received s' = received s \<and> sent s' = sent s) \<and>
     (\<forall>s d r s'. sk_set_read_timeout sk s d = (r, s') \<longrightarrow> received s' = received s \<and> sent s' = sent s) \<and>
     (\<forall>s d r s'. sk_set_write_timeout sk s d = (r, s') \<longrightarrow> received s' = received s \<and> sent s' = sent s) \<and>
     (\<forall>s r s'. sk_flush sk s = (r, s') \<longrightarrow> received s' = received s \<and> sent s' = sent s) \<and>
     (\<forall>s n r s'. sk_read sk s n = (r, s') \<longrightarrow> sent s' = sent s \<and>
        (case r of Inl _ \<Rightarrow> received s' = received s
         | Inr bs \<Rightarrow> received s' = received s @ take n bs)) \<and>
     (\<forall>s bs r s'. sk_write sk s bs = (r, s') \<longrightarrow> received s' = received s \<and>
        (case r of Inl _ \<Rightarrow> sent s' = sent s
         | Inr n \<Rightarrow> n \<le> length bs \<and> sent s' = sent s @ take n bs))"

text \<open>
  \<open>closed\<close>: the peer has closed its side. A read into a buffer that has room returns nothing
  only then, and it stays so.
\<close>

definition eof_socket :: "'s socket \<Rightarrow> ('s \<Rightarrow> bool) \<Rightarrow> bool" where
  "eof_socket sk closed \<longleftrightarrow>
     (\<forall>s n s'. sk_read sk s n = (Inr [], s') \<and> 0 < n \<longrightarrow> closed s') \<and>
     (\<forall>s r s'. closed s \<and> (\<exists>d. sk_set_write_timeout sk s d = (r, s')) \<longrightarrow> closed s') \<and>
     (\<forall>s r s'. closed s \<and> sk_now sk s = (r, s') \<longrightarrow> closed s') \<and>
     (\<forall>s r s'. closed s \<and> (\<exists>bs. sk_write sk s bs = (r, s')) \<longrightarrow> closed s') \<and>
     (\<forall>s r s'. closed s \<and> sk_flush sk s = (r, s') \<longrightarrow> closed s')"

text \<open>The request is all there: its headers end, the buffer is full, or no more will come.\<close>

definition request_over :: "('s \<Rightarrow> bool) \<Rightarrow> 's \<Rightarrow> bytes \<Rightarrow> bool" where
  "request_over closed s request \<longleftrightarrow> end_of_headers request \<or> length request = BUF_LEN \<or> closed s"

text \<open>The number a client reads back from a decimal string.\<close>

definition undecimal :: "string \<Rightarrow> nat" where
  "undecimal str = foldl (\<lambda>n c. 10 * n + (of_char c - 48)) 0 str"

text \<open>The header a client sees before the blank line, and text free of line ends.\<close>

definition response_head :: "string \<times> string \<times> string \<Rightarrow> string" where
  "response_head r =
     (case r of (status, content_type, body) \<Rightarrow>
        ''HTTP/1.1 '' @ status @ eol @ ''Content-Type: '' @ content_type @ eol @
        ''Content-Length: '' @ decimal (length body) @ eol @ ''Connection: close'')"

definition plain :: "string \<Rightarrow> bool" where
  "plain str \<longleftrightarrow> 0x0D \<notin> set (as_bytes str)"

subsection \<open>A scripted client\<close>

text \<open>
  A peer that sends chunks after given delays and takes at most \<open>sc_window\<close> bytes of each
  write: a reference socket that keeps the promises. An empty chunk, or the end of the
  script, is the peer closing its side.
\<close>

record script =
  sc_time :: nat
  sc_rto :: nat
  sc_wto :: nat
  sc_in :: "(nat \<times> bytes) list"
  sc_window :: nat
  sc_received :: bytes
  sc_sent :: bytes

definition script_socket :: "script socket" where
  "script_socket =
     \<lparr>sk_now = (\<lambda>s. (sc_time s, s)),
      sk_set_read_timeout = (\<lambda>s d. (Inr (), s\<lparr>sc_rto := d\<rparr>)),
      sk_set_write_timeout = (\<lambda>s d. (Inr (), s\<lparr>sc_wto := d\<rparr>)),
      sk_read = (\<lambda>s n.
        case sc_in s of
          [] \<Rightarrow> (Inr [], s)
        | (delay, chunk) # rest \<Rightarrow>
            if sc_rto s < delay then (Inl TimedOut, s\<lparr>sc_time := sc_time s + sc_rto s\<rparr>)
            else (Inr (take n chunk), s\<lparr>sc_time := sc_time s + delay, sc_in := (if chunk = [] then [] else rest),
                    sc_received := sc_received s @ take n chunk\<rparr>)),
      sk_write = (\<lambda>s bs.
        let n = min (sc_window s) (length bs) in (Inr n, s\<lparr>sc_sent := sc_sent s @ take n bs\<rparr>)),
      sk_flush = (\<lambda>s. (Inr (), s))\<rparr>"

text \<open>A client that sends one byte and then stalls for an hour, and a prompt one.\<close>

definition slow_client :: script where
  "slow_client = \<lparr>sc_time = 7, sc_rto = 0, sc_wto = 0,
     sc_in = [(1000000000, as_bytes ''G''), (3600000000000, as_bytes ''ET'')],
     sc_window = 1, sc_received = [], sc_sent = []\<rparr>"

definition prompt_client :: script where
  "prompt_client = \<lparr>sc_time = 7, sc_rto = 0, sc_wto = 0,
     sc_in = [(5, as_bytes ''GET /met''), (9, as_bytes ''rics HTTP/1.1'' @ CRLF @ CRLF)],
     sc_window = 1000, sc_received = [], sc_sent = []\<rparr>"

section \<open>Lemmas\<close>

subsection \<open>One pass of a loop\<close>

lemma read_once_cases [consumes 1, case_names Budget Timeout Fail Read]:
  assumes "read_once sk deadline room s = (r, s')"
  obtains e where "remaining_budget sk deadline s = (Inl e, s')" "r = Inl e"
  | budget s1 e where "remaining_budget sk deadline s = (Inr budget, s1)"
      "sk_set_read_timeout sk s1 budget = (Inl e, s')" "r = Inl e"
  | budget s1 s2 e where "remaining_budget sk deadline s = (Inr budget, s1)"
      "sk_set_read_timeout sk s1 budget = (Inr (), s2)" "sk_read sk s2 room = (Inl e, s')" "r = Inl e"
  | budget s1 s2 bs where "remaining_budget sk deadline s = (Inr budget, s1)"
      "sk_set_read_timeout sk s1 budget = (Inr (), s2)" "sk_read sk s2 room = (Inr bs, s')"
      "r = Inr (take room bs)"
  using assms by (auto simp: read_once_def split: prod.splits sum.splits)

lemma write_once_cases [consumes 1, case_names Budget Timeout Fail Zero Written]:
  assumes "write_once sk deadline buf s = (r, s')"
  obtains e where "remaining_budget sk deadline s = (Inl e, s')" "r = Inl e"
  | budget s1 e where "remaining_budget sk deadline s = (Inr budget, s1)"
      "sk_set_write_timeout sk s1 budget = (Inl e, s')" "r = Inl e"
  | budget s1 s2 e where "remaining_budget sk deadline s = (Inr budget, s1)"
      "sk_set_write_timeout sk s1 budget = (Inr (), s2)" "sk_write sk s2 buf = (Inl e, s')" "r = Inl e"
  | budget s1 s2 where "remaining_budget sk deadline s = (Inr budget, s1)"
      "sk_set_write_timeout sk s1 budget = (Inr (), s2)" "sk_write sk s2 buf = (Inr 0, s')"
      "r = Inl WriteZero"
  | budget s1 s2 n where "remaining_budget sk deadline s = (Inr budget, s1)"
      "sk_set_write_timeout sk s1 budget = (Inr (), s2)" "sk_write sk s2 buf = (Inr n, s')"
      "0 < n" "r = Inr n"
  using assms by (auto simp: write_once_def split: prod.splits sum.splits if_splits)

subsection \<open>The loops end\<close>

lemma read_once_room: "read_once sk deadline room s = (Inr bs, s') \<Longrightarrow> length bs \<le> room"
  by (auto simp: read_once_def split: prod.splits sum.splits)

lemma read_once_progress:
  assumes "(Inr bs, s') = read_once sk deadline (BUF_LEN - length buf) s" "bs \<noteq> []"
  shows "BUF_LEN - length (buf @ bs) < BUF_LEN - length buf"
  using read_once_room [OF assms(1) [symmetric]] assms(2) by (cases bs) auto

lemma write_once_progress:
  assumes "(Inr n, s') = write_once sk deadline buf s" "buf \<noteq> []"
  shows "length (drop n buf) < length buf"
proof -
  have "0 < n"
    using assms(1) [symmetric] by (auto simp: write_once_def split: prod.splits sum.splits if_splits)
  then show ?thesis
    using assms(2) by (cases buf) auto
qed

termination read_loop
  by (relation "measure (\<lambda>(sk, deadline, buf, s). BUF_LEN - length buf)")
    (use read_once_progress in \<open>auto simp del: length_append\<close>)

termination write_all_until
  by (relation "measure (\<lambda>(sk, deadline, buf, s). length buf)")
    (use write_once_progress in \<open>auto simp del: length_drop\<close>)

declare read_loop.simps [simp del] write_all_until.simps [simp del]

text \<open>Rules for the two loops: what holds at every pass holds of the result.\<close>

lemma read_loop_rule:
  assumes "P buf s"
    and fail: "\<And>buf s e s'. P buf s \<Longrightarrow>
      read_once sk deadline (BUF_LEN - length buf) s = (Inl e, s') \<Longrightarrow> Q (Inl e) s'"
    and more: "\<And>buf s bs s'. P buf s \<Longrightarrow> length buf \<noteq> BUF_LEN \<Longrightarrow>
      read_once sk deadline (BUF_LEN - length buf) s = (Inr bs, s') \<Longrightarrow> P (buf @ bs) s'"
    and stop: "\<And>buf s. P buf s \<Longrightarrow> length buf = BUF_LEN \<or> end_of_headers buf \<or>
      (\<exists>s0. length buf \<noteq> BUF_LEN \<and> read_once sk deadline (BUF_LEN - length buf) s0 = (Inr [], s)) \<Longrightarrow> Q (Inr buf) s"
  shows "read_loop sk deadline buf s = (r, s') \<Longrightarrow> Q r s'"
  using assms(1)
proof (induction "BUF_LEN - length buf" arbitrary: buf s rule: less_induct)
  case less
  show ?case
  proof (cases "length buf = BUF_LEN")
    case True
    then show ?thesis
      using less.prems stop by (auto simp: read_loop.simps)
  next
    case False
    obtain x s1 where once: "read_once sk deadline (BUF_LEN - length buf) s = (x, s1)"
      by (cases "read_once sk deadline (BUF_LEN - length buf) s")
    show ?thesis
    proof (cases x)
      case (Inl e)
      then show ?thesis
        using less.prems False once fail by (auto simp: read_loop.simps)
    next
      case (Inr bs)
      have P: "P (buf @ bs) s1"
        using more less.prems(2) False once Inr by blast
      show ?thesis
      proof (cases "bs = [] \<or> end_of_headers (buf @ bs)")
        case True
        have "Q (Inr (buf @ bs)) s1"
          using True False once Inr by (intro stop [OF P]) auto
        then show ?thesis
          using less.prems(1) True False once Inr by (auto simp: read_loop.simps split: if_splits)
      next
        case go: False
        have "BUF_LEN - length (buf @ bs) < BUF_LEN - length buf"
          using go read_once_progress [OF once [unfolded Inr, symmetric]] by blast
        moreover have "read_loop sk deadline (buf @ bs) s1 = (r, s')"
          using less.prems(1) False once Inr go by (simp add: read_loop.simps [of sk deadline buf s])
        ultimately show ?thesis
          using less.hyps P by blast
      qed
    qed
  qed
qed

lemma write_all_rule:
  assumes "P buf s"
    and fail: "\<And>buf s e s'. P buf s \<Longrightarrow> write_once sk deadline buf s = (Inl e, s') \<Longrightarrow> Q (Inl e) s'"
    and more: "\<And>buf s n s'. P buf s \<Longrightarrow> buf \<noteq> [] \<Longrightarrow>
      write_once sk deadline buf s = (Inr n, s') \<Longrightarrow> P (drop n buf) s'"
    and stop: "\<And>s. P [] s \<Longrightarrow> Q (Inr ()) s"
  shows "write_all_until sk deadline buf s = (r, s') \<Longrightarrow> Q r s'"
  using assms(1)
proof (induction "length buf" arbitrary: buf s rule: less_induct)
  case less
  show ?case
  proof (cases "buf = []")
    case True
    then show ?thesis
      using less.prems stop by (auto simp: write_all_until.simps)
  next
    case False
    obtain x s1 where once: "write_once sk deadline buf s = (x, s1)"
      by (cases "write_once sk deadline buf s")
    show ?thesis
    proof (cases x)
      case (Inl e)
      then show ?thesis
        using less.prems False once fail by (auto simp: write_all_until.simps)
    next
      case (Inr n)
      have "length (drop n buf) < length buf"
        using write_once_progress [OF once [unfolded Inr, symmetric] False] .
      moreover have "write_all_until sk deadline (drop n buf) s1 = (r, s')"
        using less.prems(1) False once Inr by (simp add: write_all_until.simps [of sk deadline buf s])
      ultimately show ?thesis
        using less.hyps more [OF less.prems(2) False] once Inr by blast
    qed
  qed
qed

subsection \<open>The deadline\<close>

lemma timed_socketD:
  assumes "timed_socket sk time rto wto"
  shows "sk_now sk s = (t, s') \<Longrightarrow> t = time s \<and> time s' = time s"
    and "sk_set_read_timeout sk s d = (Inr (), s') \<Longrightarrow> rto s' = d"
    and "sk_set_read_timeout sk s d = (u, s') \<Longrightarrow> time s' = time s"
    and "sk_set_write_timeout sk s d = (Inr (), s') \<Longrightarrow> wto s' = d"
    and "sk_set_write_timeout sk s d = (u, s') \<Longrightarrow> time s' = time s"
    and "sk_read sk s n = (r, s') \<Longrightarrow> time s' \<le> time s + rto s"
    and "sk_write sk s bs = (w, s') \<Longrightarrow> time s' \<le> time s + wto s"
    and "sk_flush sk s = (u, s') \<Longrightarrow> time s' = time s"
  using assms by (simp_all add: timed_socket_def)

lemma remaining_budget_time:
  assumes "timed_socket sk time rto wto" "remaining_budget sk deadline s = (r, s')"
  shows "time s' = time s" "r = Inr budget \<Longrightarrow> time s + budget = deadline"
proof -
  obtain now s1 where now: "sk_now sk s = (now, s1)"
    by (cases "sk_now sk s")
  note t = timed_socketD(1) [OF assms(1) now]
  show "time s' = time s" "r = Inr budget \<Longrightarrow> time s + budget = deadline"
    using assms(2) now t by (auto simp: remaining_budget_def Let_def split: if_splits)
qed

lemma read_once_time:
  assumes "timed_socket sk time rto wto" "read_once sk deadline room s = (r, s')"
  shows "time s' \<le> max (time s) deadline"
  using assms(2) timed_socketD(2,3,6) [OF assms(1)] remaining_budget_time [OF assms(1)]
  by (cases rule: read_once_cases) (fastforce simp: max_def)+

lemma write_once_time:
  assumes "timed_socket sk time rto wto" "write_once sk deadline buf s = (r, s')"
  shows "time s' \<le> max (time s) deadline"
  using assms(2) timed_socketD(4,5,7) [OF assms(1)] remaining_budget_time [OF assms(1)]
  by (cases rule: write_once_cases) (fastforce simp: max_def)+

lemma read_loop_time:
  assumes "timed_socket sk time rto wto" "read_loop sk deadline buf s = (r, s')"
  shows "time s' \<le> max (time s) deadline"
  using assms(2)
proof (rule read_loop_rule [where P = "\<lambda>_ s1. time s1 \<le> max (time s) deadline", rotated -1])
qed (use read_once_time [OF assms(1)] in \<open>fastforce+\<close>)

lemma write_all_time:
  assumes "timed_socket sk time rto wto" "write_all_until sk deadline buf s = (r, s')"
  shows "time s' \<le> max (time s) deadline"
  using assms(2)
proof (rule write_all_rule [where P = "\<lambda>_ s1. time s1 \<le> max (time s) deadline", rotated -1])
qed (use write_once_time [OF assms(1)] in \<open>fastforce+\<close>)

lemma serve_time:
  assumes "timed_socket sk time rto wto" "serve_one_until encode sk m deadline s = (r, s')"
  shows "time s' \<le> max (time s) deadline"
proof -
  obtain a s1 where a: "read_loop sk deadline [] s = (a, s1)"
    by (cases "read_loop sk deadline [] s")
  have t1: "time s1 \<le> max (time s) deadline"
    by (rule read_loop_time [OF assms(1) a])
  show ?thesis
  proof (cases a)
    case (Inl e)
    then show ?thesis
      using assms(2) a t1 by (simp add: serve_one_until_def)
  next
    case (Inr request)
    let ?out = "as_bytes (response (route (encode m) request))"
    obtain b s2 where b: "write_all_until sk deadline ?out s1 = (b, s2)"
      by (cases "write_all_until sk deadline ?out s1")
    have "time s2 \<le> max (time s1) deadline"
      by (rule write_all_time [OF assms(1) b])
    then show ?thesis
      using assms(2) a Inr b t1 timed_socketD(8) [OF assms(1), of s2 r s']
      by (auto simp: serve_one_until_def split: sum.splits)
  qed
qed

subsection \<open>The bytes on the wire\<close>

lemma ordered_socketD:
  assumes "ordered_socket sk received sent"
  shows "sk_now sk s = (t, s') \<Longrightarrow> received s' = received s \<and> sent s' = sent s"
    and "sk_set_read_timeout sk s d = (u, s') \<Longrightarrow> received s' = received s \<and> sent s' = sent s"
    and "sk_set_write_timeout sk s d = (u, s') \<Longrightarrow> received s' = received s \<and> sent s' = sent s"
    and "sk_flush sk s = (u, s') \<Longrightarrow> received s' = received s \<and> sent s' = sent s"
    and "sk_read sk s n = (Inl e, s') \<Longrightarrow> received s' = received s \<and> sent s' = sent s"
    and "sk_read sk s n = (Inr bs, s') \<Longrightarrow> received s' = received s @ take n bs \<and> sent s' = sent s"
    and "sk_write sk s out = (Inl e, s') \<Longrightarrow> received s' = received s \<and> sent s' = sent s"
    and "sk_write sk s out = (Inr k, s') \<Longrightarrow>
      k \<le> length out \<and> received s' = received s \<and> sent s' = sent s @ take k out"
  using assms unfolding ordered_socket_def
  by ((elim conjE, metis)[4], (elim conjE, fastforce)+)

lemma eof_socketD:
  assumes "eof_socket sk closed"
  shows "sk_now sk s = (t, s') \<Longrightarrow> closed s \<Longrightarrow> closed s'"
    and "sk_set_write_timeout sk s d = (u, s') \<Longrightarrow> closed s \<Longrightarrow> closed s'"
    and "sk_write sk s bs = (n, s') \<Longrightarrow> closed s \<Longrightarrow> closed s'"
    and "sk_flush sk s = (u, s') \<Longrightarrow> closed s \<Longrightarrow> closed s'"
    and "sk_read sk s room = (Inr [], s') \<Longrightarrow> 0 < room \<Longrightarrow> closed s'"
  using assms unfolding eof_socket_def by blast+

lemma read_once_eof:
  assumes "eof_socket sk closed" "read_once sk deadline room s = (Inr [], s')" "0 < room"
  shows "closed s'"
  using assms(2)
proof (cases rule: read_once_cases)
  case (Read budget s1 s2 bs)
  then have "bs = []"
    using assms(3) by simp
  then show ?thesis
    using eof_socketD(5) [OF assms(1)] Read(3) assms(3) by blast
qed simp_all

lemma write_once_eof:
  assumes "eof_socket sk closed" "write_once sk deadline buf s = (r, s')" "closed s"
  shows "closed s'"
proof -
  have budget: "closed s1" if "remaining_budget sk deadline s = (x, s1)" for x s1
    using that assms(3) eof_socketD(1) [OF assms(1)]
    by (auto simp: remaining_budget_def Let_def split: prod.splits if_splits)
  from assms(2) show ?thesis
    by (cases rule: write_once_cases)
      (use budget eof_socketD(2,3) [OF assms(1)] in \<open>blast+\<close>)
qed

lemma write_all_eof:
  assumes "eof_socket sk closed" "write_all_until sk deadline out s = (r, s')" "closed s"
  shows "closed s'"
  using assms(2)
  by (rule write_all_rule [where P = "\<lambda>_ s1. closed s1", rotated -1])
    (use write_once_eof [OF assms(1)] assms(3) in \<open>blast+\<close>)

lemma remaining_budget_bytes:
  assumes "ordered_socket sk received sent" "remaining_budget sk deadline s = (r, s')"
  shows "received s' = received s \<and> sent s' = sent s"
proof -
  obtain now s1 where now: "sk_now sk s = (now, s1)"
    by (cases "sk_now sk s")
  then show ?thesis
    using assms(2) ordered_socketD(1) [OF assms(1) now]
    by (auto simp: remaining_budget_def Let_def split: if_splits)
qed

lemma read_once_bytes:
  assumes "ordered_socket sk received sent" "read_once sk deadline room s = (r, s')"
  shows "sent s' = sent s \<and> received s' = received s @ (case r of Inl _ \<Rightarrow> [] | Inr bs \<Rightarrow> bs)"
  using assms(2)
proof (cases rule: read_once_cases)
  case (Budget e)
  then show ?thesis
    using remaining_budget_bytes [OF assms(1)] by simp
next
  case (Timeout budget s1 e)
  then show ?thesis
    using remaining_budget_bytes [OF assms(1)] ordered_socketD(2) [OF assms(1)] by fastforce
next
  case (Fail budget s1 s2 e)
  then show ?thesis
    using remaining_budget_bytes [OF assms(1) Fail(1)] ordered_socketD(2) [OF assms(1) Fail(2)]
      ordered_socketD(5) [OF assms(1) Fail(3)] by simp
next
  case (Read budget s1 s2 bs)
  then show ?thesis
    using remaining_budget_bytes [OF assms(1) Read(1)] ordered_socketD(2) [OF assms(1) Read(2)]
      ordered_socketD(6) [OF assms(1) Read(3)] by simp
qed

lemma write_once_bytes:
  assumes "ordered_socket sk received sent" "write_once sk deadline buf s = (r, s')"
  shows "received s' = received s \<and>
    (case r of Inl _ \<Rightarrow> sent s' = sent s | Inr n \<Rightarrow> n \<le> length buf \<and> sent s' = sent s @ take n buf)"
  using assms(2)
proof (cases rule: write_once_cases)
  case (Budget e)
  then show ?thesis
    using remaining_budget_bytes [OF assms(1)] by simp
next
  case (Timeout budget s1 e)
  then show ?thesis
    using remaining_budget_bytes [OF assms(1)] ordered_socketD(3) [OF assms(1)] by fastforce
next
  case (Fail budget s1 s2 e)
  then show ?thesis
    using remaining_budget_bytes [OF assms(1) Fail(1)] ordered_socketD(3) [OF assms(1) Fail(2)]
      ordered_socketD(7) [OF assms(1) Fail(3)] by simp
next
  case (Zero budget s1 s2)
  then show ?thesis
    using remaining_budget_bytes [OF assms(1) Zero(1)] ordered_socketD(3) [OF assms(1) Zero(2)]
      ordered_socketD(8) [OF assms(1) Zero(3)] by simp
next
  case (Written budget s1 s2 n)
  then show ?thesis
    using remaining_budget_bytes [OF assms(1) Written(1)] ordered_socketD(3) [OF assms(1) Written(2)]
      ordered_socketD(8) [OF assms(1) Written(3)] by simp
qed

lemma read_loop_bytes:
  assumes "ordered_socket sk received sent" "eof_socket sk closed" "read_loop sk deadline [] s = (r, s')"
  shows "sent s' = sent s \<and>
    (\<exists>taken. length taken \<le> BUF_LEN \<and> received s' = received s @ taken \<and>
      (\<forall>request. r = Inr request \<longrightarrow> taken = request \<and> request_over closed s' request))"
  using assms(3)
proof (rule read_loop_rule [where P = "\<lambda>buf s1. length buf \<le> BUF_LEN \<and> sent s1 = sent s \<and>
      received s1 = received s @ buf", rotated -1])
  fix buf s1 bs s2
  assume "length buf \<le> BUF_LEN \<and> sent s1 = sent s \<and> received s1 = received s @ buf"
    and once: "read_once sk deadline (BUF_LEN - length buf) s1 = (Inr bs, s2)"
  then show "length (buf @ bs) \<le> BUF_LEN \<and> sent s2 = sent s \<and> received s2 = received s @ buf @ bs"
    using read_once_bytes [OF assms(1) once] read_once_room [OF once] by auto
next
  fix buf s1 e s2
  assume "length buf \<le> BUF_LEN \<and> sent s1 = sent s \<and> received s1 = received s @ buf"
    and once: "read_once sk deadline (BUF_LEN - length buf) s1 = (Inl e, s2)"
  then show "sent s2 = sent s \<and>
      (\<exists>taken. length taken \<le> BUF_LEN \<and> received s2 = received s @ taken \<and>
        (\<forall>request. Inl e = Inr request \<longrightarrow> taken = request \<and> request_over closed s2 request))"
    using read_once_bytes [OF assms(1) once] by auto
next
  fix buf s1
  assume P: "length buf \<le> BUF_LEN \<and> sent s1 = sent s \<and> received s1 = received s @ buf"
    and why: "length buf = BUF_LEN \<or> end_of_headers buf \<or>
      (\<exists>s0. length buf \<noteq> BUF_LEN \<and> read_once sk deadline (BUF_LEN - length buf) s0 = (Inr [], s1))"
  have "closed s1" if "length buf \<noteq> BUF_LEN" "read_once sk deadline (BUF_LEN - length buf) s0 = (Inr [], s1)" for s0
    by (rule read_once_eof [OF assms(2) that(2)]) (use that(1) P in simp)
  then have "request_over closed s1 buf"
    using why by (auto simp: request_over_def)
  then show "sent s1 = sent s \<and>
      (\<exists>taken. length taken \<le> BUF_LEN \<and> received s1 = received s @ taken \<and>
        (\<forall>request. Inr buf = Inr request \<longrightarrow> taken = request \<and> request_over closed s1 request))"
    using P by auto
qed simp

lemma write_all_bytes:
  assumes "ordered_socket sk received sent" "write_all_until sk deadline out s = (r, s')"
  shows "received s' = received s \<and>
    (\<exists>k. sent s' = sent s @ take k out \<and> (r = Inr () \<longrightarrow> k = length out))"
  using assms(2)
proof (rule write_all_rule [where P = "\<lambda>buf s1. received s1 = received s \<and>
      (\<exists>k \<le> length out. buf = drop k out \<and> sent s1 = sent s @ take k out)", rotated -1])
  fix buf s1 n s2
  assume P: "received s1 = received s \<and>
      (\<exists>k \<le> length out. buf = drop k out \<and> sent s1 = sent s @ take k out)"
    and once: "write_once sk deadline buf s1 = (Inr n, s2)"
  then obtain k where "k \<le> length out" "buf = drop k out" "sent s1 = sent s @ take k out"
    by blast
  moreover have "take (k + n) out = take k out @ take n (drop k out)"
    by (simp add: take_add)
  ultimately show "received s2 = received s \<and>
      (\<exists>k \<le> length out. drop n buf = drop k out \<and> sent s2 = sent s @ take k out)"
    using P write_once_bytes [OF assms(1) once]
    by (auto intro!: exI [of _ "k + n"] simp: add.commute)
next
  fix buf s1 e s2
  assume "received s1 = received s \<and>
      (\<exists>k \<le> length out. buf = drop k out \<and> sent s1 = sent s @ take k out)"
    and once: "write_once sk deadline buf s1 = (Inl e, s2)"
  then show "received s2 = received s \<and>
      (\<exists>k. sent s2 = sent s @ take k out \<and> (Inl e = Inr () \<longrightarrow> k = length out))"
    using write_once_bytes [OF assms(1) once] by auto
qed auto

lemma serve_bytes:
  assumes "ordered_socket sk received sent" "eof_socket sk closed" "serve_one_until encode sk m deadline s = (r, s')"
  shows "\<exists>taken k. length taken \<le> BUF_LEN \<and> received s' = received s @ taken \<and>
    sent s' = sent s @ take k (as_bytes (response (route (encode m) taken))) \<and>
    (0 < k \<longrightarrow> request_over closed s' taken) \<and>
    (r = Inr () \<longrightarrow> k = length (as_bytes (response (route (encode m) taken))))"
proof -
  obtain a s1 where a: "read_loop sk deadline [] s = (a, s1)"
    by (cases "read_loop sk deadline [] s")
  obtain taken where A: "sent s1 = sent s" "length taken \<le> BUF_LEN" "received s1 = received s @ taken"
    "\<And>request. a = Inr request \<Longrightarrow> taken = request \<and> request_over closed s1 request"
    using read_loop_bytes [OF assms(1,2) a] by blast
  show ?thesis
  proof (cases a)
    case (Inl e)
    then have "s' = s1" "r = Inl e"
      using assms(3) a by (auto simp: serve_one_until_def)
    then show ?thesis
      using A(1-3) by (intro exI [of _ taken] exI [of _ 0]) simp
  next
    case (Inr request)
    let ?out = "as_bytes (response (route (encode m) request))"
    note taken = A(4) [OF Inr]
    obtain b s2 where b: "write_all_until sk deadline ?out s1 = (b, s2)"
      by (cases "write_all_until sk deadline ?out s1")
    obtain k where k: "received s2 = received s1" "sent s2 = sent s1 @ take k ?out" "b = Inr () \<longrightarrow> k = length ?out"
      using write_all_bytes [OF assms(1) b] by blast
    have c2: "closed s1 \<Longrightarrow> closed s2"
      by (rule write_all_eof [OF assms(2) b])
    have end_state: "received s' = received s2 \<and> sent s' = sent s2 \<and> (closed s2 \<longrightarrow> closed s') \<and> (r = Inr () \<longrightarrow> b = Inr ())"
    proof (cases b)
      case (Inl e)
      then show ?thesis
        using assms(3) a Inr b \<open>a = Inr request\<close> by (auto simp: serve_one_until_def)
    next
      case (Inr u)
      then have "sk_flush sk s2 = (r, s')"
        using assms(3) a b \<open>a = Inr request\<close> by (auto simp: serve_one_until_def)
      then show ?thesis
        using ordered_socketD(4) [OF assms(1)] eof_socketD(4) [OF assms(2)] Inr by auto
    qed
    have "request_over closed s' taken"
      using taken c2 end_state by (auto simp: request_over_def)
    then show ?thesis
      using A(1-3) k end_state taken by (intro exI [of _ taken] exI [of _ k]) auto
  qed
qed

subsection \<open>The header\<close>

lemma decimal_nonempty [simp]: "decimal n \<noteq> []"
  by (subst decimal.simps) simp

lemma undecimal_snoc: "undecimal (str @ [c]) = 10 * undecimal str + (of_char c - 48)"
  by (simp add: undecimal_def)

declare decimal.simps [simp del]

lemma undecimal_decimal: "undecimal (decimal n) = n"
proof (induction n rule: decimal.induct)
  case (1 n)
  show ?case
  proof (cases "n < 10")
    case True
    then show ?thesis
      by (simp add: decimal.simps [of n] undecimal_def)
  next
    case False
    then show ?thesis
      using 1 by (simp add: decimal.simps [of n] undecimal_snoc)
  qed
qed

lemma decimal_digits: "c \<in> set (decimal n) \<Longrightarrow> 48 \<le> (of_char c :: nat) \<and> (of_char c :: nat) < 58"
proof (induction n rule: decimal.induct)
  case (1 n)
  then show ?case
    by (cases "n < 10") (auto simp: decimal.simps [of n])
qed

lemma as_bytes_append [simp]: "as_bytes (a @ b) = as_bytes a @ as_bytes b"
  by (simp add: as_bytes_def)

lemma as_bytes_eol: "as_bytes eol = CRLF"
  by (simp add: as_bytes_def eol_def CRLF_def)

lemma find_blank_skip:
  "0x0D \<notin> set xs \<Longrightarrow>
   find_window (CRLF @ CRLF) (xs @ ys) = map_option ((+) (length xs)) (find_window (CRLF @ CRLF) ys)"
proof (induction xs)
  case Nil
  show ?case
    by (cases "find_window (CRLF @ CRLF) ys") simp_all
next
  case (Cons x xs)
  then show ?case
    by (cases "find_window (CRLF @ CRLF) ys") (simp_all add: CRLF_def)
qed

lemma find_blank_eol:
  "c \<noteq> 0x0D \<Longrightarrow>
   find_window (CRLF @ CRLF) (CRLF @ c # ys) = map_option ((+) 2) (find_window (CRLF @ CRLF) (c # ys))"
  by (auto simp: CRLF_def option.map_comp comp_def)

lemma find_blank_here: "find_window (CRLF @ CRLF) (CRLF @ CRLF @ ys) = Some 0"
  by (simp add: CRLF_def)

text \<open>A line of the header and what follows it.\<close>

lemma find_blank_line:
  assumes "0x0D \<notin> set line" "next \<noteq> []" "hd next \<noteq> 0x0D"
  shows "find_window (CRLF @ CRLF) (line @ CRLF @ next) =
    map_option ((+) (length line + 2)) (find_window (CRLF @ CRLF) next)"
  using assms find_blank_eol [of "hd next" "tl next"]
  by (cases "find_window (CRLF @ CRLF) next") (simp_all add: find_blank_skip)

lemma decimal_plain: "plain (decimal n)"
proof -
  have "(of_nat (of_char c) :: u8) \<noteq> 0x0D" if "c \<in> set (decimal n)" for c
  proof -
    have "(of_char c :: nat) \<noteq> 13" "(of_char c :: nat) < 256"
      using decimal_digits [OF that] by auto
    then show ?thesis
      by (simp add: word_unat_eq_iff unat_of_nat)
  qed
  then show ?thesis
    by (auto simp: plain_def as_bytes_def)
qed

lemma plain_append: "plain (a @ b) \<longleftrightarrow> plain a \<and> plain b"
  by (auto simp: plain_def)

lemma plain_words:
  "plain ''HTTP/1.1 ''" "plain ''Content-Type: ''" "plain ''Content-Length: ''" "plain ''Connection: close''"
  by (simp_all add: plain_def as_bytes_def)

lemma find_blank_four:
  assumes "0x0D \<notin> set l1" "0x0D \<notin> set l2" "0x0D \<notin> set l3" "0x0D \<notin> set l4"
    and "l2 \<noteq> []" "l3 \<noteq> []" "l4 \<noteq> []"
  shows "find_window (CRLF @ CRLF) (l1 @ CRLF @ l2 @ CRLF @ l3 @ CRLF @ l4 @ CRLF @ CRLF @ rest) =
    Some (length l1 + 2 + (length l2 + 2 + (length l3 + 2 + length l4)))"
proof -
  have hd: "hd l \<noteq> 0x0D" if "0x0D \<notin> set l" "l \<noteq> []" for l :: bytes
    using that by (cases l) auto
  show ?thesis
    using assms by (simp add: find_blank_line hd_append hd find_blank_skip [of l4] find_blank_here)
qed

text \<open>The blank line of a response is the one before its body.\<close>

lemma response_framing:
  assumes "plain status" "plain content_type"
  shows "find_window (CRLF @ CRLF) (as_bytes (response (status, content_type, body))) =
    Some (length (response_head (status, content_type, body)))"
proof -
  let ?l1 = "as_bytes (''HTTP/1.1 '' @ status)" and ?l2 = "as_bytes (''Content-Type: '' @ content_type)"
    and ?l3 = "as_bytes (''Content-Length: '' @ decimal (length body))"
    and ?l4 = "as_bytes ''Connection: close''"
  have lines: "0x0D \<notin> set ?l1" "0x0D \<notin> set ?l2" "0x0D \<notin> set ?l3" "0x0D \<notin> set ?l4"
    using assms plain_words decimal_plain [of "length body"]
    by (simp_all only: plain_append plain_def [symmetric])
  have filled: "?l2 \<noteq> []" "?l3 \<noteq> []" "?l4 \<noteq> []"
    by (simp_all add: as_bytes_def)
  have bytes: "as_bytes (response (status, content_type, body)) =
      ?l1 @ CRLF @ ?l2 @ CRLF @ ?l3 @ CRLF @ ?l4 @ CRLF @ CRLF @ as_bytes body"
    by (simp only: response_def prod.case as_bytes_append as_bytes_eol append_assoc)
  have "length (response_head (status, content_type, body)) =
      length ?l1 + 2 + (length ?l2 + 2 + (length ?l3 + 2 + length ?l4))"
    by (simp add: response_head_def eol_def as_bytes_def)
  then show ?thesis
    unfolding bytes find_blank_four [OF lines filled] by simp
qed

lemma response_split: "response r = response_head r @ eol @ eol @ snd (snd r)"
  by (cases r) (simp add: response_def response_head_def)

lemma route_plain: "plain (fst (route encoded request))" "plain (fst (snd (route encoded request)))"
  by (simp_all add: route_def Let_def plain_def as_bytes_def)

subsection \<open>Routing\<close>

lemma find_eol_skip:
  "0x0D \<notin> set xs \<Longrightarrow> find_window CRLF (xs @ CRLF @ ys) = Some (length xs)"
  by (induction xs) (auto simp: CRLF_def)

lemma split_on_skip: "c \<notin> set xs \<Longrightarrow> split_on c (xs @ c # ys) = xs # split_on c ys"
  by (induction xs) auto

lemma request_line_parts:
  fixes verb path version rest :: bytes
  assumes "SPACE \<notin> set verb" "SPACE \<notin> set path" "0x0D \<notin> set verb" "0x0D \<notin> set path" "0x0D \<notin> set version"
  defines "line \<equiv> request_line (verb @ SPACE # path @ SPACE # version @ CRLF @ rest)"
  shows "nth_part 0 line = verb" "nth_part 1 line = path"
proof -
  have "0x0D \<notin> set (verb @ SPACE # path @ SPACE # version)"
    using assms by (auto simp: SPACE_def)
  then have line: "line = verb @ SPACE # path @ SPACE # version"
    using find_eol_skip [of "verb @ SPACE # path @ SPACE # version" rest]
    by (simp add: line_def request_line_def)
  show "nth_part 0 line = verb" "nth_part 1 line = path"
    using assms(1-5) by (simp_all add: line nth_part_def Let_def split_on_skip)
qed

lemma starts_with_iff: "starts_with bs pre \<longleftrightarrow> (\<exists>rest. bs = pre @ rest)"
  unfolding starts_with_def by (metis append_eq_conv_conj append_take_drop_id)

text \<open>
  Of a well-formed request line only the verb and the path matter: a verb other than GET is
  405; a GET of the metrics path, with or without a query, is 200 with the rendered
  registry; any other GET is 404.
\<close>

lemma route_request:
  fixes verb path version rest :: bytes and encoded :: string
  assumes "SPACE \<notin> set verb" "SPACE \<notin> set path"
    and "0x0D \<notin> set verb" "0x0D \<notin> set path" "0x0D \<notin> set version"
  defines "r \<equiv> route encoded (verb @ SPACE # path @ SPACE # version @ CRLF @ rest)"
  shows "if verb \<noteq> as_bytes ''GET'' then fst r = ''405 Method Not Allowed''
    else if path = as_bytes ''/metrics'' \<or> (\<exists>query. path = as_bytes ''/metrics?'' @ query)
    then fst r = ''200 OK'' \<and> snd (snd r) = encoded
    else fst r = ''404 Not Found''"
  unfolding r_def route_def Let_def request_line_parts [OF assms(1-5)] starts_with_iff by simp

subsection \<open>The scripted client keeps the promises\<close>

lemma script_socket_timed: "timed_socket script_socket sc_time sc_rto sc_wto"
  by (auto simp: timed_socket_def script_socket_def Let_def split: list.splits prod.splits if_splits)

lemma script_socket_ordered: "ordered_socket script_socket sc_received sc_sent"
  by (auto simp: ordered_socket_def script_socket_def Let_def split: list.splits prod.splits if_splits sum.splits)

lemma script_socket_eof: "eof_socket script_socket (\<lambda>s. sc_in s = [])"
  by (auto simp: eof_socket_def script_socket_def Let_def split: list.splits prod.splits if_splits)

section \<open>Properties\<close>

text \<open>
  C17. A scrape is over within five seconds of its start, however slowly the client sends its
  request or takes the response: the deadline is the connection's, not a system call's.
\<close>

theorem scrape_deadline:
  assumes "timed_socket sk time rto wto" "serve_one encode sk m s = (r, s')"
  shows "time s' \<le> time s + SCRAPE_IO_TIMEOUT"
proof -
  obtain now s1 where now: "sk_now sk s = (now, s1)"
    by (cases "sk_now sk s")
  then have "now = time s" "time s1 = time s"
    using timed_socketD(1) [OF assms(1) now] by auto
  then show ?thesis
    using assms(2) now serve_time [OF assms(1), of encode m "now + SCRAPE_IO_TIMEOUT" s1 r s']
    by (simp add: serve_one_def)
qed

lemma slow_client_run:
  "serve_one encode script_socket m slow_client =
     (Inl TimedOut, slow_client\<lparr>sc_time := 5000000007, sc_rto := 4000000000,
        sc_in := [(3600000000000, as_bytes ''ET'')], sc_received := as_bytes ''G''\<rparr>)"
  by (simp add: serve_one_def serve_one_until_def read_loop.simps read_once_def remaining_budget_def Let_def
      script_socket_def slow_client_def SCRAPE_IO_TIMEOUT_def BUF_LEN_def as_bytes_def end_of_headers_def CRLF_def)

theorem scrape_deadline_witness:
  "sc_time (slow_client\<lparr>sc_time := 5000000007, sc_rto := 4000000000,
        sc_in := [(3600000000000, as_bytes ''ET'')], sc_received := as_bytes ''G''\<rparr>)
     \<le> sc_time slow_client + SCRAPE_IO_TIMEOUT"
  by (rule scrape_deadline [OF script_socket_timed slow_client_run [of "\<lambda>_. []" "[]"]])

text \<open>
  C18. The bytes of a scrape, whether it succeeds or fails: at most 4096 bytes are taken from
  the client, what is sent is a prefix of the response routed for exactly these bytes, nothing is
  sent before the request is over (its headers end, the buffer is full, or the client has
  closed its side), and when the scrape succeeds the whole response was sent.
\<close>

theorem scrape_wire:
  assumes "ordered_socket sk received sent" "eof_socket sk closed"
    and "serve_one_until encode sk m deadline s = (r, s')"
  shows "\<exists>taken k. length taken \<le> BUF_LEN \<and> received s' = received s @ taken \<and>
    sent s' = sent s @ take k (as_bytes (response (route (encode m) taken))) \<and>
    (0 < k \<longrightarrow> request_over closed s' taken) \<and>
    (r = Inr () \<longrightarrow> k = length (as_bytes (response (route (encode m) taken))))"
  by (rule serve_bytes [OF assms])

lemma decimal_length: "length (decimal n) \<le> Suc n"
proof (induction n rule: decimal.induct)
  case (1 n)
  then show ?case
    by (cases "n < 10") (auto simp: decimal.simps [of n])
qed

lemma prompt_client_run: "fst (serve_one_until (\<lambda>_. ''# EOF'') script_socket [] 100 prompt_client) = Inr ()"
proof -
  let ?request = "as_bytes ''GET /metrics HTTP/1.1'' @ CRLF @ CRLF"
  let ?s = "prompt_client\<lparr>sc_time := 21, sc_rto := 88, sc_in := [], sc_received := ?request\<rparr>"
  let ?out = "as_bytes (response (route ''# EOF'' ?request))"
  have read: "read_loop script_socket 100 [] prompt_client = (Inr ?request, ?s)"
    by (simp add: read_loop.simps read_once_def remaining_budget_def Let_def script_socket_def
        prompt_client_def BUF_LEN_def as_bytes_def end_of_headers_def CRLF_def)
  have "fst (write_all_until script_socket 100 out ?s) = Inr ()" if "length out \<le> 1000" for out
    using that by (cases "out = []") (simp_all add: write_all_until.simps write_once_def remaining_budget_def
        Let_def script_socket_def prompt_client_def)
  moreover have "length ?out \<le> 1000"
    by (simp add: response_def route_def Let_def as_bytes_def eol_def le_trans [OF decimal_length])
  ultimately obtain s2 where sent: "write_all_until script_socket 100 ?out ?s = (Inr (), s2)"
    by (metis prod.collapse)
  show ?thesis
    unfolding serve_one_until_def read prod.case sum.case sent by (simp add: script_socket_def)
qed

theorem scrape_wire_witness:
  "\<exists>taken. length taken \<le> BUF_LEN \<and>
     sc_received (snd (serve_one_until (\<lambda>_. ''# EOF'') script_socket [] 100 prompt_client)) = taken \<and>
     sc_sent (snd (serve_one_until (\<lambda>_. ''# EOF'') script_socket [] 100 prompt_client)) =
       as_bytes (response (route ''# EOF'' taken))"
  using scrape_wire [OF script_socket_ordered script_socket_eof prod.collapse [symmetric],
      of "\<lambda>_. ''# EOF''" "[]" 100 prompt_client] prompt_client_run
  by (auto simp: prompt_client_def)


end
