(* ===== verification/Watcher.thy ===== *)
theory Watcher
  imports Paths
begin

text \<open>
  The reload watcher, watcher.rs: arming the watches and the debounce thread.

  \<open>spawn\<close> resolves what the thread captures (\<open>watch\<close>). The thread is a state machine:
  \<open>watch_step\<close> runs it from one blocking point, clock reading or closure call to the next,
  on the channel, the clock and the program counter. Around it the environment sends
  events, lets time pass and may drop the sender (\<open>watch_env\<close>); \<open>watch_next\<close>
  interleaves the two. Calls of the injected closures are recorded in \<open>wt_actions\<close>.
  File system, notify and the thread builder are parameters. Times are nanoseconds; reading
  the age of a batch and starting the wait that depends on it are one step, at one time.
\<close>

section \<open>Definitions\<close>

datatype reload_trigger = Config | UdfSwap

fun trigger_as_str :: "reload_trigger \<Rightarrow> string" where
  "trigger_as_str Config = ''config''"
| "trigger_as_str UdfSwap = ''udf-swap''"

definition DEBOUNCE :: nat where "DEBOUNCE = 200 * 1000000"
definition MAX_BATCH_AGE :: nat where "MAX_BATCH_AGE = 2 * 1000000000"

record plan =
  pl_config_path :: path
  pl_udf_dir :: "path option"
  pl_debounce :: nat
  pl_max_batch_age :: nat

definition plan_new :: "path \<Rightarrow> path option \<Rightarrow> plan" where
  "plan_new config_path udf =
     \<lparr>pl_config_path = config_path, pl_udf_dir = udf, pl_debounce = DEBOUNCE, pl_max_batch_age = MAX_BATCH_AGE\<rparr>"

subsection \<open>Arming the watches\<close>

text \<open>What the thread's closures capture.\<close>

record watch =
  wc_config_dir :: path
  wc_config_name :: bytes
  wc_udf_dir :: "path option"
  wc_debounce :: nat
  wc_max_batch_age :: nat

datatype spawn_error =
    NoParent path
  | ConfigDirNotWatchable path io_error
  | NoFileName path
  | UdfDirNotWatchable path io_error
  | WatcherInit nat
  | WatchFailed path nat
  | ThreadFailed io_error

text \<open>The watches of notify: the answers to creating a watcher and to watching a directory.\<close>

record notifier =
  nt_init :: "nat + unit"
  nt_watch :: "path \<Rightarrow> nat + unit"

definition non_empty :: "path \<Rightarrow> bool" where
  "non_empty p \<longleftrightarrow> p_root p \<or> p_comps p \<noteq> []"

definition watched_parent :: "path \<Rightarrow> path option" where
  "watched_parent p = Option.bind (parent p) (\<lambda>d. if non_empty d then Some d else None)"

definition resolve_udf :: "file_system \<Rightarrow> path option \<Rightarrow> spawn_error + path option" where
  "resolve_udf fs udf =
     (case udf of
        Some dir \<Rightarrow> and_then (map_err (UdfDirNotWatchable dir) (canonicalize fs dir)) (\<lambda>d. Inr (Some d))
      | None \<Rightarrow> Inr None)"

definition watch_dir :: "notifier \<Rightarrow> path \<Rightarrow> spawn_error + unit" where
  "watch_dir nt dir = map_err (WatchFailed dir) (nt_watch nt dir)"

definition spawn :: "file_system \<Rightarrow> notifier \<Rightarrow> (io_error + unit) \<Rightarrow> plan \<Rightarrow> spawn_error + watch" where
  "spawn fs nt thread plan =
     and_then (ok_or (NoParent (pl_config_path plan)) (watched_parent (pl_config_path plan))) (\<lambda>dir.
     and_then (map_err (ConfigDirNotWatchable (pl_config_path plan)) (canonicalize fs dir)) (\<lambda>config_dir.
     and_then (ok_or (NoFileName (pl_config_path plan)) (file_name (pl_config_path plan))) (\<lambda>config_name.
     and_then (resolve_udf fs (pl_udf_dir plan)) (\<lambda>udf.
     and_then (map_err WatcherInit (nt_init nt)) (\<lambda>_.
     and_then (watch_dir nt config_dir) (\<lambda>_.
     and_then (case udf of Some dir \<Rightarrow> watch_dir nt dir | None \<Rightarrow> Inr ()) (\<lambda>_.
     and_then (map_err ThreadFailed thread) (\<lambda>_.
       Inr \<lparr>wc_config_dir = config_dir, wc_config_name = config_name, wc_udf_dir = udf,
            wc_debounce = pl_debounce plan, wc_max_batch_age = pl_max_batch_age plan\<rparr>))))))))"

subsection \<open>What an event touches\<close>

text \<open>A notify event, by the paths it carries.\<close>

type_synonym event = "path list"

definition touches_config :: "watch \<Rightarrow> event \<Rightarrow> bool" where
  "touches_config w ev \<longleftrightarrow>
     list_ex (\<lambda>p. parent p = Some (wc_config_dir w) \<and> file_name p = Some (wc_config_name w)) ev"

definition touches_udf :: "watch \<Rightarrow> event \<Rightarrow> bool" where
  "touches_udf w ev \<longleftrightarrow>
     (case wc_udf_dir w of
        None \<Rightarrow> False
      | Some dir \<Rightarrow> list_ex (\<lambda>p. p = dir \<or> parent p = Some dir \<and> has_wasm_extension p) ev)"

subsection \<open>The debounce thread\<close>

datatype action = Rescan | Reload reload_trigger

text \<open>
  The program counter: before \<open>recv\<close>; with the first event, before the clock is read; at
  the head of the inner loop; in \<open>recv_timeout\<close>, which gives up at the given instant; with
  the batch closed; after the rescan; returned. A batch carries its start and its flags.
\<close>

datatype watch_pc =
    AwaitFirst
  | Opened event
  | InBatch nat bool bool
  | Waiting nat bool bool nat
  | Acting bool bool
  | Requesting bool bool
  | Returned

record watcher =
  wt_pc :: watch_pc
  wt_queue :: "event list"
  wt_clock :: nat
  wt_closed :: bool
  wt_sent :: "event list"
  wt_actions :: "action list"

definition watcher_new :: "nat \<Rightarrow> watcher" where
  "watcher_new now =
     \<lparr>wt_pc = AwaitFirst, wt_queue = [], wt_clock = now, wt_closed = False, wt_sent = [], wt_actions = []\<rparr>"

text \<open>\<open>None\<close> when the thread is blocked or has returned.\<close>

definition watch_step :: "watch \<Rightarrow> watcher \<Rightarrow> watcher option" where
  "watch_step w s =
     (case wt_pc s of
        AwaitFirst \<Rightarrow>
          (case wt_queue s of
             first # rest \<Rightarrow> Some (s\<lparr>wt_pc := Opened first, wt_queue := rest\<rparr>)
           | [] \<Rightarrow> if wt_closed s then Some (s\<lparr>wt_pc := Returned\<rparr>) else None)
      | Opened first \<Rightarrow>
          Some (s\<lparr>wt_pc := InBatch (wt_clock s) (touches_config w first) (touches_udf w first)\<rparr>)
      | InBatch batch_start config_dirty udf_dirty \<Rightarrow>
          (let elapsed = wt_clock s - batch_start in
           if wc_max_batch_age w \<le> elapsed then Some (s\<lparr>wt_pc := Acting config_dirty udf_dirty\<rparr>)
           else
             (let wait = min (wc_debounce w) (wc_max_batch_age w - elapsed) in
              Some (s\<lparr>wt_pc := Waiting batch_start config_dirty udf_dirty (wt_clock s + wait)\<rparr>)))
      | Waiting batch_start config_dirty udf_dirty until \<Rightarrow>
          (case wt_queue s of
             ev # rest \<Rightarrow>
               Some (s\<lparr>wt_pc := InBatch batch_start (config_dirty \<or> touches_config w ev)
                         (udf_dirty \<or> touches_udf w ev), wt_queue := rest\<rparr>)
           | [] \<Rightarrow>
               if wt_closed s then Some (s\<lparr>wt_pc := Returned\<rparr>)
               else if until \<le> wt_clock s then Some (s\<lparr>wt_pc := Acting config_dirty udf_dirty\<rparr>)
               else None)
      | Acting config_dirty udf_dirty \<Rightarrow>
          Some (s\<lparr>wt_pc := Requesting config_dirty udf_dirty,
                  wt_actions := wt_actions s @ (if udf_dirty then [Rescan] else [])\<rparr>)
      | Requesting config_dirty udf_dirty \<Rightarrow>
          Some (s\<lparr>wt_pc := AwaitFirst,
                  wt_actions := wt_actions s @
                    (if config_dirty \<or> udf_dirty then [Reload (if udf_dirty then UdfSwap else Config)] else [])\<rparr>)
      | Returned \<Rightarrow> None)"

text \<open>The watcher's callback: an event is sent, an error dropped.\<close>

definition on_notify :: "nat + event \<Rightarrow> watcher \<Rightarrow> watcher" where
  "on_notify res s =
     (case res of
        Inr ev \<Rightarrow> s\<lparr>wt_queue := wt_queue s @ [ev], wt_sent := wt_sent s @ [ev]\<rparr>
      | Inl _ \<Rightarrow> s)"

inductive watch_env :: "watcher \<Rightarrow> watcher \<Rightarrow> bool" where
  Notify: "\<not> wt_closed s \<Longrightarrow> watch_env s (on_notify res s)"
| Tick: "watch_env s (s\<lparr>wt_clock := wt_clock s + d\<rparr>)"
| Close: "watch_env s (s\<lparr>wt_closed := True\<rparr>)"

inductive watch_next :: "watch \<Rightarrow> watcher \<Rightarrow> watcher \<Rightarrow> bool" for w where
  Thread: "watch_step w s = Some s' \<Longrightarrow> watch_next w s s'"
| Env: "watch_env s s' \<Longrightarrow> watch_next w s s'"

subsection \<open>What the watcher promises\<close>

text \<open>What one batch of events asks for.\<close>

definition batch_actions :: "watch \<Rightarrow> event list \<Rightarrow> action list" where
  "batch_actions w evs =
     (if list_ex (touches_udf w) evs then [Rescan, Reload UdfSwap]
      else if list_ex (touches_config w) evs then [Reload Config]
      else [])"

text \<open>
  The events of the batch the thread is working on, as its state tells them: those not in
  a finished batch and not in the channel. \<open>flags_of\<close> is what the flags must say of them.
\<close>

definition flags_of :: "watch \<Rightarrow> bool \<Rightarrow> bool \<Rightarrow> event list \<Rightarrow> bool" where
  "flags_of w c u evs \<longleftrightarrow>
     evs \<noteq> [] \<and> c = list_ex (touches_config w) evs \<and> u = list_ex (touches_udf w) evs"

fun at_batch :: "watch \<Rightarrow> watch_pc \<Rightarrow> event list \<Rightarrow> action list \<Rightarrow> bool" where
  "at_batch w AwaitFirst evs done \<longleftrightarrow> evs = [] \<and> done = []"
| "at_batch w (Opened first) evs done \<longleftrightarrow> evs = [first] \<and> done = []"
| "at_batch w (InBatch b c u) evs done \<longleftrightarrow> flags_of w c u evs \<and> done = []"
| "at_batch w (Waiting b c u until) evs done \<longleftrightarrow> flags_of w c u evs \<and> done = []"
| "at_batch w (Acting c u) evs done \<longleftrightarrow> flags_of w c u evs \<and> done = []"
| "at_batch w (Requesting c u) evs done \<longleftrightarrow> flags_of w c u evs \<and> done = (if u then [Rescan] else [])"
| "at_batch w Returned evs done \<longleftrightarrow> done = []"

text \<open>The waits of a batch: none ends after the batch's age limit or a quiet period.\<close>

fun timely :: "watch \<Rightarrow> nat \<Rightarrow> watch_pc \<Rightarrow> bool" where
  "timely w now (InBatch b c u) \<longleftrightarrow> b \<le> now"
| "timely w now (Waiting b c u until) \<longleftrightarrow>
     b \<le> now \<and> until \<le> b + wc_max_batch_age w \<and> until \<le> now + wc_debounce w"
| "timely w now _ \<longleftrightarrow> True"

text \<open>
  The run of a thread that nothing disturbs: it steps while it can, and when it is blocked
  in a timed wait the clock moves to the wait's end.
\<close>

fun pc_rank :: "nat \<Rightarrow> watch_pc \<Rightarrow> nat" where
  "pc_rank now AwaitFirst = 1"
| "pc_rank now (Opened _) = 7"
| "pc_rank now (InBatch _ _ _) = 6"
| "pc_rank now (Waiting _ _ _ until) = (if until \<le> now then 4 else 5)"
| "pc_rank now (Acting _ _) = 3"
| "pc_rank now (Requesting _ _) = 2"
| "pc_rank now Returned = 0"

function drain :: "watch \<Rightarrow> watcher \<Rightarrow> watcher" where
  "drain w s =
     (case watch_step w s of
        Some s' \<Rightarrow> drain w s'
      | None \<Rightarrow>
          (case wt_pc s of
             Waiting _ _ _ until \<Rightarrow> drain w (s\<lparr>wt_clock := until\<rparr>)
           | _ \<Rightarrow> s))"
  by pat_completeness auto

text \<open>Every event sent is in a finished batch, in the current one or still in the channel.\<close>

definition accounted :: "watch \<Rightarrow> watcher \<Rightarrow> event list list \<Rightarrow> event list \<Rightarrow> action list \<Rightarrow> bool" where
  "accounted w s batches evs done \<longleftrightarrow>
     wt_sent s = concat batches @ evs @ wt_queue s \<and> [] \<notin> set batches \<and>
     wt_actions s = concat (map (batch_actions w) batches) @ done \<and> at_batch w (wt_pc s) evs done"

text \<open>The batch is over and the channel empty, so no wait is left.\<close>

fun winding_up :: "nat \<Rightarrow> watch_pc \<Rightarrow> bool" where
  "winding_up now AwaitFirst \<longleftrightarrow> True"
| "winding_up now (Waiting _ _ _ until) \<longleftrightarrow> until \<le> now"
| "winding_up now (Acting _ _) \<longleftrightarrow> True"
| "winding_up now (Requesting _ _) \<longleftrightarrow> True"
| "winding_up now _ \<longleftrightarrow> False"

text \<open>A watch on the directories \<open>/c\<close> and \<open>/u\<close>, and the module \<open>/u/m.wasm\<close>.\<close>

definition example_udf :: path where
  "example_udf = \<lparr>p_root = True, p_comps = [as_bytes ''u'']\<rparr>"

definition example_module :: path where
  "example_module = join example_udf ([0x6D] @ dot # wasm_ext)"

definition example_watch :: watch where
  "example_watch =
     \<lparr>wc_config_dir = \<lparr>p_root = True, p_comps = [as_bytes ''c'']\<rparr>, wc_config_name = as_bytes ''f'',
      wc_udf_dir = Some example_udf, wc_debounce = DEBOUNCE, wc_max_batch_age = MAX_BATCH_AGE\<rparr>"

section \<open>Lemmas\<close>

lemmas watch_step_splits = watch_pc.splits list.splits if_splits

lemma watch_step_decreases:
  "watch_step w s = Some s' \<Longrightarrow>
   ((length (wt_queue s'), pc_rank (wt_clock s') (wt_pc s')),
    (length (wt_queue s), pc_rank (wt_clock s) (wt_pc s))) \<in> less_than <*lex*> less_than"
  by (auto simp: watch_step_def Let_def split: watch_step_splits)

lemma blocked_decreases:
  "watch_step w s = None \<Longrightarrow> wt_pc s = Waiting b c u until \<Longrightarrow>
   wt_queue s = [] \<and> \<not> wt_closed s \<and> wt_clock s < until"
  by (auto simp: watch_step_def split: watch_step_splits)

termination drain
  by (relation "inv_image (less_than <*lex*> less_than)
        (\<lambda>(w, s). (length (wt_queue s), pc_rank (wt_clock s) (wt_pc s)))")
    (auto dest!: watch_step_decreases blocked_decreases)

declare drain.simps [simp del]

inductive_cases watch_nextE [consumes 1, case_names Thread Env]: "watch_next w s s'"
inductive_cases watch_envE [consumes 1, case_names Notify Tick Close]: "watch_env s s'"

lemma watch_reach_induct [consumes 1, case_names init thread notify tick close]:
  assumes "(watch_next w)\<^sup>*\<^sup>* s0 s"
    and "P s0"
    and "\<And>s s'. P s \<Longrightarrow> watch_step w s = Some s' \<Longrightarrow> P s'"
    and "\<And>s res. P s \<Longrightarrow> P (on_notify res s)"
    and "\<And>s d. P s \<Longrightarrow> P (s\<lparr>wt_clock := wt_clock s + d\<rparr>)"
    and "\<And>s. P s \<Longrightarrow> P (s\<lparr>wt_closed := True\<rparr>)"
  shows "P s"
  using assms(1)
proof (induction rule: rtranclp_induct)
  case base
  show ?case
    by (rule assms(2))
next
  case (step s s')
  from step(2) show ?case
    by (cases rule: watch_nextE) (use assms(3-6) step(3) in \<open>blast elim: watch_envE\<close>)+
qed

subsection \<open>Batches\<close>

lemma flags_of_first: "flags_of w (touches_config w ev) (touches_udf w ev) [ev]"
  by (simp add: flags_of_def)

lemma flags_of_more:
  "flags_of w c u evs \<Longrightarrow> flags_of w (c \<or> touches_config w ev) (u \<or> touches_udf w ev) (evs @ [ev])"
  by (simp add: flags_of_def)

lemma batch_actions_flags:
  "flags_of w c u evs \<Longrightarrow>
   batch_actions w evs = (if u then [Rescan] else []) @ (if c \<or> u then [Reload (if u then UdfSwap else Config)] else [])"
  by (auto simp: flags_of_def batch_actions_def)

lemma accounted_step:
  assumes "accounted w s batches evs done" "watch_step w s = Some s'"
  shows "\<exists>batches evs done. accounted w s' batches evs done"
proof -
  have "accounted w s' batches evs done \<or> (\<exists>ev. accounted w s' batches (evs @ [ev]) done) \<or>
    (\<exists>more. accounted w s' batches evs more) \<or> accounted w s' (batches @ [evs]) [] []"
  proof (cases "wt_pc s")
    case AwaitFirst
    then show ?thesis
      using assms by (cases "wt_queue s") (auto simp: watch_step_def accounted_def split: if_splits)
  next
    case (Opened first)
    then show ?thesis
      using assms flags_of_first by (auto simp: watch_step_def accounted_def)
  next
    case (InBatch b c u)
    then show ?thesis
      using assms by (auto simp: watch_step_def accounted_def Let_def split: if_splits)
  next
    case (Waiting b c u until)
    then show ?thesis
      using assms flags_of_more [of w c u evs]
      by (cases "wt_queue s") (auto simp: watch_step_def accounted_def split: if_splits)
  next
    case (Acting c u)
    then show ?thesis
      using assms by (auto simp: watch_step_def accounted_def)
  next
    case (Requesting c u)
    then have "accounted w s' (batches @ [evs]) [] []"
      using assms batch_actions_flags [of w c u evs] by (auto simp: watch_step_def accounted_def flags_of_def)
    then show ?thesis
      by blast
  next
    case Returned
    then show ?thesis
      using assms by (simp add: watch_step_def)
  qed
  then show ?thesis
    by blast
qed

lemma accounted_reach:
  assumes "(watch_next w)\<^sup>*\<^sup>* (watcher_new now) s"
  shows "\<exists>batches evs done. accounted w s batches evs done"
  using assms
proof (induction rule: watch_reach_induct)
  case init
  have "accounted w (watcher_new now) [] [] []"
    by (simp add: accounted_def watcher_new_def)
  then show ?case
    by blast
next
  case (thread s s')
  then show ?case
    using accounted_step by blast
next
  case (notify s res)
  then show ?case
    by (cases res) (auto simp: accounted_def on_notify_def)
qed (auto simp: accounted_def)

subsection \<open>Time\<close>

lemma timely_later: "timely w now pc \<Longrightarrow> now \<le> now' \<Longrightarrow> timely w now' pc"
  by (cases pc) auto

lemma timely_step:
  "timely w (wt_clock s) (wt_pc s) \<Longrightarrow> watch_step w s = Some s' \<Longrightarrow> timely w (wt_clock s') (wt_pc s')"
  by (auto simp: watch_step_def Let_def split: watch_step_splits)

lemma timely_reach:
  assumes "(watch_next w)\<^sup>*\<^sup>* (watcher_new now) s"
  shows "timely w (wt_clock s) (wt_pc s)"
  using assms
proof (induction rule: watch_reach_induct)
  case (notify s res)
  then show ?case
    by (cases res) (simp_all add: on_notify_def)
qed (auto simp: watcher_new_def intro: timely_step timely_later)

subsection \<open>An undisturbed thread\<close>

lemma watch_step_frame:
  "watch_step w s = Some s' \<Longrightarrow> wt_clock s' = wt_clock s \<and> wt_closed s' = wt_closed s \<and> wt_sent s' = wt_sent s"
  by (auto simp: watch_step_def Let_def split: watch_step_splits)

lemma winding_up_step:
  "watch_step w s = Some s' \<Longrightarrow> \<not> wt_closed s \<Longrightarrow> wt_queue s = [] \<Longrightarrow> winding_up (wt_clock s) (wt_pc s) \<Longrightarrow>
   wt_queue s' = [] \<and> winding_up (wt_clock s') (wt_pc s')"
  by (auto simp: watch_step_def split: watch_step_splits)

lemma blocked_cases:
  assumes "watch_step w s = None" "\<not> wt_closed s" "wt_pc s \<noteq> Returned"
  obtains "wt_pc s = AwaitFirst" "wt_queue s = []"
  | b c u until where "wt_pc s = Waiting b c u until" "wt_queue s = []" "wt_clock s < until"
  using assms by (auto simp: watch_step_def Let_def split: watch_step_splits)

lemma returned_closed: "watch_step w s = Some s' \<Longrightarrow> \<not> wt_closed s \<Longrightarrow> wt_pc s' \<noteq> Returned"
  by (auto simp: watch_step_def Let_def split: watch_step_splits)

lemma drain_winding_up:
  "\<not> wt_closed s \<Longrightarrow> wt_queue s = [] \<Longrightarrow> winding_up (wt_clock s) (wt_pc s) \<Longrightarrow>
   wt_clock (drain w s) = wt_clock s"
proof (induction w s rule: drain.induct)
  case (1 w s)
  show ?case
  proof (cases "watch_step w s")
    case (Some s')
    then show ?thesis
      using 1 watch_step_frame [OF Some] winding_up_step [OF Some] by (simp add: drain.simps [of w s])
  next
    case None
    then have "wt_pc s = AwaitFirst"
      using 1(3-5) blocked_cases [OF None 1(3)] by (cases "wt_pc s") auto
    then show ?thesis
      using None by (simp add: drain.simps [of w s])
  qed
qed

lemma drain_ends:
  assumes "\<not> wt_closed s" "wt_pc s \<noteq> Returned" "timely w (wt_clock s) (wt_pc s)"
  shows "(watch_next w)\<^sup>*\<^sup>* s (drain w s) \<and> wt_pc (drain w s) = AwaitFirst \<and> wt_queue (drain w s) = [] \<and>
    wt_sent (drain w s) = wt_sent s \<and> wt_clock (drain w s) \<le> wt_clock s + wc_debounce w"
  using assms
proof (induction w s rule: drain.induct)
  case (1 w s)
  show ?case
  proof (cases "watch_step w s")
    case (Some s')
    note frame = watch_step_frame [OF Some] returned_closed [OF Some 1(3)] timely_step [OF 1(5) Some]
    then show ?thesis
      using 1(2) [OF Some] 1(3) Some
      by (auto simp: drain.simps [of w s] intro: converse_rtranclp_into_rtranclp watch_next.Thread)
  next
    case None
    from None 1(3,4) show ?thesis
    proof (cases rule: blocked_cases)
      case 1
      then show ?thesis
        using None by (simp add: drain.simps [of w s])
    next
      case (2 b c u until)
      let ?s = "s\<lparr>wt_clock := until\<rparr>"
      have "until \<le> wt_clock s + wc_debounce w" "timely w until (wt_pc s)"
        using 1(5) 2 by auto
      moreover have "wt_clock (drain w ?s) = until"
        using 2 1(3) drain_winding_up [of ?s w] by simp
      moreover have "watch_next w s ?s"
        using 2(3) watch_env.Tick [of s "until - wt_clock s"] by (auto intro: watch_next.Env)
      ultimately show ?thesis
        using 1(1) [OF None 2(1)] 1(3,4) None 2
        by (auto simp: drain.simps [of w s] intro: converse_rtranclp_into_rtranclp)
    qed
  qed
qed

lemma returned_reach:
  assumes "(watch_next w)\<^sup>*\<^sup>* (watcher_new now) s"
  shows "wt_pc s = Returned \<longrightarrow> wt_closed s"
  using assms
proof (induction rule: watch_reach_induct)
  case (thread s s')
  then show ?case
    using returned_closed [OF thread(2)] watch_step_frame [OF thread(2)] by auto
next
  case (notify s res)
  then show ?case
    by (cases res) (simp_all add: on_notify_def)
qed (auto simp: watcher_new_def)

lemma idle_accounted:
  assumes "(watch_next w)\<^sup>*\<^sup>* (watcher_new now) s" "wt_pc s = AwaitFirst"
  shows "\<exists>batches. wt_sent s = concat batches @ wt_queue s \<and> [] \<notin> set batches \<and>
    wt_actions s = concat (map (batch_actions w) batches)"
  using accounted_reach [OF assms(1)] assms(2) by (auto simp: accounted_def)

subsection \<open>Arming\<close>

lemma entry_iff:
  assumes "name \<notin> {[dot], [dot, dot]}"
  shows "parent p = Some dir \<and> file_name p = Some name \<longleftrightarrow> p = join dir name"
proof
  assume "parent p = Some dir \<and> file_name p = Some name"
  then show "p = join dir name"
    by (cases p) (auto simp: parent_def file_name_def join_def split: if_splits)
qed (use assms file_name_join in simp)

lemma wasm_entry_iff:
  "parent p = Some dir \<and> has_wasm_extension p \<longleftrightarrow> (\<exists>st. st \<noteq> [] \<and> p = join dir (st @ dot # wasm_ext))"
proof
  assume p: "parent p = Some dir \<and> has_wasm_extension p"
  then have "p = join dir (last (p_comps p))"
    by (cases p) (auto simp: parent_def join_def split: if_splits)
  then show "\<exists>st. st \<noteq> [] \<and> p = join dir (st @ dot # wasm_ext)"
    using p wasm_file_iff by metis
next
  assume "\<exists>st. st \<noteq> [] \<and> p = join dir (st @ dot # wasm_ext)"
  then show "parent p = Some dir \<and> has_wasm_extension p"
    using wasm_file_iff by auto
qed

lemma resolve_udf_Inr_iff:
  "resolve_udf fs udf = Inr r \<longleftrightarrow>
     (case udf of None \<Rightarrow> r = None | Some dir \<Rightarrow> (\<exists>d. canonicalize fs dir = Inr d \<and> r = Some d))"
  by (auto simp: resolve_udf_def result_simps split: option.splits)

lemma spawn_Inr_iff:
  "spawn fs nt thread plan = Inr w \<longleftrightarrow>
     (\<exists>dir config_dir config_name udf.
        watched_parent (pl_config_path plan) = Some dir \<and> canonicalize fs dir = Inr config_dir \<and>
        file_name (pl_config_path plan) = Some config_name \<and> resolve_udf fs (pl_udf_dir plan) = Inr udf \<and>
        nt_init nt = Inr () \<and> nt_watch nt config_dir = Inr () \<and>
        (case udf of Some d \<Rightarrow> watch_dir nt d | None \<Rightarrow> Inr ()) = Inr () \<and> thread = Inr () \<and>
        w = \<lparr>wc_config_dir = config_dir, wc_config_name = config_name, wc_udf_dir = udf,
             wc_debounce = pl_debounce plan, wc_max_batch_age = pl_max_batch_age plan\<rparr>)"
  unfolding spawn_def and_then_Inr_iff map_err_Inr_iff ok_or_Inr_iff watch_dir_def [of nt "_ :: path"]
  by (simp only: unit_eq ex_simps all_simps simp_thms) (simp add: eq_commute)

lemma spawn_InrD:
  assumes "spawn fs nt thread plan = Inr w"
  shows "\<exists>dir. watched_parent (pl_config_path plan) = Some dir \<and> canonicalize fs dir = Inr (wc_config_dir w)"
    and "file_name (pl_config_path plan) = Some (wc_config_name w)"
    and "resolve_udf fs (pl_udf_dir plan) = Inr (wc_udf_dir w)"
    and "nt_watch nt (wc_config_dir w) = Inr ()"
    and "wc_udf_dir w = Some d \<Longrightarrow> nt_watch nt d = Inr ()"
proof -
  obtain dir config_dir config_name udf where *:
    "watched_parent (pl_config_path plan) = Some dir" "canonicalize fs dir = Inr config_dir"
    "file_name (pl_config_path plan) = Some config_name" "resolve_udf fs (pl_udf_dir plan) = Inr udf"
    "nt_watch nt config_dir = Inr ()" "(case udf of Some d \<Rightarrow> watch_dir nt d | None \<Rightarrow> Inr ()) = Inr ()"
    "w = \<lparr>wc_config_dir = config_dir, wc_config_name = config_name, wc_udf_dir = udf,
          wc_debounce = pl_debounce plan, wc_max_batch_age = pl_max_batch_age plan\<rparr>"
    using assms unfolding spawn_Inr_iff by blast
  then show "\<exists>dir. watched_parent (pl_config_path plan) = Some dir \<and> canonicalize fs dir = Inr (wc_config_dir w)"
    "file_name (pl_config_path plan) = Some (wc_config_name w)"
    "resolve_udf fs (pl_udf_dir plan) = Inr (wc_udf_dir w)" "nt_watch nt (wc_config_dir w) = Inr ()"
    by simp_all
  show "nt_watch nt d = Inr ()" if "wc_udf_dir w = Some d"
    using * that by (simp add: watch_dir_def map_err_Inr_iff)
qed

subsection \<open>A watcher and its runs\<close>

lemma example_reach:
  "(watch_next w)\<^sup>*\<^sup>* (watcher_new now) (drain w (on_notify res (watcher_new now)))"
proof -
  have "watch_next w (watcher_new now) (on_notify res (watcher_new now))"
    by (rule watch_next.Env [OF watch_env.Notify]) (simp add: watcher_new_def)
  moreover have "(watch_next w)\<^sup>*\<^sup>* (on_notify res (watcher_new now)) (drain w (on_notify res (watcher_new now)))"
    using drain_ends [of "on_notify res (watcher_new now)" w]
    by (auto simp: on_notify_def watcher_new_def split: sum.splits)
  ultimately show ?thesis
    by (rule converse_rtranclp_into_rtranclp)
qed

section \<open>Properties\<close>

text \<open>
  C20. Nothing sent is lost and nothing is acted on twice: whenever the thread is back at its
  first receive, however senders, clock and thread interleaved, the events sent so far are
  a sequence of finished batches followed by the channel's content, and the closures
  called are, batch by batch, exactly what each batch asks for. A batch that touches the
  UDF directory rescans immediately before its one reload; one that touches only the
  config reloads without a rescan; any other does nothing.
\<close>

theorem watcher_batches:
  assumes "(watch_next w)\<^sup>*\<^sup>* (watcher_new now) s" "wt_pc s = AwaitFirst"
  shows "\<exists>batches. wt_sent s = concat batches @ wt_queue s \<and> [] \<notin> set batches \<and>
    wt_actions s = concat (map (batch_actions w) batches)"
  by (rule idle_accounted [OF assms])

text \<open>The directories \<open>/c\<close> and \<open>/u\<close>, and an event on \<open>/u/m.wasm\<close>.\<close>

lemma drain_step: "watch_step w s = Some s' \<Longrightarrow> drain w s = drain w s'"
  by (simp add: drain.simps [of w s])

lemma drain_wait:
  "watch_step w s = None \<Longrightarrow> wt_pc s = Waiting b c u until \<Longrightarrow> drain w s = drain w (s\<lparr>wt_clock := until\<rparr>)"
  by (simp add: drain.simps [of w s])

lemma drain_idle: "wt_pc s = AwaitFirst \<Longrightarrow> wt_queue s = [] \<Longrightarrow> \<not> wt_closed s \<Longrightarrow> drain w s = s"
  by (simp add: drain.simps [of w s] watch_step_def)

text \<open>One event and then quiet: the batch is closed a quiet period later.\<close>

lemma drain_one:
  assumes "0 < wc_debounce w" "wc_debounce w \<le> wc_max_batch_age w"
  shows "drain w (on_notify (Inr ev) (watcher_new now)) =
     \<lparr>wt_pc = AwaitFirst, wt_queue = [], wt_clock = now + wc_debounce w, wt_closed = False,
      wt_sent = [ev], wt_actions = batch_actions w [ev]\<rparr>"
proof -
  let ?s = "\<lambda>pc q t acts. \<lparr>wt_pc = pc, wt_queue = q, wt_clock = t, wt_closed = False, wt_sent = [ev], wt_actions = acts\<rparr>"
  let ?c = "touches_config w ev" and ?u = "touches_udf w ev" and ?t = "now + wc_debounce w"
  have "on_notify (Inr ev) (watcher_new now) = ?s AwaitFirst [ev] now []"
    by (simp add: on_notify_def watcher_new_def)
  also have "drain w \<dots> = drain w (?s (Opened ev) [] now [])"
    by (rule drain_step) (simp add: watch_step_def)
  also have "\<dots> = drain w (?s (InBatch now ?c ?u) [] now [])"
    by (rule drain_step) (simp add: watch_step_def)
  also have "\<dots> = drain w (?s (Waiting now ?c ?u ?t) [] now [])"
    by (rule drain_step) (use assms in \<open>simp add: watch_step_def Let_def min_def\<close>)
  also have "\<dots> = drain w (?s (Waiting now ?c ?u ?t) [] ?t [])"
    by (subst drain_wait) (use assms in \<open>simp_all add: watch_step_def\<close>)
  also have "\<dots> = drain w (?s (Acting ?c ?u) [] ?t [])"
    by (rule drain_step) (simp add: watch_step_def)
  also have "\<dots> = drain w (?s (Requesting ?c ?u) [] ?t (if ?u then [Rescan] else []))"
    by (rule drain_step) (simp add: watch_step_def)
  also have "\<dots> = drain w (?s AwaitFirst [] ?t (batch_actions w [ev]))"
    by (rule drain_step) (simp add: watch_step_def batch_actions_def)
  also have "\<dots> = ?s AwaitFirst [] ?t (batch_actions w [ev])"
    by (rule drain_idle) simp_all
  finally show ?thesis .
qed

lemma example_drain:
  "drain example_watch (on_notify (Inr [example_module]) (watcher_new 5)) =
     \<lparr>wt_pc = AwaitFirst, wt_queue = [], wt_clock = 200000005, wt_closed = False,
      wt_sent = [[example_module]], wt_actions = [Rescan, Reload UdfSwap]\<rparr>"
proof -
  have "has_wasm_extension example_module"
    unfolding example_module_def wasm_file_iff by blast
  then have "batch_actions example_watch [[example_module]] = [Rescan, Reload UdfSwap]"
    by (simp add: batch_actions_def touches_udf_def example_watch_def example_module_def)
  then show ?thesis
    by (subst drain_one) (simp_all add: example_watch_def DEBOUNCE_def MAX_BATCH_AGE_def)
qed

theorem watcher_batches_witness:
  "\<exists>batches. [[example_module]] = concat batches \<and> [] \<notin> set batches \<and>
     [Rescan, Reload UdfSwap] = concat (map (batch_actions example_watch) batches)"
  using watcher_batches [OF example_reach [of example_watch 5 "Inr [example_module]"]]
  by (simp add: example_drain)

text \<open>
  C21. The watcher acts: in whatever state of an open channel the events stop arriving, the thread
  runs on to an empty channel within one quiet period of clock time, with every event sent
  so far in a batch it has acted on.
\<close>

theorem watcher_quiet_acts:
  assumes "(watch_next w)\<^sup>*\<^sup>* (watcher_new now) s" "\<not> wt_closed s"
  shows "(watch_next w)\<^sup>*\<^sup>* s (drain w s) \<and> wt_clock (drain w s) \<le> wt_clock s + wc_debounce w \<and>
    wt_sent (drain w s) = wt_sent s \<and> wt_pc (drain w s) = AwaitFirst \<and>
    (\<exists>batches. wt_sent s = concat batches \<and> [] \<notin> set batches \<and>
       wt_actions (drain w s) = concat (map (batch_actions w) batches))"
proof -
  have "wt_pc s \<noteq> Returned"
    using returned_reach [OF assms(1)] assms(2) by blast
  note ends = drain_ends [OF assms(2) this timely_reach [OF assms(1)]]
  then have "(watch_next w)\<^sup>*\<^sup>* (watcher_new now) (drain w s)"
    using assms(1) by (meson rtranclp_trans)
  then show ?thesis
    using ends idle_accounted [of w now "drain w s"] by auto
qed

theorem watcher_quiet_acts_witness:
  "wt_clock (drain example_watch (on_notify (Inr [example_module]) (watcher_new 5)))
     \<le> 5 + wc_debounce example_watch"
proof -
  have "(watch_next example_watch)\<^sup>*\<^sup>* (watcher_new 5) (on_notify (Inr [example_module]) (watcher_new 5))"
    by (intro r_into_rtranclp watch_next.Env watch_env.Notify) (simp add: watcher_new_def)
  from watcher_quiet_acts [OF this] show ?thesis
    by (simp add: on_notify_def watcher_new_def)
qed

text \<open>
  C22. No stream of events defers a batch: a timed wait ends by the batch's age limit and within a
  quiet period of now; and once the limit has passed, the thread closes the batch when it
  next reads the clock, after taking at most one more event.
\<close>

theorem watcher_batch_age:
  assumes "(watch_next w)\<^sup>*\<^sup>* (watcher_new now) s" "\<not> wt_closed s"
  shows "(wt_pc s = Waiting b c u until \<longrightarrow>
       until \<le> b + wc_max_batch_age w \<and> until \<le> wt_clock s + wc_debounce w) \<and>
    (b + wc_max_batch_age w \<le> wt_clock s \<longrightarrow>
      (wt_pc s = InBatch b c u \<longrightarrow> watch_step w s = Some (s\<lparr>wt_pc := Acting c u\<rparr>)) \<and>
      (wt_pc s = Waiting b c u until \<longrightarrow>
        (\<exists>s'. watch_step w s = Some s' \<and>
          (wt_pc s' = Acting c u \<or>
           (\<exists>c' u'. wt_pc s' = InBatch b c' u' \<and> Suc (length (wt_queue s')) = length (wt_queue s))))))"
  using timely_reach [OF assms(1)] assms(2)
  by (auto simp: watch_step_def Let_def split: list.splits)

theorem watcher_batch_age_witness:
  "\<exists>s. (watch_next example_watch)\<^sup>*\<^sup>* (watcher_new 5) s \<and> wt_clock s = 3000000005 \<and>
     watch_step example_watch s =
       Some (s\<lparr>wt_pc := Acting (touches_config example_watch []) (touches_udf example_watch [])\<rparr>)"
proof -
  let ?c = "touches_config example_watch []" and ?u = "touches_udf example_watch []"
  let ?s = "\<lambda>pc q t. \<lparr>wt_pc = pc, wt_queue = q, wt_clock = t, wt_closed = False, wt_sent = [[]], wt_actions = []\<rparr>"
  have "watch_next example_watch (watcher_new 5) (?s AwaitFirst [[]] 5)"
    using watch_next.Env [OF watch_env.Notify [of "watcher_new 5" "Inr []"]]
    by (simp add: on_notify_def watcher_new_def)
  moreover have "watch_next example_watch (?s AwaitFirst [[]] 5) (?s (Opened []) [] 5)"
    by (rule watch_next.Thread) (simp add: watch_step_def)
  moreover have "watch_next example_watch (?s (Opened []) [] 5) (?s (InBatch 5 ?c ?u) [] 5)"
    by (rule watch_next.Thread) (simp add: watch_step_def)
  moreover have "watch_next example_watch (?s (InBatch 5 ?c ?u) [] 5) (?s (InBatch 5 ?c ?u) [] 3000000005)"
    using watch_next.Env [OF watch_env.Tick [of "?s (InBatch 5 ?c ?u) [] 5" 3000000000]] by simp
  ultimately have reach: "(watch_next example_watch)\<^sup>*\<^sup>* (watcher_new 5) (?s (InBatch 5 ?c ?u) [] 3000000005)"
    by (meson converse_rtranclp_into_rtranclp rtranclp.rtrancl_refl)
  then show ?thesis
    using watcher_batch_age [OF reach, of 5 ?c ?u 0]
    by (intro exI [of _ "?s (InBatch 5 ?c ?u) [] 3000000005"])
      (simp add: example_watch_def [THEN arg_cong, of wc_max_batch_age] MAX_BATCH_AGE_def)
qed

text \<open>
  A watch that is armed is on the right files: the canonical parent of the config path and the
  canonical UDF directory are registered with the notifier; the config is touched exactly
  by events on the configured name in that directory, the UDFs exactly by events on the
  directory itself or on a wasm file in it.
\<close>

lemma spawn_watches:
  assumes "spawn fs nt thread plan = Inr w"
  shows "(\<exists>dir. watched_parent (pl_config_path plan) = Some dir \<and> canonicalize fs dir = Inr (wc_config_dir w)) \<and>
    nt_watch nt (wc_config_dir w) = Inr () \<and>
    (\<forall>ev. touches_config w ev \<longleftrightarrow>
       (\<exists>name. file_name (pl_config_path plan) = Some name \<and> join (wc_config_dir w) name \<in> set ev)) \<and>
    (case pl_udf_dir plan of
       None \<Rightarrow> (\<forall>ev. \<not> touches_udf w ev)
     | Some dir \<Rightarrow> (\<exists>d. canonicalize fs dir = Inr d \<and> nt_watch nt d = Inr () \<and>
         (\<forall>ev. touches_udf w ev \<longleftrightarrow>
            d \<in> set ev \<or> (\<exists>st. st \<noteq> [] \<and> join d (st @ dot # wasm_ext) \<in> set ev))))"
proof -
  note D = spawn_InrD [OF assms]
  have name: "wc_config_name w \<notin> {[dot], [dot, dot]}"
    using D(2) by (auto simp: file_name_def split: if_splits)
  have config: "touches_config w ev \<longleftrightarrow> join (wc_config_dir w) (wc_config_name w) \<in> set ev" for ev
    unfolding touches_config_def entry_iff [OF name] by (auto simp: list_ex_iff)
  have udf: "touches_udf w ev \<longleftrightarrow> d \<in> set ev \<or> (\<exists>st. st \<noteq> [] \<and> join d (st @ dot # wasm_ext) \<in> set ev)"
    if "wc_udf_dir w = Some d" for d ev
    unfolding touches_udf_def that option.case wasm_entry_iff by (auto simp: list_ex_iff)
  have none: "\<not> touches_udf w ev" if "wc_udf_dir w = None" for ev
    by (simp add: touches_udf_def that)
  have "case pl_udf_dir plan of
       None \<Rightarrow> (\<forall>ev. \<not> touches_udf w ev)
     | Some dir \<Rightarrow> (\<exists>d. canonicalize fs dir = Inr d \<and> nt_watch nt d = Inr () \<and>
         (\<forall>ev. touches_udf w ev \<longleftrightarrow>
            d \<in> set ev \<or> (\<exists>st. st \<noteq> [] \<and> join d (st @ dot # wasm_ext) \<in> set ev)))"
  proof (cases "pl_udf_dir plan")
    case None
    then show ?thesis
      using D(3) none by (simp add: resolve_udf_Inr_iff)
  next
    case (Some dir)
    then obtain d where "canonicalize fs dir = Inr d" "wc_udf_dir w = Some d"
      using D(3) by (auto simp: resolve_udf_Inr_iff)
    then show ?thesis
      unfolding Some option.case using D(5) udf by blast
  qed
  then show ?thesis
    using D(1,2,4) config by simp
qed

end
