(* ===== verification/Process.thy ===== *)
theory Process
  imports Native Exporter Watcher
begin

text \<open>
  The life of the process behind the Lua module, lib.rs of mcgateway-clib: the one-time
  initialisation (\<open>init_shared\<close> behind a \<open>OnceLock\<close>), the rescan of the UDF directory, the
  closures handed to the watcher, and the exported calls on the state they share.

  \<open>host_env\<close> holds the answers of the process's surroundings during initialisation:
  environment variables, file system, sockets, wasmtime's engine, notify and the thread
  builder. A later rescan sees a file system of its own time, given with the action.
\<close>

section \<open>Definitions\<close>

definition CONFIG_ENV :: string where "CONFIG_ENV = ''MCGATEWAY_CONFIG''"
definition METRICS_ADDR_ENV :: string where "METRICS_ADDR_ENV = ''MCGW_METRICS_ADDR''"

record ('s, 'l) host_env =
  he_env :: "string \<Rightarrow> string option"
  he_fs :: file_system
  he_bind :: "string \<Rightarrow> io_error + 'l"
  he_local_addr :: "'l \<Rightarrow> io_error + string"
  he_exporter_thread :: "io_error + unit"
  he_wasm_host :: "wasm_error + 's compiler"
  he_notifier :: notifier
  he_watcher_thread :: "io_error + unit"

datatype init_error =
    UdfDirInvalid string
  | HostInit wasm_error
  | ScanFailed path io_error
  | WatcherFailed spawn_error

subsection \<open>Rescan\<close>

definition on_problem :: "path \<Rightarrow> udf_problem \<Rightarrow> world \<Rightarrow> world" where
  "on_problem path problem w =
     log_line_out (UdfSkipped path (problem_as_str problem))
       (record_metrics (udf_module_failure (problem_as_str problem)) w)"

definition rescan_into ::
  "'s compiler \<Rightarrow> file_system \<Rightarrow> path \<Rightarrow> world registries \<times> world \<Rightarrow>
   (io_error + unit) \<times> world registries \<times> world" where
  "rescan_into compile fs dir rw =
     (let (regs, w) = rw in
      case scan_dir compile fs regs dir on_problem w of
        (Inl e, w) \<Rightarrow> (Inl e, regs, record_metrics (udf_rescan ''error'') w)
      | (Inr table, w) \<Rightarrow>
          let w = record_metrics (set_registry_merges ''wasm'' (length table)) w;
              w = record_metrics (udf_rescan ''ok'') w
          in (Inr (), swap_wasm table regs, w))"

subsection \<open>Initialisation\<close>

definition arm_exporter :: "('s, 'l) host_env \<Rightarrow> world \<Rightarrow> world" where
  "arm_exporter he w =
     (case he_env he METRICS_ADDR_ENV of
        None \<Rightarrow> w
      | Some addr \<Rightarrow>
          (case spawn_exporter (he_bind he) (he_local_addr he) (he_exporter_thread he) addr of
             Inr bound \<Rightarrow> log_line_out (MetricsListening bound) w
           | Inl e \<Rightarrow> log_line_out MetricsDisabled w))"

definition load_udfs ::
  "('s, 'l) host_env \<Rightarrow> world registries \<Rightarrow> world \<Rightarrow>
   (init_error + world registries \<times> ('s compiler \<times> path) option) \<times> world" where
  "load_udfs he regs w =
     (case udf_dir (he_env he) (he_fs he) of
        Inl custom \<Rightarrow> (Inl (UdfDirInvalid custom), w)
      | Inr None \<Rightarrow> (Inr (regs, None), w)
      | Inr (Some dir) \<Rightarrow>
          (case he_wasm_host he of
             Inl e \<Rightarrow> (Inl (HostInit e), w)
           | Inr compile \<Rightarrow>
               (case rescan_into compile (he_fs he) dir (regs, w) of
                  (Inl e, _, w) \<Rightarrow> (Inl (ScanFailed dir e), w)
                | (Inr _, regs, w) \<Rightarrow> (Inr (regs, Some (compile, dir)), w))))"

definition arm_reload ::
  "('s, 'l) host_env \<Rightarrow> path option \<Rightarrow> world \<Rightarrow> (init_error + watch option) \<times> world" where
  "arm_reload he dir w =
     (case he_env he CONFIG_ENV of
        None \<Rightarrow> (Inr None, w)
      | Some config_path \<Rightarrow>
          (case spawn (he_fs he) (he_notifier he) (he_watcher_thread he) (plan_new (path_of config_path) dir) of
             Inl e \<Rightarrow> (Inl (WatcherFailed e), w)
           | Inr watch \<Rightarrow> (Inr (Some watch), log_line_out (ReloadArmed config_path) w)))"

text \<open>
  The first statement, \<open>logging::init\<close>, acts on the logging facade only: it is
  \<open>logging_init\<close> of Logging. \<open>WasmHost::new\<close> returns an engine or an error (\<open>he_wasm_host\<close>): a
  system that cannot start the ticker's thread makes it panic, and such surroundings are
  not modelled. Success gives the registries, what the rescan closure captured and the watch that was
  armed.
\<close>

definition init_shared ::
  "('s, 'l) host_env \<Rightarrow> world \<Rightarrow>
   (init_error + world registries \<times> ('s compiler \<times> path) option \<times> watch option) \<times> world" where
  "init_shared he w =
     (let w = arm_exporter he w;
          w = record_metrics (set_registry_merges ''builtin'' (length (registry_names (register registry_new :: world registry)))) w
      in case load_udfs he builtin_registries w of
           (Inl e, w) \<Rightarrow> (Inl e, w)
         | (Inr (regs, udf), w) \<Rightarrow>
             (case arm_reload he (map_option snd udf) w of
                (Inl e, w) \<Rightarrow> (Inl e, w)
              | (Inr watch, w) \<Rightarrow> (Inr (regs, udf, watch), w)))"

subsection \<open>The process\<close>

text \<open>
  \<open>ps_shared\<close> is the \<open>SHARED\<close> cell with the current content of the registries it points
  to; \<open>ps_signals\<close> counts the SIGHUPs the process sent itself.
\<close>

record 's process =
  ps_shared :: "(init_error + world registries) option"
  ps_udf :: "('s compiler \<times> path) option"
  ps_watch :: "watch option"
  ps_world :: world
  ps_signals :: nat

definition process_new :: "(nat \<Rightarrow> nat) \<Rightarrow> 's process" where
  "process_new readings =
     \<lparr>ps_shared = None, ps_udf = None, ps_watch = None, ps_world = world_new readings, ps_signals = 0\<rparr>"

definition build_registries ::
  "('s, 'l) host_env \<Rightarrow> 's process \<Rightarrow> (init_error + world registries) \<times> 's process" where
  "build_registries he p =
     (case ps_shared p of
        Some r \<Rightarrow> (r, p)
      | None \<Rightarrow>
          (case init_shared he (ps_world p) of
             (Inl e, w) \<Rightarrow> (Inl e, p\<lparr>ps_shared := Some (Inl e), ps_world := w\<rparr>)
           | (Inr (regs, udf, watch), w) \<Rightarrow>
               (Inr regs, p\<lparr>ps_shared := Some (Inr regs), ps_udf := udf, ps_watch := watch, ps_world := w\<rparr>)))"

text \<open>
  The table \<open>require("mcgateway_native")\<close> gives: the exported functions, those that capture
  the registries as functions of their current content. Creating the table or a function
  may fail in Lua.
\<close>

record 't native_module =
  nm_merge :: "world registries \<Rightarrow> bytes \<Rightarrow> 't \<Rightarrow> 't option \<Rightarrow> world \<Rightarrow> (lua_error + lua_value) \<times> world"
  nm_now :: "world \<Rightarrow> lua_value \<times> world"
  nm_observe :: "bytes \<Rightarrow> bytes \<Rightarrow> bytes \<Rightarrow> i64 option \<Rightarrow> world \<Rightarrow> world"
  nm_observe_reload :: "bytes \<Rightarrow> nat \<Rightarrow> nat \<Rightarrow> world \<Rightarrow> world"
  nm_has_merge :: "world registries \<Rightarrow> bytes \<Rightarrow> bool"
  nm_required_flags :: "world registries \<Rightarrow> bytes \<Rightarrow> lua_error + string"
  nm_names :: "world registries \<Rightarrow> lua_error + string list"

definition mcgateway_native ::
  "'t lua_api \<Rightarrow> ('s, 'l) host_env \<Rightarrow> 's process \<Rightarrow> ((init_error + lua_error) + 't native_module) \<times> 's process" where
  "mcgateway_native api he p =
     (case build_registries he p of
        (Inl e, p) \<Rightarrow> (Inl (Inl e), p)
      | (Inr regs, p) \<Rightarrow>
          (map_err Inr (and_then (create_table api) (\<lambda>exports. Inr
             \<lparr>nm_merge = native_merge api, nm_now = native_now, nm_observe = native_observe,
              nm_observe_reload = native_observe_reload, nm_has_merge = native_has_merge,
              nm_required_flags = native_required_flags, nm_names = native_names api\<rparr>)), p))"

text \<open>The closures the watcher calls.\<close>

definition rescan_closure :: "file_system \<Rightarrow> 's process \<Rightarrow> 's process" where
  "rescan_closure fs p =
     (case (ps_udf p, ps_shared p) of
        (Some (compile, dir), Some (Inr regs)) \<Rightarrow>
          (case rescan_into compile fs dir (regs, ps_world p) of
             (Inl e, regs, w) \<Rightarrow> p\<lparr>ps_shared := Some (Inr regs), ps_world := log_line_out RescanFailed w\<rparr>
           | (Inr _, regs, w) \<Rightarrow> p\<lparr>ps_shared := Some (Inr regs), ps_world := w\<rparr>)
      | _ \<Rightarrow> p)"

definition reload_closure :: "reload_trigger \<Rightarrow> 's process \<Rightarrow> 's process" where
  "reload_closure trigger p =
     p\<lparr>ps_world := log_line_out (ReloadRequested (trigger_as_str trigger))
         (record_metrics (reload_signal (trigger_as_str trigger)) (ps_world p)),
       ps_signals := Suc (ps_signals p)\<rparr>"

fun perform :: "file_system \<Rightarrow> action \<Rightarrow> 's process \<Rightarrow> 's process" where
  "perform fs Rescan p = rescan_closure fs p"
| "perform fs (Reload trigger) p = reload_closure trigger p"

text \<open>What can happen to an initialised process: an exported call, or an action of the watcher.\<close>

datatype 't happening =
    CallMerge bytes 't "'t option"
  | CallNow
  | CallObserve bytes bytes bytes "i64 option"
  | CallObserveReload bytes nat nat
  | CallHasMerge bytes
  | CallRequiredFlags bytes
  | CallNames
  | Watch file_system action

definition on_world :: "(world \<Rightarrow> world) \<Rightarrow> 's process \<Rightarrow> 's process" where
  "on_world f p = p\<lparr>ps_world := f (ps_world p)\<rparr>"

definition happen_with :: "'t lua_api \<Rightarrow> world registries \<Rightarrow> 't happening \<Rightarrow> 's process \<Rightarrow> 's process" where
  "happen_with api regs h p =
     (case h of
        CallMerge name entries opts \<Rightarrow> on_world (\<lambda>w. snd (native_merge api regs name entries opts w)) p
      | CallNow \<Rightarrow> on_world (\<lambda>w. snd (native_now w)) p
      | CallObserve prefix op outcome start \<Rightarrow> on_world (native_observe prefix op outcome start) p
      | CallObserveReload result pools keyspaces \<Rightarrow> on_world (native_observe_reload result pools keyspaces) p
      | Watch fs a \<Rightarrow> perform fs a p
      | _ \<Rightarrow> p)"

definition happen :: "'t lua_api \<Rightarrow> 't happening \<Rightarrow> 's process \<Rightarrow> 's process" where
  "happen api h p = (case ps_shared p of Some (Inr regs) \<Rightarrow> happen_with api regs h p | _ \<Rightarrow> p)"

subsection \<open>The invariant of the process\<close>

definition process_ok :: "'s process \<Rightarrow> bool" where
  "process_ok p \<longleftrightarrow> world_ok (ps_world p) \<and>
     (\<forall>regs. ps_shared p = Some (Inr regs) \<longrightarrow>
        safe_registries regs \<and> builtins regs = register registry_new)"

text \<open>What initialisation needs of its surroundings.\<close>

definition listable :: "file_system \<Rightarrow> path \<Rightarrow> bool" where
  "listable fs dir \<longleftrightarrow> (\<exists>files. read_dir fs dir = Inr (map Inr files))"

definition udfs_ready :: "('s, 'l) host_env \<Rightarrow> path option \<Rightarrow> bool" where
  "udfs_ready he dir \<longleftrightarrow> udf_dir (he_env he) (he_fs he) = Inr dir \<and>
     (case dir of None \<Rightarrow> True | Some d \<Rightarrow> (\<exists>compile. he_wasm_host he = Inr compile) \<and> listable (he_fs he) d)"

definition reload_ready :: "('s, 'l) host_env \<Rightarrow> path option \<Rightarrow> bool" where
  "reload_ready he dir \<longleftrightarrow>
     (case he_env he CONFIG_ENV of None \<Rightarrow> True
      | Some config_path \<Rightarrow>
          (\<exists>watch. spawn (he_fs he) (he_notifier he) (he_watcher_thread he)
             (plan_new (path_of config_path) dir) = Inr watch))"

text \<open>Surroundings with nothing configured and no UDF directory.\<close>

definition bare_env :: "(unit, unit) host_env" where
  "bare_env =
     \<lparr>he_env = (\<lambda>_. None),
      he_fs = \<lparr>is_dir = (\<lambda>_. False), read_dir = (\<lambda>_. Inl TimedOut), fs_read = (\<lambda>_. Inl TimedOut),
               canonicalize = (\<lambda>_. Inl TimedOut)\<rparr>,
      he_bind = (\<lambda>_. Inl TimedOut), he_local_addr = (\<lambda>_. Inl TimedOut), he_exporter_thread = Inl TimedOut,
      he_wasm_host = Inl (ErrGuest 0), he_notifier = \<lparr>nt_init = Inl 0, nt_watch = (\<lambda>_. Inl 0)\<rparr>,
      he_watcher_thread = Inl TimedOut\<rparr>"

section \<open>Lemmas\<close>

lemma on_problem_ok: "world_ok w \<Longrightarrow> world_ok (on_problem path problem w)"
  using problem_as_str_closed [of problem]
  by (simp add: on_problem_def world_ok_log world_ok_record labels_closed_ops world_ok_metrics is_failure_def)

lemma scan_entries_world_ok:
  "world_ok w \<Longrightarrow> world_ok (snd (scan_entries compile fs regs dir on_problem es out w))"
proof (induction es arbitrary: out w)
  case (Cons x es)
  then show ?case
    by (cases x) (auto simp: Let_def on_problem_ok split: option.split sum.split)
qed simp

lemma scan_dir_world_ok: "world_ok w \<Longrightarrow> world_ok (snd (scan_dir compile fs regs dir on_problem w))"
  by (simp add: scan_dir_def scan_entries_world_ok split: sum.split)

text \<open>A rescan replaces the table or leaves it, and keeps registries and world in order.\<close>

lemma rescan_into_cases [consumes 1, case_names Failed Published]:
  assumes "rescan_into compile fs dir (regs, w) = (r, regs', w')"
  obtains e w1 where "scan_dir compile fs regs dir on_problem w = (Inl e, w1)" "r = Inl e" "regs' = regs"
      "w' = record_metrics (udf_rescan ''error'') w1"
  | table w1 where "scan_dir compile fs regs dir on_problem w = (Inr table, w1)" "r = Inr ()"
      "regs' = swap_wasm table regs"
      "w' = record_metrics (udf_rescan ''ok'') (record_metrics (set_registry_merges ''wasm'' (length table)) w1)"
  using assms
  by (cases "scan_dir compile fs regs dir on_problem w"; cases "fst (scan_dir compile fs regs dir on_problem w)")
    (auto simp: rescan_into_def)

lemma rescan_into_ok:
  assumes "rescan_into compile fs dir (regs, w) = (r, regs', w')"
  shows "world_ok w \<Longrightarrow> world_ok w'" "safe_registries regs \<Longrightarrow> safe_registries regs'" "builtins regs' = builtins regs"
proof -
  have scan: "world_ok w1" if "scan_dir compile fs regs dir on_problem w = (x, w1)" "world_ok w" for x w1
    using scan_dir_world_ok [OF that(2), of compile fs regs dir] that(1) by simp
  from assms show "world_ok w \<Longrightarrow> world_ok w'"
  proof (cases rule: rescan_into_cases)
    case (Failed e w1)
    then show "world_ok w \<Longrightarrow> world_ok w'"
      using scan by (simp add: world_ok_record labels_closed_ops world_ok_metrics)
  next
    case (Published table w1)
    then show "world_ok w \<Longrightarrow> world_ok w'"
      using scan by (simp add: world_ok_record labels_closed_ops world_ok_metrics)
  qed
  from assms show "safe_registries regs \<Longrightarrow> safe_registries regs'"
    by (cases rule: rescan_into_cases) (auto intro: safe_registries_swap scan_dir_safe)
  from assms show "builtins regs' = builtins regs"
    by (cases rule: rescan_into_cases) (auto simp: swap_wasm_def)
qed

lemma arm_exporter_ok: "world_ok w \<Longrightarrow> world_ok (arm_exporter he w)"
  by (simp add: arm_exporter_def world_ok_log is_failure_def split: option.split sum.split)

lemma load_udfs_ok:
  assumes "load_udfs he regs w = (r, w')"
  shows "world_ok w \<Longrightarrow> world_ok w'"
    and "r = Inr (regs', udf) \<Longrightarrow> safe_registries regs \<Longrightarrow>
      safe_registries regs' \<and> builtins regs' = builtins regs"
proof -
  have "(world_ok w \<longrightarrow> world_ok w') \<and> (r = Inr (regs', udf) \<longrightarrow> safe_registries regs \<longrightarrow>
      safe_registries regs' \<and> builtins regs' = builtins regs)"
  proof (cases "udf_dir (he_env he) (he_fs he)")
    case (Inr x)
    show ?thesis
    proof (cases x)
      case (Some dir)
      show ?thesis
      proof (cases "he_wasm_host he")
        case host: (Inr compile)
        obtain y regs1 w1 where scan: "rescan_into compile (he_fs he) dir (regs, w) = (y, regs1, w1)"
          by (cases "rescan_into compile (he_fs he) dir (regs, w)") auto
        show ?thesis
          using assms Inr Some host scan rescan_into_ok [OF scan]
          by (cases y) (auto simp: load_udfs_def)
      qed (use assms Inr Some in \<open>auto simp: load_udfs_def\<close>)
    qed (use assms Inr in \<open>auto simp: load_udfs_def\<close>)
  qed (use assms in \<open>auto simp: load_udfs_def\<close>)
  then show "world_ok w \<Longrightarrow> world_ok w'"
    and "r = Inr (regs', udf) \<Longrightarrow> safe_registries regs \<Longrightarrow>
      safe_registries regs' \<and> builtins regs' = builtins regs"
    by blast+
qed

lemma arm_reload_ok: "arm_reload he dir w = (r, w') \<Longrightarrow> world_ok w \<Longrightarrow> world_ok w'"
  by (auto simp: arm_reload_def world_ok_log is_failure_def split: option.splits sum.splits)

lemma builtin_count: "length (registry_names (register registry_new :: world registry)) = 3"
proof -
  let ?r = "register registry_new :: world registry"
  have ok: "registry_ok ?r"
    by (simp add: registry_ok_register)
  have "distinct (registry_names ?r)"
    using registry_names_sorted [OF ok] strict_sorted_iff by blast
  moreover have "set (registry_names ?r) = {''first-hit'', ''pool-preferred'', ''last-write-wins''}"
    unfolding set_registry_names [OF ok] by (auto simp: registry_has_iff registry_get_register split: if_splits)
  ultimately show ?thesis
    using distinct_card [of "registry_names ?r"] by simp
qed

text \<open>The stages of initialisation.\<close>

lemma init_shared_cases [consumes 1, case_names Udfs Reload Ready]:
  assumes "init_shared he w = (r, w')"
  obtains e where
      "load_udfs he builtin_registries (record_metrics (set_registry_merges ''builtin'' 3) (arm_exporter he w)) = (Inl e, w')"
      "r = Inl e"
  | regs udf e w1 where
      "load_udfs he builtin_registries (record_metrics (set_registry_merges ''builtin'' 3) (arm_exporter he w)) = (Inr (regs, udf), w1)"
      "arm_reload he (map_option snd udf) w1 = (Inl e, w')" "r = Inl e"
  | regs udf watch w1 where
      "load_udfs he builtin_registries (record_metrics (set_registry_merges ''builtin'' 3) (arm_exporter he w)) = (Inr (regs, udf), w1)"
      "arm_reload he (map_option snd udf) w1 = (Inr watch, w')" "r = Inr (regs, udf, watch)"
proof -
  let ?w = "record_metrics (set_registry_merges ''builtin'' 3) (arm_exporter he w)"
  obtain x w1 where x: "load_udfs he builtin_registries ?w = (x, w1)"
    by (cases "load_udfs he builtin_registries ?w")
  show ?thesis
  proof (cases x)
    case (Inl e)
    then show ?thesis
      using assms x that(1) by (simp add: init_shared_def builtin_count)
  next
    case (Inr y)
    obtain regs udf where y: "y = (regs, udf)"
      by (cases y)
    obtain z w2 where z: "arm_reload he (map_option snd udf) w1 = (z, w2)"
      by (cases "arm_reload he (map_option snd udf) w1")
    show ?thesis
      using assms x Inr y z that(2,3) by (cases z) (simp_all add: init_shared_def builtin_count)
  qed
qed

lemma init_shared_ok:
  assumes "init_shared he w = (r, w')" "world_ok w"
  shows "world_ok w'" "r = Inr (regs, udf, watch) \<Longrightarrow> safe_registries regs \<and> builtins regs = register registry_new"
proof -
  let ?w = "record_metrics (set_registry_merges ''builtin'' 3) (arm_exporter he w)"
  have w: "world_ok ?w"
    using arm_exporter_ok [OF assms(2), of he] by (simp add: world_ok_record labels_closed_ops world_ok_metrics)
  have start: "builtins builtin_registries = register registry_new"
    by (simp add: builtin_registries_def registries_new_def)
  from assms(1) have "world_ok w' \<and>
    (r = Inr (regs, udf, watch) \<longrightarrow> safe_registries regs \<and> builtins regs = register registry_new)"
  proof (cases rule: init_shared_cases)
    case (Udfs e)
    then show ?thesis
      using load_udfs_ok(1) [OF Udfs(1) w] by simp
  next
    case (Reload regs udf e w1)
    then show ?thesis
      using load_udfs_ok(1) [OF Reload(1) w] arm_reload_ok [OF Reload(2)] by simp
  next
    case (Ready regs' udf' watch' w1)
    then show ?thesis
      using load_udfs_ok(1) [OF Ready(1) w] arm_reload_ok [OF Ready(2)] start
        load_udfs_ok(2) [OF Ready(1) refl safe_builtin_registries] by auto
  qed
  then show "world_ok w'" "r = Inr (regs, udf, watch) \<Longrightarrow> safe_registries regs \<and> builtins regs = register registry_new"
    by blast+
qed

lemma mcgateway_native_require:
  "snd (mcgateway_native api he p) = snd (build_registries he p)"
  "(\<exists>m. fst (mcgateway_native api he p) = Inr m) \<longleftrightarrow>
     (\<exists>regs. fst (build_registries he p) = Inr regs) \<and> create_table api = Inr ()"
  by (auto simp: mcgateway_native_def and_then_def map_err_def split: prod.splits sum.splits)

lemma build_registries_ok:
  assumes "process_ok p"
  shows "process_ok (snd (build_registries he p))"
proof (cases "ps_shared p")
  case None
  obtain r w where init: "init_shared he (ps_world p) = (r, w)"
    by (cases "init_shared he (ps_world p)")
  have "world_ok (ps_world p)"
    using assms by (simp add: process_ok_def)
  note ok = init_shared_ok [OF init this]
  show ?thesis
  proof (cases r)
    case (Inl e)
    then show ?thesis
      using None init ok(1) by (simp add: build_registries_def process_ok_def)
  next
    case (Inr x)
    obtain regs udf watch where x: "x = (regs, udf, watch)"
      by (cases x)
    then show ?thesis
      using None init ok(1) ok(2) [of regs udf watch] Inr by (simp add: build_registries_def process_ok_def)
  qed
qed (use assms in \<open>simp add: build_registries_def\<close>)

lemma process_new_ok: "mono readings \<Longrightarrow> process_ok (process_new readings)"
  by (simp add: process_ok_def process_new_def world_new_def world_ok_def failure_lines_def)

lemma perform_ok:
  assumes "process_ok p"
  shows "process_ok (perform fs a p)"
proof (cases a)
  case Rescan
  show ?thesis
  proof (cases "\<exists>compile dir regs. ps_udf p = Some (compile, dir) \<and> ps_shared p = Some (Inr regs)")
    case True
    then obtain compile dir regs where p: "ps_udf p = Some (compile, dir)" "ps_shared p = Some (Inr regs)"
      by blast
    obtain r regs' w' where scan: "rescan_into compile fs dir (regs, ps_world p) = (r, regs', w')"
      by (cases "rescan_into compile fs dir (regs, ps_world p)") auto
    show ?thesis
      using assms p scan Rescan rescan_into_ok [OF scan]
      by (cases r) (simp_all add: rescan_closure_def process_ok_def world_ok_log is_failure_def)
  next
    case False
    then have "rescan_closure fs p = p"
      by (auto simp: rescan_closure_def split: option.splits sum.splits)
    then show ?thesis
      using assms Rescan by simp
  qed
next
  case (Reload trigger)
  have "trigger_as_str trigger \<in> {''config'', ''udf-swap''}"
    by (cases trigger) simp_all
  then show ?thesis
    using assms Reload
    by (simp add: reload_closure_def process_ok_def world_ok_log world_ok_record labels_closed_ops world_ok_metrics
        is_failure_def)
qed

lemma native_now_ok: "world_ok w \<Longrightarrow> world_ok (snd (native_now w))"
  using world_ok_now_nanos by (cases "now_nanos w") (simp add: native_now_def)

lemma happen_ok:
  assumes "process_ok p"
  shows "process_ok (happen api h p)"
proof (cases "\<exists>regs. ps_shared p = Some (Inr regs)")
  case True
  then obtain regs where regs: "ps_shared p = Some (Inr regs)"
    by blast
  have w: "world_ok (ps_world p)" and safe: "safe_registries regs"
    using assms regs by (simp_all add: process_ok_def)
  have world: "process_ok (on_world f p)" if "world_ok (f (ps_world p))" for f
    using assms that by (simp add: process_ok_def on_world_def)
  have merge: "world_ok (snd (native_merge api regs name entries opts (ps_world p)))" for name entries opts
    using native_merge_ok [OF _ safe w] by (metis prod.collapse)
  show ?thesis
    using assms regs w merge
    by (cases h) (simp_all add: happen_def happen_with_def world perform_ok native_now_ok native_observe_ok
        native_observe_reload_ok)
next
  case False
  then have "happen api h p = p"
    by (auto simp: happen_def split: option.splits sum.splits)
  then show ?thesis
    using assms by simp
qed

lemma happen_all_ok: "process_ok p \<Longrightarrow> process_ok (fold (happen api) hs p)"
  by (induction hs arbitrary: p) (simp_all add: happen_ok)


subsection \<open>When initialisation succeeds\<close>

lemma scan_entries_complete:
  "scan_entries compile fs regs dir f es out c = (Inr table, c') \<Longrightarrow> \<exists>files. es = map Inr files"
proof (induction es arbitrary: out c)
  case (Cons x es)
  obtain fl where x: "x = Inr fl"
    using Cons.prems by (cases x) auto
  obtain out' c1 where "scan_entries compile fs regs dir f es out' c1 = (Inr table, c')"
    using scan_entries_step [OF Cons.prems] by blast
  from Cons.IH [OF this] obtain files where "es = map Inr files"
    by blast
  then show ?case
    using x by (intro exI [of _ "fl # files"]) simp
qed simp

lemma scan_dir_complete:
  assumes "scan_dir compile fs regs dir f c = (Inr table, c')"
  shows "\<exists>files. read_dir fs dir = Inr (map Inr files)"
  using assms scan_entries_complete by (fastforce simp: scan_dir_def split: sum.splits)

lemma rescan_into_Inr_iff:
  "(\<exists>regs' w'. rescan_into compile fs dir (regs, w) = (Inr (), regs', w')) \<longleftrightarrow> listable fs dir"
proof
  assume "\<exists>regs' w'. rescan_into compile fs dir (regs, w) = (Inr (), regs', w')"
  then obtain regs' w' where "rescan_into compile fs dir (regs, w) = (Inr (), regs', w')"
    by blast
  then show "listable fs dir"
    by (cases rule: rescan_into_cases) (auto simp: listable_def dest: scan_dir_complete)
next
  assume "listable fs dir"
  then obtain files where "read_dir fs dir = Inr (map Inr files)"
    by (auto simp: listable_def)
  from scan_dir_ok [OF this, of compile regs on_problem w] obtain table w1 where "scan_dir compile fs regs dir on_problem w = (Inr table, w1)"
    by blast
  then show "\<exists>regs' w'. rescan_into compile fs dir (regs, w) = (Inr (), regs', w')"
    by (simp add: rescan_into_def)
qed

lemma load_udfs_ready:
  "(\<exists>regs' udf w'. load_udfs he regs w = (Inr (regs', udf), w') \<and> map_option snd udf = dir) \<longleftrightarrow> udfs_ready he dir"
proof (cases "udf_dir (he_env he) (he_fs he)")
  case (Inr x)
  show ?thesis
  proof (cases x)
    case (Some d)
    show ?thesis
    proof (cases "he_wasm_host he")
      case host: (Inr compile)
      obtain y regs1 w1 where scan: "rescan_into compile (he_fs he) d (regs, w) = (y, regs1, w1)"
        by (cases "rescan_into compile (he_fs he) d (regs, w)") auto
      then show ?thesis
        using Inr Some host rescan_into_Inr_iff [of compile "he_fs he" d regs w]
        by (cases y) (auto simp: load_udfs_def udfs_ready_def)
    qed (use Inr Some in \<open>auto simp: load_udfs_def udfs_ready_def\<close>)
  qed (use Inr in \<open>auto simp: load_udfs_def udfs_ready_def\<close>)
qed (simp add: load_udfs_def udfs_ready_def)

lemma arm_reload_ready: "(\<exists>watch w'. arm_reload he dir w = (Inr watch, w')) \<longleftrightarrow> reload_ready he dir"
  by (auto simp: arm_reload_def reload_ready_def split: option.split sum.split)

lemma udfs_ready_unique: "udfs_ready he dir \<Longrightarrow> udfs_ready he dir' \<Longrightarrow> dir = dir'"
  by (simp add: udfs_ready_def)

lemma init_shared_Inr_iff:
  "(\<exists>x. fst (init_shared he w) = Inr x) \<longleftrightarrow> (\<exists>dir. udfs_ready he dir \<and> reload_ready he dir)"
proof -
  let ?w = "record_metrics (set_registry_merges ''builtin'' 3) (arm_exporter he w)"
  note ready = load_udfs_ready [of he builtin_registries ?w]
  obtain r w' where init: "init_shared he w = (r, w')"
    by (cases "init_shared he w")
  from init show ?thesis
  proof (cases rule: init_shared_cases)
    case (Udfs e)
    then have "\<not> udfs_ready he dir" for dir
      using ready [of dir] by simp
    then show ?thesis
      using init Udfs(2) by simp
  next
    case (Reload regs udf e w1)
    then have "udfs_ready he (map_option snd udf)" "\<not> reload_ready he (map_option snd udf)"
      using ready arm_reload_ready [of he "map_option snd udf" w1] by auto
    then show ?thesis
      using init Reload(3) udfs_ready_unique by auto
  next
    case (Ready regs udf watch w1)
    then have "udfs_ready he (map_option snd udf)" "reload_ready he (map_option snd udf)"
      using ready arm_reload_ready [of he "map_option snd udf" w1] by auto
    then show ?thesis
      using init Ready(3) by auto
  qed
qed

lemma failure_lines_bound:
  assumes "world_ok w" "w_limiter w = Some b"
  shows "failure_lines w \<le> 10 + (w_clock w (w_reads w) - tb_origin b) div 1000000000"
proof -
  have "failure_lines w * 1000000000 \<le> 10 * 1000000000 + (w_clock w (w_reads w) - tb_origin b)"
    using assms by (auto simp: world_ok_def limiter_ok_def)
  then show ?thesis
    by linarith
qed

lemma safe_builtins_known:
  "safe_registries regs \<Longrightarrow> builtins regs = register registry_new \<Longrightarrow>
   n \<in> {''first-hit'', ''pool-preferred'', ''last-write-wins''} \<Longrightarrow> registries_has regs n"
  by (auto simp: registries_has_iff registry_get_register)

section \<open>Properties\<close>

text \<open>
  C23. Whatever the surroundings at start-up and whatever happens afterwards, in any order (merge calls
  on any tables with any modules, observations with any strings, rescans of any directory
  content, reloads), every metric label with a fixed set of values stays in that set, the
  failure log stays within its rate, and the registries dispatch to merges that answer in
  range, with the three built-ins always among them.
\<close>

theorem process_invariant:
  fixes he :: "('s, 'l) host_env" and hs :: "'t happening list"
  assumes "mono readings" "p = fold (happen api) hs (snd (build_registries he (process_new readings)))"
  shows "list_all labels_closed (w_metrics (ps_world p)) \<and>
    (\<forall>b. w_limiter (ps_world p) = Some b \<longrightarrow> failure_lines (ps_world p) \<le>
       10 + (w_clock (ps_world p) (w_reads (ps_world p)) - tb_origin b) div 1000000000) \<and>
    (\<forall>regs. ps_shared p = Some (Inr regs) \<longrightarrow> safe_registries regs \<and>
       registries_has regs ''first-hit'' \<and> registries_has regs ''pool-preferred'' \<and>
       registries_has regs ''last-write-wins'')"
proof -
  have "process_ok p"
    unfolding assms(2) by (intro happen_all_ok build_registries_ok process_new_ok assms(1))
  then have "world_ok (ps_world p)"
    "\<And>regs. ps_shared p = Some (Inr regs) \<Longrightarrow> safe_registries regs \<and> builtins regs = register registry_new"
    by (simp_all add: process_ok_def)
  then show ?thesis
    using world_ok_metrics failure_lines_bound safe_builtins_known by blast
qed

theorem process_invariant_witness:
  "list_all labels_closed (w_metrics (ps_world
     (fold (happen plain_api) [CallMerge (as_bytes ''first-hit'') example_table (Some example_opts),
        CallObserve [0xFF] [0xFF] [0xFF] None, Watch (he_fs bare_env) Rescan, Watch (he_fs bare_env) (Reload Config)]
       (snd (build_registries bare_env (process_new id))))))"
proof -
  have "mono (id :: nat \<Rightarrow> nat)"
    by (simp add: mono_def)
  show ?thesis
    by (rule conjunct1 [OF process_invariant [OF \<open>mono id\<close> refl]])
qed

text \<open>
  C27. Initialisation happens once: it succeeds exactly when the UDF directory resolves and, where there
  is one, the WASM engine starts and the directory can be listed, and, where a config path
  is set, the watcher can be armed; metrics exposition has no say in it. Every later
  state that asks gets the first answer, failure included, whatever the surroundings have
  become.
\<close>

theorem init_once:
  "case build_registries he (process_new readings) of (r, p) \<Rightarrow>
     ((\<exists>regs. r = Inr regs) \<longleftrightarrow> (\<exists>dir. udfs_ready he dir \<and> reload_ready he dir)) \<and>
     build_registries he' p = (r, p)"
proof -
  obtain r w where init: "init_shared he (world_new readings) = (r, w)"
    by (cases "init_shared he (world_new readings)")
  show ?thesis
    using init init_shared_Inr_iff [of he "world_new readings"]
    by (cases r) (auto simp: build_registries_def process_new_def)
qed

text \<open>
  C28. A rescan is all or nothing: if the directory cannot be listed to the end, the table in force stays
  and the failure is counted; otherwise the table is replaced by exactly the modules the
  listing makes of its files, and the built-ins stay.
\<close>

theorem rescan_atomic:
  "case rescan_into compile fs dir (regs, w) of (r, regs', w') \<Rightarrow>
     builtins regs' = builtins regs \<and>
     (case r of
        Inl e \<Rightarrow> \<not> listable fs dir \<and> regs' = regs \<and>
          (\<exists>m. w_metrics w' = m @ [IncUdfRescans \<lparr>l_result = ''error''\<rparr>])
      | Inr _ \<Rightarrow> (\<exists>files m. read_dir fs dir = Inr (map Inr files) \<and>
          bt_get (wasm regs') = module_for compile fs regs dir files \<and>
          w_metrics w' = m @ [SetRegistryMerges \<lparr>l_kind = ''wasm''\<rparr> (i64_or_max (length (wasm regs'))),
            IncUdfRescans \<lparr>l_result = ''ok''\<rparr>]))"
proof -
  obtain r regs' w' where call: "rescan_into compile fs dir (regs, w) = (r, regs', w')"
    by (cases "rescan_into compile fs dir (regs, w)") auto
  from call show ?thesis
  proof (cases rule: rescan_into_cases)
    case (Failed e w1)
    then have "\<not> listable fs dir"
      using call rescan_into_Inr_iff [of compile fs dir regs w] by auto
    then show ?thesis
      using call Failed by (simp add: record_metrics_def udf_rescan_def)
  next
    case (Published table w1)
    obtain files where files: "read_dir fs dir = Inr (map Inr files)"
      using scan_dir_complete [OF Published(1)] by blast
    then have "bt_get table = module_for compile fs regs dir files"
      using scan_dir_ok [OF files, of compile regs on_problem w] Published(1) by auto
    then show ?thesis
      using call Published files
      by (auto simp: record_metrics_def udf_rescan_def set_registry_merges_def swap_wasm_def)
  qed
qed

end
