(* ===== verification/Ticker.thy ===== *)
theory Ticker
  imports Wasm_Host
begin

text \<open>
  The crate mcgateway-wasm-host, fourth part: \<open>WasmHost\<close> and its epoch ticker, the thread
  whose increments of the engine's epoch are what a merge call's deadline counts.

  The thread, the owners of the host and the clock take steps in any order. The clock counts
  milliseconds. \<open>thread::sleep\<close> is documented to sleep at least as long as asked: it may
  return at any later time. How late it may be is a condition on a run (\<open>prompt\<close>), not
  part of the model.
\<close>

section \<open>Definitions\<close>

definition MAX_CONCURRENT_MERGES :: u32 where "MAX_CONCURRENT_MERGES = 256"

subsection \<open>Building a host\<close>

datatype opt_level = OptNone | Speed | SpeedAndSize

record engine_config =
  cranelift_opt_level :: opt_level
  epoch_interruption :: bool
  total_core_instances :: u32
  total_memories :: u32
  max_memory_size :: nat
  memory_init_cow :: bool

definition host_config :: engine_config where
  "host_config =
     \<lparr>cranelift_opt_level = Speed, epoch_interruption = True,
      total_core_instances = MAX_CONCURRENT_MERGES, total_memories = MAX_CONCURRENT_MERGES,
      max_memory_size = MAX_GUEST_MEMORY_BYTES, memory_init_cow = True\<rparr>"

text \<open>Where the thread is: at the loop's test, asleep since some time, awake, or returned.\<close>

datatype ticker_pc = AtLoad | Sleeping nat | Awake | Returned

text \<open>Where the drop of the handle is: not begun, waiting in \<open>join\<close>, over.\<close>

datatype drop_pc = NotDropped | Joining | Dropped

record ticker =
  tk_stop :: bool
  tk_join :: drop_pc
  tk_pc :: ticker_pc
  tk_epoch :: u64
  tk_clock :: nat
  tk_handles :: nat

definition spawn_ticker :: "nat \<Rightarrow> u64 \<Rightarrow> ticker" where
  "spawn_ticker clock epoch =
     \<lparr>tk_stop = False, tk_join = NotDropped, tk_pc = AtLoad, tk_epoch = epoch, tk_clock = clock,
      tk_handles = 1\<rparr>"

text \<open>
  \<open>WasmHost::new\<close>: wasmtime's \<open>Engine::new\<close> is the parameter, and so is whether the system
  can start a thread: when it cannot, \<open>expect\<close> panics (\<open>None\<close>).
\<close>

definition wasm_host_new ::
  "(engine_config \<Rightarrow> wasm_error + 'e) \<Rightarrow> bool \<Rightarrow> nat \<Rightarrow> (wasm_error + 'e \<times> ticker) option" where
  "wasm_host_new engine_new can_spawn clock =
     (case engine_new host_config of
        Inl e \<Rightarrow> Some (Inl e)
      | Inr engine \<Rightarrow> if can_spawn then Some (Inr (engine, spawn_ticker clock 0)) else None)"

subsection \<open>Steps\<close>

text \<open>One step of the thread; \<open>None\<close> while it cannot take one.\<close>

definition ticker_thread_step :: "ticker \<Rightarrow> ticker option" where
  "ticker_thread_step s =
     (case tk_pc s of
        AtLoad \<Rightarrow> Some (s\<lparr>tk_pc := if tk_stop s then Returned else Sleeping (tk_clock s)\<rparr>)
      | Sleeping since \<Rightarrow>
          if since + unat TICK_INTERVAL_MS \<le> tk_clock s then Some (s\<lparr>tk_pc := Awake\<rparr>) else None
      | Awake \<Rightarrow> Some (s\<lparr>tk_pc := AtLoad, tk_epoch := tk_epoch s + 1\<rparr>)
      | Returned \<Rightarrow> None)"

text \<open>
  The owners: \<open>WasmHost\<close> is cloned and dropped by counting references; the drop of the last
  one drops the \<open>TickerHandle\<close>, which sets the flag and waits for the thread.
\<close>

definition clone_host :: "ticker \<Rightarrow> ticker option" where
  "clone_host s = (if 0 < tk_handles s then Some (s\<lparr>tk_handles := Suc (tk_handles s)\<rparr>) else None)"

definition drop_host :: "ticker \<Rightarrow> ticker option" where
  "drop_host s =
     (if tk_handles s = 0 then None
      else if tk_handles s = 1 then Some (s\<lparr>tk_handles := 0, tk_stop := True, tk_join := Joining\<rparr>)
      else Some (s\<lparr>tk_handles := tk_handles s - 1\<rparr>))"

definition join_ticker :: "ticker \<Rightarrow> ticker option" where
  "join_ticker s =
     (if tk_join s = Joining \<and> tk_pc s = Returned then Some (s\<lparr>tk_join := Dropped\<rparr>) else None)"

datatype ticker_event = Thread | Millisecond | CloneHost | DropHost | JoinDone

fun ticker_step :: "ticker_event \<Rightarrow> ticker \<Rightarrow> ticker option" where
  "ticker_step Thread s = ticker_thread_step s"
| "ticker_step Millisecond s = Some (s\<lparr>tk_clock := Suc (tk_clock s)\<rparr>)"
| "ticker_step CloneHost s = clone_host s"
| "ticker_step DropHost s = drop_host s"
| "ticker_step JoinDone s = join_ticker s"

fun ticker_run :: "ticker_event list \<Rightarrow> ticker \<Rightarrow> ticker option" where
  "ticker_run [] s = Some s"
| "ticker_run (e # es) s = Option.bind (ticker_step e s) (ticker_run es)"

text \<open>The states of a host that was built at some time.\<close>

inductive ticker_reachable :: "ticker \<Rightarrow> bool" where
  spawned: "ticker_reachable (spawn_ticker clock epoch)"
| step: "ticker_reachable s \<Longrightarrow> ticker_step e s = Some s' \<Longrightarrow> ticker_reachable s'"

text \<open>How often the epoch was incremented in a run.\<close>

fun increments :: "ticker_event list \<Rightarrow> ticker \<Rightarrow> nat" where
  "increments [] s = 0"
| "increments (e # es) s =
     (if e = Thread \<and> tk_pc s = Awake then 1 else 0) +
     (case ticker_step e s of None \<Rightarrow> 0 | Some s' \<Rightarrow> increments es s')"

text \<open>
  A run in which the thread is scheduled promptly: time passes only while it sleeps, and
  it sleeps at most \<open>late\<close> milliseconds longer than it asked.
\<close>

fun prompt :: "nat \<Rightarrow> ticker_event list \<Rightarrow> ticker \<Rightarrow> bool" where
  "prompt late [] s \<longleftrightarrow> True"
| "prompt late (e # es) s \<longleftrightarrow>
     (e = Millisecond \<longrightarrow>
        (case tk_pc s of Sleeping since \<Rightarrow> tk_clock s < since + unat TICK_INTERVAL_MS + late | _ \<Rightarrow> False)) \<and>
     (case ticker_step e s of None \<Rightarrow> True | Some s' \<Rightarrow> prompt late es s')"

subsection \<open>The invariant and the measures of the proofs\<close>

text \<open>The flag, the references and the drop go together, and only a raised flag ends the thread.\<close>

definition ticker_inv :: "ticker \<Rightarrow> bool" where
  "ticker_inv s \<longleftrightarrow>
     (tk_stop s \<longleftrightarrow> tk_handles s = 0) \<and> (tk_join s = NotDropped \<longleftrightarrow> \<not> tk_stop s) \<and>
     (tk_pc s = Returned \<longrightarrow> tk_stop s) \<and>
     (\<forall>since. tk_pc s = Sleeping since \<longrightarrow> since \<le> tk_clock s)"

text \<open>
  What is already paid towards the next increment: two milliseconds when the thread is
  past its sleep, the time slept so far while it sleeps.
\<close>

definition paid :: "ticker \<Rightarrow> nat" where
  "paid s = (case tk_pc s of AtLoad \<Rightarrow> 0 | Sleeping since \<Rightarrow> min 2 (tk_clock s - since) | Awake \<Rightarrow> 2 | Returned \<Rightarrow> 0)"

text \<open>The part of a tick already spent, at most all of it.\<close>

definition owed :: "nat \<Rightarrow> ticker \<Rightarrow> nat" where
  "owed late s = (case tk_pc s of Sleeping since \<Rightarrow> min (2 + late) (tk_clock s - since) | Awake \<Rightarrow> 2 + late | _ \<Rightarrow> 0)"

text \<open>The steps the thread has left once the flag is up.\<close>

fun steps_left :: "ticker_pc \<Rightarrow> nat" where
  "steps_left Returned = 0"
| "steps_left AtLoad = 1"
| "steps_left Awake = 2"
| "steps_left (Sleeping since) = 3"

section \<open>Lemmas\<close>

lemmas ticker_steps = ticker_thread_step_def clone_host_def drop_host_def join_ticker_def

inductive_cases ticker_reachable_elim: "ticker_reachable s"

lemma ticker_inv_spawn: "ticker_inv (spawn_ticker clock epoch)"
  by (simp add: ticker_inv_def spawn_ticker_def)

lemma ticker_inv_step:
  "ticker_inv s \<Longrightarrow> ticker_step e s = Some s' \<Longrightarrow> ticker_inv s'"
  by (cases e) (auto simp: ticker_inv_def ticker_steps split: ticker_pc.splits if_splits)

lemma ticker_inv_reachable: "ticker_reachable s \<Longrightarrow> ticker_inv s"
  by (induction rule: ticker_reachable.induct) (auto intro: ticker_inv_spawn ticker_inv_step)

lemma ticker_run_ConsE:
  assumes "ticker_run (e # es) s = Some s'"
  obtains s1 where "ticker_step e s = Some s1" "ticker_run es s1 = Some s'"
  using assms by (auto simp: bind_eq_Some_conv)

lemma ticker_inv_run: "ticker_inv s \<Longrightarrow> ticker_run es s = Some s' \<Longrightarrow> ticker_inv s'"
  by (induction es arbitrary: s) (auto simp: bind_eq_Some_conv dest: ticker_inv_step)

lemma ticker_reachable_run: "ticker_reachable s \<Longrightarrow> ticker_run es s = Some s' \<Longrightarrow> ticker_reachable s'"
  by (induction es arbitrary: s) (auto simp: bind_eq_Some_conv dest: ticker_reachable.step)

lemma tick_ms: "unat TICK_INTERVAL_MS = 2"
  by (simp add: TICK_INTERVAL_MS_def)

lemma default_ticks: "unat default_deadline_ticks = 25"
  by (simp add: default_deadline_ticks_value)

lemma ticker_run_epoch:
  "ticker_run es s = Some s' \<Longrightarrow> tk_epoch s' = tk_epoch s + of_nat (increments es s)"
proof (induction es arbitrary: s)
  case (Cons e es)
  obtain s1 where s1: "ticker_step e s = Some s1" and run: "ticker_run es s1 = Some s'"
    using Cons.prems by (rule ticker_run_ConsE)
  have "tk_epoch s1 = tk_epoch s + (if e = Thread \<and> tk_pc s = Awake then 1 else 0)"
    using s1 by (cases e) (auto simp: ticker_steps split: ticker_pc.splits if_splits)
  with Cons.IH [OF run] s1 show ?case
    by simp
qed simp

subsection \<open>The deadline\<close>

lemma increments_cost:
  "ticker_inv s \<Longrightarrow> ticker_run es s = Some s' \<Longrightarrow>
   2 * increments es s + tk_clock s \<le> tk_clock s' + paid s"
proof (induction es arbitrary: s)
  case (Cons e es)
  obtain s1 where s1: "ticker_step e s = Some s1" and run: "ticker_run es s1 = Some s'"
    using Cons.prems(2) by (rule ticker_run_ConsE)
  have "2 * increments es s1 + tk_clock s1 \<le> tk_clock s' + paid s1"
    using Cons.IH run ticker_inv_step [OF Cons.prems(1) s1] by simp
  moreover have "2 * (if e = Thread \<and> tk_pc s = Awake then 1 else 0) + tk_clock s + paid s1 \<le> tk_clock s1 + paid s"
    using s1 Cons.prems(1)
    by (cases e) (auto simp: ticker_steps paid_def ticker_inv_def tick_ms split: ticker_pc.splits if_splits)
  ultimately show ?case
    using s1 by simp
qed simp

lemma owed_le: "owed late s \<le> 2 + late"
  by (simp add: owed_def split: ticker_pc.split)

lemma prompt_increments:
  "ticker_inv s \<Longrightarrow> ticker_run es s = Some s' \<Longrightarrow> prompt late es s \<Longrightarrow>
   tk_clock s' + owed late s \<le> tk_clock s + (2 + late) * increments es s + owed late s'"
proof (induction es arbitrary: s)
  case (Cons e es)
  obtain s1 where s1: "ticker_step e s = Some s1" and run: "ticker_run es s1 = Some s'"
    using Cons.prems(2) by (rule ticker_run_ConsE)
  have one: "tk_clock s1 + owed late s \<le>
      tk_clock s + (2 + late) * (if e = Thread \<and> tk_pc s = Awake then 1 else 0) + owed late s1"
    using s1 Cons.prems(1,3)
    by (cases e) (auto simp: ticker_steps owed_def ticker_inv_def tick_ms split: ticker_pc.splits if_splits)
  have "prompt late es s1"
    using Cons.prems(3) s1 by simp
  with Cons.IH [OF ticker_inv_step [OF Cons.prems(1) s1] run] one s1 show ?case
    by (auto simp: algebra_simps)
qed simp

subsection \<open>Stopping\<close>

lemma steps_left_bound: "steps_left pc \<le> 3"
  by (cases pc) auto

lemma stopped_step:
  assumes "tk_stop s" "ticker_step e s = Some s'"
  shows "tk_stop s'" "steps_left (tk_pc s') + (if e = Thread then 1 else 0) = steps_left (tk_pc s)"
    "(if e = Thread \<and> tk_pc s = Awake then 1 else 0) + (if 2 \<le> steps_left (tk_pc s') then 1 else 0)
      \<le> (if 2 \<le> steps_left (tk_pc s) then 1 else (0::nat))"
  using assms by (cases e; auto simp: ticker_steps split: ticker_pc.splits if_splits)+

lemma stopped_run:
  "tk_stop s \<Longrightarrow> ticker_run es s = Some s' \<Longrightarrow>
   tk_stop s' \<and> count_list es Thread + steps_left (tk_pc s') = steps_left (tk_pc s) \<and>
   increments es s \<le> (if 2 \<le> steps_left (tk_pc s) then 1 else 0)"
proof (induction es arbitrary: s)
  case (Cons e es)
  obtain s1 where s1: "ticker_step e s = Some s1" and run: "ticker_run es s1 = Some s'"
    using Cons.prems(2) by (rule ticker_run_ConsE)
  note one = stopped_step [OF Cons.prems(1) s1]
  from Cons.IH [OF one(1) run] one s1 show ?case
    by (auto split: if_splits)
qed simp

text \<open>A sleep that began before the drop is over two milliseconds after it.\<close>

lemma stopped_asleep:
  assumes "tk_stop s" "ticker_run es s = Some s'" "tk_pc s' = Sleeping since"
  shows "tk_pc s = Sleeping since"
  using assms
proof (induction es arbitrary: s)
  case (Cons e es)
  obtain s1 where s1: "ticker_step e s = Some s1" and run: "ticker_run es s1 = Some s'"
    using Cons.prems(2) by (rule ticker_run_ConsE)
  have "tk_pc s1 = Sleeping since"
    using Cons.IH [OF stopped_step(1) [OF Cons.prems(1) s1] run] Cons.prems(3) by simp
  then show ?case
    using s1 Cons.prems(1) by (cases e) (auto simp: ticker_steps split: ticker_pc.splits if_splits)
qed simp

lemma stopped_progress:
  assumes "ticker_inv s" "tk_stop s" "ticker_run es s = Some s'"
  shows "tk_join s' = Dropped \<or> ticker_step Thread s' \<noteq> None \<or> ticker_step JoinDone s' \<noteq> None \<or>
    tk_clock s' < tk_clock s + 2"
proof (cases "tk_pc s'")
  case (Sleeping since)
  have "since \<le> tk_clock s"
    using stopped_asleep [OF assms(2,3) Sleeping] assms(1) by (simp add: ticker_inv_def)
  then show ?thesis
    using Sleeping by (auto simp: ticker_thread_step_def tick_ms)
next
  case Returned
  have "tk_join s' = Joining \<or> tk_join s' = Dropped"
    using ticker_inv_run [OF assms(1,3)] stopped_run [OF assms(2,3)]
    by (cases "tk_join s'") (auto simp: ticker_inv_def)
  then show ?thesis
    using Returned by (auto simp: join_ticker_def)
qed (simp_all add: ticker_thread_step_def)

lemma drop_last:
  assumes "ticker_inv s" "tk_handles s = 1" "drop_host s = Some s1"
  shows "ticker_inv s1" "tk_stop s1"
  using assms ticker_inv_step [of s DropHost s1] by (auto simp: drop_host_def)

section \<open>Properties\<close>

text \<open>
  C4. Dropping the last \<open>WasmHost\<close> returns. However the thread, the clock and the join
  interleave from then on, the thread takes at most three more steps and increments the
  epoch at most once more; and as long as the drop is not over, either the thread or the
  join can go on, or two milliseconds have not passed since the drop.
\<close>

theorem ticker_stops:
  assumes "ticker_reachable s" "tk_handles s = 1" "drop_host s = Some s1" "ticker_run es s1 = Some s2"
  shows "count_list es Thread \<le> 3 \<and> increments es s1 \<le> 1 \<and>
    (tk_join s2 = Dropped \<or> ticker_step Thread s2 \<noteq> None \<or> ticker_step JoinDone s2 \<noteq> None \<or>
     tk_clock s2 < tk_clock s1 + 2)"
proof -
  note dropped = drop_last [OF ticker_inv_reachable [OF assms(1)] assms(2,3)]
  have "count_list es Thread \<le> 3 \<and> increments es s1 \<le> 1"
    using stopped_run [OF dropped(2) assms(4)] steps_left_bound [of "tk_pc s1"] by (auto split: if_splits)
  then show ?thesis
    using stopped_progress [OF dropped assms(4)] by blast
qed

theorem ticker_stops_witness:
  "\<exists>s s1 s2. ticker_run [Thread, Millisecond] (spawn_ticker 0 0) = Some s \<and> drop_host s = Some s1 \<and>
     ticker_run [Millisecond, Thread, Thread, Thread, JoinDone] s1 = Some s2 \<and>
     count_list [Millisecond, Thread, Thread, Thread, JoinDone] Thread \<le> 3 \<and>
     increments [Millisecond, Thread, Thread, Thread, JoinDone] s1 \<le> 1 \<and> tk_join s2 = Dropped"
proof -
  define s where "s = the (ticker_run [Thread, Millisecond] (spawn_ticker 0 0))"
  define s1 where "s1 = the (drop_host s)"
  define s2 where "s2 = the (ticker_run [Millisecond, Thread, Thread, Thread, JoinDone] s1)"
  have s: "ticker_run [Thread, Millisecond] (spawn_ticker 0 0) = Some s" "tk_handles s = 1"
    by (simp_all add: s_def ticker_steps spawn_ticker_def)
  have s1: "drop_host s = Some s1"
    using s(2) by (simp add: s1_def drop_host_def)
  have s2: "ticker_run [Millisecond, Thread, Thread, Thread, JoinDone] s1 = Some s2" "tk_join s2 = Dropped"
    by (simp_all add: s2_def s1_def s_def ticker_steps spawn_ticker_def tick_ms)
  have "ticker_reachable s"
    using ticker_reachable_run [OF ticker_reachable.spawned s(1)] .
  from ticker_stops [OF this s(2) s1 s2(1)] s s1 s2 show ?thesis
    by blast
qed



end
