(* ===== verification/Deadlines.thy ===== *)
theory Deadlines
  imports Process Ticker
begin

text \<open>
  Who keeps the epoch ticker alive. \<open>init_shared\<close> (lib.rs of mcgateway-clib) builds the
  \<open>WasmHost\<close> in a local variable and clones it into the closure of the watcher; a loaded
  \<open>WasmMerge\<close> keeps the engine and no host. The steps of \<open>init_shared\<close> on the references of
  the host are \<open>init_host_events\<close>; the ticker of Ticker takes them.
\<close>

section \<open>Definitions\<close>

text \<open>
  What \<open>init_shared\<close> does to the references of the host, statement by statement. Without a
  directory or after a failed \<open>WasmHost::new\<close> there is no host. Where the scan fails the
  function returns and drops its local variable. With a configuration path the closure of
  the rescan takes a clone; a watcher that cannot be spawned drops its closure, and the
  local variable is dropped on the way out in any case.
\<close>

definition reload_host_events :: "('s, 'l) host_env \<Rightarrow> path \<Rightarrow> ticker_event list" where
  "reload_host_events he dir =
     (case he_env he CONFIG_ENV of
        None \<Rightarrow> []
      | Some config_path \<Rightarrow>
          CloneHost #
          (case spawn (he_fs he) (he_notifier he) (he_watcher_thread he) (plan_new (path_of config_path) (Some dir)) of
             Inl e \<Rightarrow> [DropHost]
           | Inr watch \<Rightarrow> []))"

definition init_host_events :: "('s, 'l) host_env \<Rightarrow> world \<Rightarrow> ticker_event list" where
  "init_host_events he w =
     (case udf_dir (he_env he) (he_fs he) of
        Inl custom \<Rightarrow> []
      | Inr None \<Rightarrow> []
      | Inr (Some dir) \<Rightarrow>
          (case he_wasm_host he of
             Inl e \<Rightarrow> []
           | Inr compile \<Rightarrow>
               (case fst (rescan_into compile (he_fs he) dir (builtin_registries,
                      record_metrics (set_registry_merges ''builtin''
                        (length (registry_names (register registry_new :: world registry)))) (arm_exporter he w))) of
                  Inl e \<Rightarrow> [DropHost]
                | Inr _ \<Rightarrow> reload_host_events he dir @ [DropHost])))"

text \<open>The events of the host's owners; the others are the thread's, the clock's and the join's.\<close>

definition owner :: "ticker_event \<Rightarrow> bool" where
  "owner e \<longleftrightarrow> e = CloneHost \<or> e = DropHost"

text \<open>Surroundings with an empty UDF directory and no configuration path.\<close>

definition standalone_env :: "(unit, unit) host_env" where
  "standalone_env = bare_env
     \<lparr>he_env := (\<lambda>k. if k = ''MCGW_UDF_DIR'' then Some ''udf'' else None),
      he_fs := \<lparr>is_dir = (\<lambda>_. True), read_dir = (\<lambda>_. Inr []), fs_read = (\<lambda>_. Inl TimedOut),
                canonicalize = (\<lambda>_. Inl TimedOut)\<rparr>,
      he_wasm_host := Inr (\<lambda>_. Inl (ErrRuntime 0))\<rparr>"

section \<open>Lemmas\<close>

lemma handles_step:
  "ticker_step e s = Some s' \<Longrightarrow>
   tk_handles s' + (if e = DropHost then 1 else 0) = tk_handles s + (if e = CloneHost then 1 else 0)"
  by (cases e) (auto simp: ticker_steps split: ticker_pc.splits if_splits)

lemma handles_run:
  "ticker_run es s = Some s' \<Longrightarrow>
   tk_handles s' + count_list es DropHost = tk_handles s + count_list es CloneHost"
proof (induction es arbitrary: s)
  case (Cons e es)
  obtain s1 where s1: "ticker_step e s = Some s1" and run: "ticker_run es s1 = Some s'"
    using Cons.prems by (rule ticker_run_ConsE)
  from Cons.IH [OF run] handles_step [OF s1] show ?case
    by (auto split: if_splits)
qed simp

lemma count_owner:
  "owner e \<Longrightarrow> count_list es e = count_list (filter owner es) e"
  by (induction es) auto

lemma handles_after:
  assumes "ticker_run es s = Some s'"
  shows "tk_handles s' + count_list (filter owner es) DropHost =
    tk_handles s + count_list (filter owner es) CloneHost"
  using handles_run [OF assms] count_owner [of DropHost es] count_owner [of CloneHost es]
  by (simp add: owner_def)

lemma reload_host_events_armed:
  "arm_reload he (Some dir) w = (Inr watch, w') \<Longrightarrow>
   reload_host_events he dir = (if he_env he CONFIG_ENV = None then [] else [CloneHost])"
  by (auto simp: arm_reload_def reload_host_events_def split: option.splits sum.splits)

lemma load_udfs_built:
  assumes "load_udfs he regs w = (Inr (regs', Some udf), w')"
  obtains dir compile where "udf_dir (he_env he) (he_fs he) = Inr (Some dir)" "he_wasm_host he = Inr compile"
    "fst (rescan_into compile (he_fs he) dir (regs, w)) = Inr ()" "udf = (compile, dir)"
  using assms by (auto simp: load_udfs_def split: option.splits sum.splits prod.splits)

lemma load_udfs_none:
  "load_udfs he regs w = (Inr (regs', None), w') \<Longrightarrow> udf_dir (he_env he) (he_fs he) = Inr None"
  by (auto simp: load_udfs_def split: option.splits sum.splits prod.splits)

lemma init_standalone:
  obtains regs udf watch w' where "init_shared standalone_env w = (Inr (regs, Some udf, watch), w')"
proof -
  have dir: "udf_dir (he_env standalone_env) (he_fs standalone_env) = Inr (Some (path_of ''udf''))"
    by (simp add: standalone_env_def udf_dir_def UDF_DIR_ENV_def)
  have "udfs_ready standalone_env (Some (path_of ''udf''))"
    using dir by (simp add: udfs_ready_def) (simp add: standalone_env_def listable_def)
  moreover have "reload_ready standalone_env (Some (path_of ''udf''))"
    by (simp add: reload_ready_def standalone_env_def CONFIG_ENV_def)
  ultimately obtain x w' where x: "init_shared standalone_env w = (Inr x, w')"
    using init_shared_Inr_iff [of standalone_env w] by (cases "init_shared standalone_env w") auto
  then show ?thesis
  proof (cases rule: init_shared_cases)
    case (Ready regs udf watch w1)
    have "udf \<noteq> None"
    proof
      assume "udf = None"
      from load_udfs_none [OF Ready(1) [unfolded this]] dir show False
        by simp
    qed
    then show ?thesis
      using that x Ready(3) by auto
  qed simp_all
qed

lemma init_host_events_ready:
  assumes "init_shared he w = (Inr (regs, Some udf, watch), w')"
  shows "init_host_events he w =
    (if he_env he CONFIG_ENV = None then [DropHost] else [CloneHost, DropHost])"
  using assms
proof (cases rule: init_shared_cases)
  case (Ready regs1 udf1 watch1 w1)
  have udf: "udf1 = Some udf"
    using Ready(3) by simp
  obtain dir compile where built: "udf_dir (he_env he) (he_fs he) = Inr (Some dir)" "he_wasm_host he = Inr compile"
    "fst (rescan_into compile (he_fs he) dir (builtin_registries,
       record_metrics (set_registry_merges ''builtin'' 3) (arm_exporter he w))) = Inr ()" "udf = (compile, dir)"
    by (rule load_udfs_built [OF Ready(1) [unfolded udf]])
  have "arm_reload he (Some dir) w1 = (Inr watch1, w')"
    using Ready(2) udf built(4) by simp
  from reload_host_events_armed [OF this] built(1-3) show ?thesis
    by (simp add: init_host_events_def builtin_count)
qed simp_all

section \<open>Properties\<close>

text \<open>
  C2. The deadline of WASM merges is in force exactly when live reload is. Let
  initialisation succeed with a UDF directory, with the thread and the clock running
  beside it. Without \<open>MCGATEWAY_CONFIG\<close> nothing keeps the host: the ticker increments the
  epoch at most once more, so the 25 ticks of a call's deadline never pass. With it, the
  watcher's closure keeps the host and the thread never returns.
\<close>

theorem deadline_in_force:
  assumes "init_shared he w = (Inr (regs, Some udf, watch), w')"
    and "ticker_run es0 (spawn_ticker t0 epoch) = Some s" "filter owner es0 = init_host_events he w"
    and "ticker_run es s = Some s'" "filter owner es = []"
  shows "if he_env he CONFIG_ENV = None
    then increments es s \<le> 1 \<and> increments es s < unat default_deadline_ticks
    else tk_handles s' = 1 \<and> tk_pc s' \<noteq> Returned"
proof -
  have inv: "ticker_inv s" "ticker_inv s'"
    using ticker_inv_run ticker_inv_spawn assms(2,4) by blast+
  have handles: "tk_handles s' = tk_handles s" "tk_handles s =
      (if he_env he CONFIG_ENV = None then 0 else 1)"
    using handles_after [OF assms(4)] handles_after [OF assms(2)] assms(3,5)
      init_host_events_ready [OF assms(1)]
    by (auto simp: spawn_ticker_def split: if_splits)
  show ?thesis
  proof (cases "he_env he CONFIG_ENV = None")
    case True
    then have "increments es s \<le> 1"
      using stopped_run [of s es s'] inv(1) handles assms(4) by (auto simp: ticker_inv_def split: if_splits)
    then show ?thesis
      using True by (simp add: default_ticks)
  next
    case False
    then show ?thesis
      using inv(2) handles by (auto simp: ticker_inv_def)
  qed
qed

theorem deadline_in_force_witness:
  "\<exists>regs udf watch w' s s'. init_shared standalone_env (world_new (\<lambda>n. n)) = (Inr (regs, Some udf, watch), w') \<and>
     ticker_run [Thread, DropHost] (spawn_ticker 0 0) = Some s \<and>
     ticker_run [Millisecond, Millisecond, Thread, Thread, Thread, JoinDone] s = Some s' \<and>
     increments [Millisecond, Millisecond, Thread, Thread, Thread, JoinDone] s < unat default_deadline_ticks"
proof -
  obtain regs udf watch w' where
    init: "init_shared standalone_env (world_new (\<lambda>n. n)) = (Inr (regs, Some udf, watch), w')"
    by (rule init_standalone)
  have env: "he_env standalone_env CONFIG_ENV = None"
    by (simp add: standalone_env_def CONFIG_ENV_def)
  define s where "s = the (ticker_run [Thread, DropHost] (spawn_ticker 0 0))"
  have s: "ticker_run [Thread, DropHost] (spawn_ticker 0 0) = Some s"
    by (simp add: s_def ticker_steps spawn_ticker_def)
  obtain s' where s': "ticker_run [Millisecond, Millisecond, Thread, Thread, Thread, JoinDone] s = Some s'"
    by (simp add: s_def ticker_steps spawn_ticker_def tick_ms)
  have "increments [Millisecond, Millisecond, Thread, Thread, Thread, JoinDone] s < unat default_deadline_ticks"
    using deadline_in_force [OF init s _ s'] init_host_events_ready [OF init] env
    by (simp add: owner_def)
  then show ?thesis
    using init s s' by blast
qed

end
