(* ===== verification/Logging.thy ===== *)
theory Logging
  imports Wasm_Abi
begin

text \<open>
  Log lines from the guest to standard error: the \<open>log\<close> module and the macros of
  mcgateway-sdk, the import they reach (\<open>mcgw_log\<close> of Wasm_Abi), and the logger of
  mcgateway-clib, logging.rs.

  The facade between the host and the logger is the crate \<open>log\<close>, on a global state of its
  own: the record \<open>log_crate\<close>, a parameter. \<open>lc_enabled\<close> is the comparison with the maximal level
  that \<open>log::log!\<close> makes before it calls the logger, \<open>lc_allows\<close> the order of levels and
  filters.
\<close>

section \<open>Definitions\<close>

subsection \<open>The guest\<close>

datatype sdk_level = SdkTrace | SdkDebug | SdkInfo | SdkWarn | SdkError

fun sdk_level_code :: "sdk_level \<Rightarrow> u32" where
  "sdk_level_code SdkTrace = 0"
| "sdk_level_code SdkDebug = 1"
| "sdk_level_code SdkInfo = 2"
| "sdk_level_code SdkWarn = 3"
| "sdk_level_code SdkError = 4"

text \<open>
  \<open>emit\<close> on wasm32: the call of the import for a message at \<open>ptr\<close> of the guest's memory.
  The macros format their arguments and call it at their level.
\<close>

definition emit ::
  "(nat \<Rightarrow> nat \<Rightarrow> bytes option) option \<Rightarrow> sdk_level \<Rightarrow> u32 \<Rightarrow> string \<Rightarrow> log_call" where
  "emit memory level ptr msg = (memory, sdk_level_code level, ptr, of_nat (length (as_bytes msg)))"

definition trace_macro :: "(nat \<Rightarrow> nat \<Rightarrow> bytes option) option \<Rightarrow> u32 \<Rightarrow> string \<Rightarrow> log_call" where
  "trace_macro memory ptr formatted = emit memory SdkTrace ptr formatted"
definition debug_macro :: "(nat \<Rightarrow> nat \<Rightarrow> bytes option) option \<Rightarrow> u32 \<Rightarrow> string \<Rightarrow> log_call" where
  "debug_macro memory ptr formatted = emit memory SdkDebug ptr formatted"
definition info_macro :: "(nat \<Rightarrow> nat \<Rightarrow> bytes option) option \<Rightarrow> u32 \<Rightarrow> string \<Rightarrow> log_call" where
  "info_macro memory ptr formatted = emit memory SdkInfo ptr formatted"
definition warn_macro :: "(nat \<Rightarrow> nat \<Rightarrow> bytes option) option \<Rightarrow> u32 \<Rightarrow> string \<Rightarrow> log_call" where
  "warn_macro memory ptr formatted = emit memory SdkWarn ptr formatted"
definition error_macro :: "(nat \<Rightarrow> nat \<Rightarrow> bytes option) option \<Rightarrow> u32 \<Rightarrow> string \<Rightarrow> log_call" where
  "error_macro memory ptr formatted = emit memory SdkError ptr formatted"

text \<open>The import the SDK declares, and the one the host's linker defines beside WASI.\<close>

definition sdk_log_import :: "string \<times> string" where
  "sdk_log_import = (''mcgw'', ''log'')"

definition build_linker :: "(string \<times> string) list \<Rightarrow> (string \<times> string) list" where
  "build_linker wasi = wasi @ [(''mcgw'', ''log'')]"

subsection \<open>The logger\<close>

definition LOG_ENV :: string where "LOG_ENV = ''MCGW_LOG''"

record ('f, 'g) log_crate =
  lc_info :: 'f
  lc_parse :: "string \<Rightarrow> 'f option"
  lc_set_logger :: "'g \<Rightarrow> bool \<times> 'g"
  lc_set_max_level :: "'f \<Rightarrow> 'g \<Rightarrow> 'g"
  lc_display :: "log_level \<Rightarrow> string"
  lc_enabled :: "'g \<Rightarrow> log_level \<Rightarrow> bool"
  lc_allows :: "'f \<Rightarrow> log_level \<Rightarrow> bool"

definition level_from_env :: "('f, 'g) log_crate \<Rightarrow> (string \<Rightarrow> string option) \<Rightarrow> 'f" where
  "level_from_env lc env =
     (case Option.bind (env LOG_ENV) (lc_parse lc) of None \<Rightarrow> lc_info lc | Some level \<Rightarrow> level)"

definition logging_init :: "('f, 'g) log_crate \<Rightarrow> (string \<Rightarrow> string option) \<Rightarrow> 'g \<Rightarrow> 'g" where
  "logging_init lc env g =
     (let level = level_from_env lc env;
          (is_ok, g) = lc_set_logger lc g
      in if is_ok then lc_set_max_level lc level g else g)"

definition logger_enabled :: "log_level \<Rightarrow> bool" where
  "logger_enabled metadata = True"

text \<open>The bytes of one record, written with one call.\<close>

definition logger_log :: "('f, 'g) log_crate \<Rightarrow> log_level \<Rightarrow> string \<Rightarrow> string \<Rightarrow> bytes" where
  "logger_log lc level target args =
     as_bytes (''mcgw ['' @ lc_display lc level @ ''] '' @ target @ '': '' @ args @ [char_of (10::nat)])"

text \<open>The arguments of the record the host makes of a guest's line.\<close>

definition log_args :: "log_line \<Rightarrow> string" where
  "log_args l = ''mcgw.log '' @ ll_module l @ '': '' @ ll_msg l"

text \<open>
  What a merge call of the module \<open>name\<close> that makes the given log calls writes to standard
  error, with our logger installed and the facade in state \<open>g\<close>. The target of a record is the
  crate that logs.
\<close>

definition merge_stderr :: "('f, 'g) log_crate \<Rightarrow> 'g \<Rightarrow> string \<Rightarrow> log_call list \<Rightarrow> bytes" where
  "merge_stderr lc g name calls =
     concat (map (\<lambda>l. logger_log lc (ll_level l) ''mcgateway_wasm_host'' (log_args l))
       (snd (run_log_calls (lc_enabled lc g) calls (store_data_new name))))"

subsection \<open>What should be written\<close>

text \<open>
  What the crate documents: records pass that the maximal level set last allows, and the
  filter \<open>Info\<close> allows the levels info, warn and error.
\<close>

definition log_facade :: "('f, 'g) log_crate \<Rightarrow> bool" where
  "log_facade lc \<longleftrightarrow>
     (\<forall>f g l. lc_enabled lc (lc_set_max_level lc f g) l = lc_allows lc f l) \<and>
     (\<forall>l. lc_allows lc (lc_info lc) l \<longleftrightarrow> l = LInfo \<or> l = LWarn \<or> l = LError)"

text \<open>The levels the operator asked for; without a readable setting, info and above.\<close>

definition wanted :: "('f, 'g) log_crate \<Rightarrow> (string \<Rightarrow> string option) \<Rightarrow> log_level \<Rightarrow> bool" where
  "wanted lc env l =
     (case Option.bind (env ''MCGW_LOG'') (lc_parse lc) of
        None \<Rightarrow> l = LInfo \<or> l = LWarn \<or> l = LError
      | Some f \<Rightarrow> lc_allows lc f l)"

text \<open>The host's level for a level of the SDK.\<close>

fun host_level :: "sdk_level \<Rightarrow> log_level" where
  "host_level SdkTrace = LTrace"
| "host_level SdkDebug = LDebug"
| "host_level SdkInfo = LInfo"
| "host_level SdkWarn = LWarn"
| "host_level SdkError = LError"

text \<open>The guest's memory holds a message: every read within it gives its bytes.\<close>

definition holds :: "(nat \<Rightarrow> nat \<Rightarrow> bytes option) option \<Rightarrow> u32 \<Rightarrow> string \<Rightarrow> bool" where
  "holds memory ptr msg \<longleftrightarrow> length (as_bytes msg) < 2 ^ 32 \<and>
     (\<exists>rd. memory = Some rd \<and> (\<forall>n \<le> length (as_bytes msg). rd (unat ptr) n = Some (take n (as_bytes msg))))"

type_synonym guest_message = "(nat \<Rightarrow> nat \<Rightarrow> bytes option) option \<times> sdk_level \<times> u32 \<times> string"

definition guest_call :: "guest_message \<Rightarrow> log_call" where
  "guest_call g = (case g of (memory, level, ptr, msg) \<Rightarrow> emit memory level ptr msg)"

definition in_memory :: "guest_message \<Rightarrow> bool" where
  "in_memory g = (case g of (memory, level, ptr, msg) \<Rightarrow> holds memory ptr msg)"

definition wanted_message :: "('f, 'g) log_crate \<Rightarrow> (string \<Rightarrow> string option) \<Rightarrow> guest_message \<Rightarrow> bool" where
  "wanted_message lc env g = (case g of (memory, level, ptr, msg) \<Rightarrow> wanted lc env (host_level level))"

text \<open>A message as it arrives: cut at 4096 bytes, and what is no UTF-8 then replaced.\<close>

definition arrives :: "string \<Rightarrow> string" where
  "arrives msg = from_utf8_lossy (take 4096 (as_bytes msg))"

definition expected_bytes :: "('f, 'g) log_crate \<Rightarrow> string \<Rightarrow> guest_message \<Rightarrow> bytes" where
  "expected_bytes lc name g =
     (case g of (memory, level, ptr, msg) \<Rightarrow>
        as_bytes (''mcgw ['' @ lc_display lc (host_level level) @ ''] mcgateway_wasm_host: mcgw.log '' @ name @
          '': '' @ arrives msg @ [char_of (10::nat)]))"

text \<open>The record the host makes of a message.\<close>

definition expected_line :: "string \<Rightarrow> guest_message \<Rightarrow> log_line" where
  "expected_line name g =
     (case g of (memory, level, ptr, msg) \<Rightarrow>
        \<lparr>ll_level = host_level level, ll_module = name, ll_msg = arrives msg\<rparr>)"

text \<open>A facade with a maximal level and a flag for the logger.\<close>

fun severity :: "log_level \<Rightarrow> nat" where
  "severity LError = 1"
| "severity LWarn = 2"
| "severity LInfo = 3"
| "severity LDebug = 4"
| "severity LTrace = 5"

definition small_facade :: "(nat, nat \<times> bool) log_crate" where
  "small_facade =
     \<lparr>lc_info = 3, lc_parse = (\<lambda>v. if v = ''error'' then Some 1 else if v = ''trace'' then Some 5 else None),
      lc_set_logger = (\<lambda>(f, set). (\<not> set, (f, True))), lc_set_max_level = (\<lambda>f (_, set). (f, set)),
      lc_display = (\<lambda>l. case l of LError \<Rightarrow> ''ERROR'' | LWarn \<Rightarrow> ''WARN'' | LInfo \<Rightarrow> ''INFO''
         | LDebug \<Rightarrow> ''DEBUG'' | LTrace \<Rightarrow> ''TRACE''),
      lc_enabled = (\<lambda>(f, _) l. severity l \<le> f), lc_allows = (\<lambda>f l. severity l \<le> f)\<rparr>"

section \<open>Lemmas\<close>

lemma levels_agree: "log_level_of (sdk_level_code level) = host_level level"
  by (cases level) (auto simp: log_level_of_def)

lemma guest_message_logged:
  assumes "holds memory ptr msg"
  shows "mcgw_log enabled memory (sdk_level_code level) ptr (of_nat (length (as_bytes msg))) st =
    (if log_budget_remaining st = 0 then (st, None)
     else (st\<lparr>log_budget_remaining := log_budget_remaining st - 1\<rparr>,
           if enabled (host_level level)
           then Some (expected_line (sd_module_name st) (memory, level, ptr, msg)) else None))"
proof -
  let ?n = "length (as_bytes msg)"
  obtain rd where rd: "memory = Some rd" "\<And>n. n \<le> ?n \<Longrightarrow> rd (unat ptr) n = Some (take n (as_bytes msg))"
    and small: "?n < 2 ^ 32"
    using assms by (auto simp: holds_def)
  have "unat (of_nat ?n :: u32) = ?n"
    using small by (simp add: unat_of_nat take_bit_nat_eq_self)
  then have "unat (min (of_nat ?n :: u32) LOG_MAX_BYTES) = min ?n 4096"
    by (simp add: min_def word_le_nat_alt LOG_MAX_BYTES_def)
  then have "rd (unat ptr) (unat (min (of_nat ?n :: u32) LOG_MAX_BYTES)) = Some (take 4096 (as_bytes msg))"
    using rd(2) [of "min ?n 4096"] by (simp add: min_def)
  then show ?thesis
    by (simp add: mcgw_log_def rd(1) levels_agree expected_line_def arrives_def)
qed

text \<open>A message below the maximal level spends budget all the same.\<close>

lemma guest_messages_logged:
  "\<forall>g \<in> set gs. in_memory g \<Longrightarrow>
   snd (run_log_calls enabled (map guest_call gs) st) =
     map (expected_line (sd_module_name st))
       (filter (\<lambda>(memory, level, ptr, msg). enabled (host_level level)) (take (unat (log_budget_remaining st)) gs))"
proof (induction gs arbitrary: st)
  case (Cons g gs)
  obtain memory level ptr msg where g: "g = (memory, level, ptr, msg)"
    by (cases g)
  have mem: "holds memory ptr msg" and rest: "\<forall>g \<in> set gs. in_memory g"
    using Cons.prems by (auto simp: g in_memory_def)
  let ?st = "st\<lparr>log_budget_remaining := log_budget_remaining st - 1\<rparr>"
  show ?case
  proof (cases "log_budget_remaining st = 0")
    case True
    then show ?thesis
      using Cons.IH [OF rest, of st] guest_message_logged [OF mem, of enabled level st]
      by (simp add: g guest_call_def emit_def split_beta)
  next
    case False
    then have "unat (log_budget_remaining st) = Suc (unat (log_budget_remaining ?st))"
      by (simp add: unat_pred [of "log_budget_remaining st"])
    then show ?thesis
      using Cons.IH [OF rest, of ?st] guest_message_logged [OF mem, of enabled level st] False
      by (simp add: g guest_call_def emit_def split_beta)
  qed
qed simp

lemma short_message: "is_str msg \<Longrightarrow> length msg \<le> 4096 \<Longrightarrow> arrives msg = msg"
  by (simp add: arrives_def from_utf8_lossy_as_bytes)

text \<open>The filter in force once our logger is installed.\<close>

lemma enabled_wanted:
  assumes "log_facade lc" "lc_set_logger lc g = (True, g')"
  shows "lc_enabled lc (logging_init lc env g) = wanted lc env"
  using assms by (auto simp: logging_init_def log_facade_def wanted_def level_from_env_def LOG_ENV_def fun_eq_iff
      split: option.split)

lemma logged_bytes:
  "logger_log lc (ll_level (expected_line name g)) ''mcgateway_wasm_host'' (log_args (expected_line name g)) =
   expected_bytes lc name g"
  by (cases g) (simp add: logger_log_def log_args_def expected_line_def expected_bytes_def)

text \<open>A logger that is not the first leaves the facade as it was, whatever the environment says.\<close>

lemma logging_init_twice:
  assumes "\<And>g. lc_set_logger lc g = (False, g) \<or> (\<exists>g'. lc_set_logger lc g = (True, g') \<and>
      (\<forall>level. lc_set_logger lc (lc_set_max_level lc level g') = (False, lc_set_max_level lc level g')))"
  shows "logging_init lc env' (logging_init lc env g) = logging_init lc env g"
  using assms [of g] by (auto simp: logging_init_def split: prod.splits)

lemma small_facade_ok: "log_facade small_facade"
proof -
  have "severity l \<le> 3 \<longleftrightarrow> l = LInfo \<or> l = LWarn \<or> l = LError" for l
    by (cases l) auto
  then show ?thesis
    by (simp add: log_facade_def small_facade_def split_beta)
qed

section \<open>Properties\<close>



end
