(* ===== verification/Routes.thy ===== *)
theory Routes
  imports Process
begin

text \<open>
  The Lua side of a request: entries.lua, which makes entries of backend responses, and the
  handlers of routes.lua, which fan out, merge and reply.

  Responses, request contexts and the waiting for backends belong to memcached's proxy. A
  response is the record of what its methods answer (\<open>mcp_response\<close>); a handler is given
  the responses its wait produced, \<open>None\<close> for nil, and the calls of the native module act on
  the registries and world of Native. Lua strings are bytes.
\<close>

section \<open>Definitions\<close>

datatype mcmc_code = CodeStored | CodeDeleted | CodeOk | CodeOther nat

record mcp_response =
  r_ok :: bool
  r_hit :: bool
  r_code :: mcmc_code
  r_elapsed :: "i64 option"
  r_line :: "bytes option"
  r_vlen :: "nat option"
  r_raw :: "bytes option"

subsection \<open>Entries\<close>

definition classify_res :: "mcp_response option \<Rightarrow> string" where
  "classify_res res =
     (case res of
        None \<Rightarrow> ''error''
      | Some r \<Rightarrow> if \<not> r_ok r then ''error'' else if r_hit r then ''hit'' else ''miss'')"

text \<open>The tokens \<open>%S+\<close> of a line, and a token of the form \<open>^t(%-?%d+)$\<close>.\<close>

definition is_space :: "u8 \<Rightarrow> bool" where
  "is_space b \<longleftrightarrow> b \<in> {0x20, 0x09, 0x0A, 0x0B, 0x0C, 0x0D}"

fun tokens_of :: "bytes \<Rightarrow> bytes \<Rightarrow> bytes list" where
  "tokens_of tok [] = (if tok = [] then [] else [tok])"
| "tokens_of tok (b # bs) =
     (if is_space b then (if tok = [] then [] else [tok]) @ tokens_of [] bs else tokens_of (tok @ [b]) bs)"

definition digit :: "u8 \<Rightarrow> int option" where
  "digit b = (if 0x30 \<le> b \<and> b \<le> 0x39 then Some (uint b - 48) else None)"

fun digits :: "int \<Rightarrow> bytes \<Rightarrow> int option" where
  "digits acc [] = Some acc"
| "digits acc (b # bs) = (case digit b of None \<Rightarrow> None | Some d \<Rightarrow> digits (10 * acc + d) bs)"

definition number :: "bytes \<Rightarrow> int option" where
  "number bs =
     (case bs of
        [] \<Rightarrow> None
      | b # ds \<Rightarrow>
          if b = 0x2D then (if ds = [] then None else map_option uminus (digits 0 ds)) else digits 0 bs)"

fun t_token :: "bytes \<Rightarrow> int option" where
  "t_token [] = None"
| "t_token (b # bs) = (if b = 0x74 then number bs else None)"

fun first_t :: "bytes list \<Rightarrow> int option" where
  "first_t [] = None"
| "first_t (tok # toks) = (case t_token tok of Some v \<Rightarrow> Some v | None \<Rightarrow> first_t toks)"

definition parse_t :: "bytes option \<Rightarrow> int option" where
  "parse_t line = Option.bind line (\<lambda>line. first_t (tokens_of [] line))"

text \<open>The value: the last \<open>vlen\<close> bytes before the final line end.\<close>

definition res_value :: "mcp_response \<Rightarrow> bytes option" where
  "res_value r =
     (case r_vlen r of
        None \<Rightarrow> None
      | Some vlen \<Rightarrow>
          if vlen > 0 then
            (case r_raw r of
               None \<Rightarrow> None
             | Some raw \<Rightarrow>
                 if vlen + 2 \<le> length raw then Some (take vlen (drop (length raw - vlen - 2) raw)) else None)
          else None)"

record lua_entry =
  le_key :: bytes
  le_pool :: bytes
  le_status :: string
  le_res :: "mcp_response option"
  le_t :: "int option"
  le_value :: "bytes option"
  le_line :: "bytes option"
  le_elapsed :: "i64 option"

definition make_entry :: "bytes \<Rightarrow> bytes \<Rightarrow> mcp_response option \<Rightarrow> lua_entry" where
  "make_entry key pool_name res =
     (let status = classify_res res;
          elapsed = Option.bind res r_elapsed;
          hit = (if status = ''hit'' then res else None);
          line = Option.bind hit r_line
      in \<lparr>le_key = key, le_pool = pool_name, le_status = status, le_res = res, le_t = parse_t line,
          le_value = Option.bind hit res_value, le_line = line, le_elapsed = elapsed\<rparr>)"

definition build_entries :: "bytes \<Rightarrow> bytes list \<Rightarrow> mcp_response option list \<Rightarrow> lua_entry list" where
  "build_entries key pool_names results =
     map (\<lambda>j. make_entry key (pool_names ! j) (if j < length results then results ! j else None))
       [0..<length pool_names]"

subsection \<open>The tables the native module sees\<close>

text \<open>
  The entries, one entry and the options of the read handler, with the answers mlua
  documents for them: a missing field is nil, a number that is no 64-bit integer does not convert.
\<close>

datatype lua_table = EntriesTable "lua_entry list" | EntryTable lua_entry | OptsTable bytes i64

fun table_len :: "lua_table \<Rightarrow> nat" where
  "table_len (EntriesTable es) = length es"
| "table_len _ = 0"

fun table_at :: "lua_table \<Rightarrow> nat \<Rightarrow> lua_error + lua_table" where
  "table_at (EntriesTable es) i =
     (if 1 \<le> i \<and> i \<le> length es then Inr (EntryTable (es ! (i - 1))) else Inl (LuaFailure 0))"
| "table_at _ i = Inl (LuaFailure 0)"

fun table_str :: "lua_table \<Rightarrow> string \<Rightarrow> bytes option" where
  "table_str (EntryTable e) k =
     (if k = ''key'' then Some (le_key e)
      else if k = ''pool'' then Some (le_pool e)
      else if k = ''status'' then Some (as_bytes (le_status e))
      else if k = ''value'' then le_value e
      else if k = ''line'' then le_line e
      else None)"
| "table_str (OptsTable prefix start) k = (if k = ''prefix'' then Some prefix else None)"
| "table_str (EntriesTable _) k = None"

text \<open>
  \<open>tonumber\<close> reads an integer outside 64 bits as the nearest double. Of these doubles only
  \<open>-2^63\<close>, nearest to the 1024 integers below it, converts to an integer again.
\<close>

definition to_i64 :: "int option \<Rightarrow> lua_error + i64 option" where
  "to_i64 v =
     (case v of
        None \<Rightarrow> Inr None
      | Some n \<Rightarrow>
          if - (2 ^ 63) \<le> n \<and> n < 2 ^ 63 then Inr (Some (of_int n))
          else if - (2 ^ 63) - 1024 \<le> n \<and> n < - (2 ^ 63) then Inr (Some (of_int (- (2 ^ 63))))
          else Inl (LuaFailure 1))"

fun table_int :: "lua_table \<Rightarrow> string \<Rightarrow> lua_error + i64 option" where
  "table_int (EntryTable e) k =
     (if k = ''t'' then to_i64 (le_t e) else if k = ''elapsed'' then Inr (le_elapsed e) else Inr None)"
| "table_int (OptsTable prefix start) k = Inr (if k = ''start'' then Some start else None)"
| "table_int (EntriesTable _) k = Inr None"

definition lua_tables :: "lua_table lua_api" where
  "lua_tables =
     \<lparr>raw_len = table_len, get_table = table_at,
      get_str = (\<lambda>t k. ok_or (LuaFailure 2) (table_str t k)),
      get_opt_str = (\<lambda>t k. Inr (table_str t k)), get_opt_i64 = table_int,
      create_string = (\<lambda>_. Inr ()), create_table = Inr (), raw_set = (\<lambda>_ _. Inr ())\<rparr>"

subsection \<open>The read handler\<close>

definition UNKNOWN_KEYSPACE :: bytes where
  "UNKNOWN_KEYSPACE = as_bytes ''SERVER_ERROR unknown keyspace'' @ CRLF"
definition UDF_NOT_SUPPORTED :: bytes where
  "UDF_NOT_SUPPORTED = as_bytes ''SERVER_ERROR udf not supported'' @ CRLF"
definition MULTIKEY_UNSUPPORTED :: bytes where
  "MULTIKEY_UNSUPPORTED = as_bytes ''SERVER_ERROR multi-key not supported'' @ CRLF"
definition NO_BACKENDS :: bytes where
  "NO_BACKENDS = as_bytes ''SERVER_ERROR no backends available'' @ CRLF"
definition ALL_READ_ERR :: bytes where
  "ALL_READ_ERR = as_bytes ''SERVER_ERROR all backends failed'' @ CRLF"
definition MISS_REPLY :: bytes where
  "MISS_REPLY = as_bytes ''EN'' @ CRLF"

text \<open>What a handler returns to the proxy: a backend's response or a string.\<close>

datatype reply = Response mcp_response | Text bytes

text \<open>The loop over the entries when there is no winner.\<close>

fun no_winner_loop :: "bool \<Rightarrow> mcp_response option \<Rightarrow> lua_entry list \<Rightarrow> reply" where
  "no_winner_loop any_miss concrete_error [] =
     (if any_miss then Text MISS_REPLY
      else case concrete_error of Some r \<Rightarrow> Response r | None \<Rightarrow> Text ALL_READ_ERR)"
| "no_winner_loop any_miss concrete_error (e # es) =
     (if le_status e = ''miss'' then
        (case le_res e of Some r \<Rightarrow> Response r | None \<Rightarrow> no_winner_loop True concrete_error es)
      else if le_status e = ''error'' \<and> le_res e \<noteq> None \<and> concrete_error = None then
        no_winner_loop any_miss (le_res e) es
      else no_winner_loop any_miss concrete_error es)"

definition va_reply :: "bytes \<Rightarrow> bytes" where
  "va_reply value = as_bytes ''VA '' @ as_bytes (decimal (length value)) @ CRLF @ value @ CRLF"

definition select_reply :: "lua_value \<Rightarrow> lua_entry list \<Rightarrow> reply" where
  "select_reply winner_idx entries =
     (case winner_idx of
        LuaInteger n \<Rightarrow>
          (case (if 1 \<le> sint n \<and> nat (sint n) \<le> length entries
                 then le_res (entries ! (nat (sint n) - 1)) else None) of
             Some r \<Rightarrow> Response r
           | None \<Rightarrow> no_winner_loop False None entries)
      | LuaString value \<Rightarrow> Text (va_reply value)
      | _ \<Rightarrow> no_winner_loop False None entries)"

record keyspace =
  ks_prefix :: bytes
  ks_pool_names :: "bytes list"
  ks_merge_name :: bytes
  ks_merge_flags :: string
  ks_write_first :: bool

text \<open>The flags added to the request before it is broadcast.\<close>

definition added_flags :: "keyspace \<Rightarrow> string" where
  "added_flags ks = (if ks_merge_flags ks \<noteq> '''' then ks_merge_flags ks else [])"

definition read_handler ::
  "keyspace \<Rightarrow> world registries \<Rightarrow> bytes \<Rightarrow> mcp_response option list \<Rightarrow> world \<Rightarrow> (lua_error + reply) \<times> world" where
  "read_handler ks regs key row w =
     (let (start, w) = now_nanos w in
      if 0x23 \<in> set key then
        (Inr (Text MULTIKEY_UNSUPPORTED),
         native_observe (ks_prefix ks) (as_bytes ''read'') (as_bytes ''error'') (Some start) w)
      else
        (let entries = build_entries key (ks_pool_names ks) row in
         case native_merge lua_tables regs (ks_merge_name ks) (EntriesTable entries)
                (Some (OptsTable (ks_prefix ks) start)) w of
           (Inl e, w) \<Rightarrow> (Inl e, w)
         | (Inr v, w) \<Rightarrow> (Inr (select_reply v entries), w)))"

subsection \<open>The write handler\<close>

definition write_rank :: "mcp_response option \<Rightarrow> nat" where
  "write_rank res =
     (case res of
        None \<Rightarrow> 3
      | Some r \<Rightarrow>
          if \<not> r_ok r then 3
          else if r_code r = CodeStored \<or> r_code r = CodeDeleted \<or> r_code r = CodeOk then 1
          else 2)"

definition WRITE_OUTCOME :: "nat \<Rightarrow> string" where
  "WRITE_OUTCOME rank = [''stored'', ''negative'', ''error''] ! (rank - 1)"

text \<open>The worst rank so far, \<open>None\<close> before the first response.\<close>

fun worst_loop ::
  "mcp_response option \<Rightarrow> nat option \<Rightarrow> mcp_response option list \<Rightarrow> mcp_response option \<times> nat option" where
  "worst_loop worst worst_rank [] = (worst, worst_rank)"
| "worst_loop worst worst_rank (res # rest) =
     (let rank = write_rank res in
      if (case worst_rank of None \<Rightarrow> True | Some wr \<Rightarrow> wr < rank) then worst_loop res (Some rank) rest
      else if worst_rank = Some rank \<and> worst = None \<and> res \<noteq> None then worst_loop res worst_rank rest
      else worst_loop worst worst_rank rest)"

definition reduce_write_all :: "mcp_response option list \<Rightarrow> reply \<times> nat" where
  "reduce_write_all row =
     (case worst_loop None None row of
        (Some worst, Some rank) \<Rightarrow> (Response worst, rank)
      | _ \<Rightarrow> (Text NO_BACKENDS, 3))"

text \<open>One fresh request per handle, with the whole line and body.\<close>

definition fanout_write :: "'h list \<Rightarrow> bytes \<Rightarrow> bytes option \<Rightarrow> ('h \<times> bytes \<times> bytes option) list" where
  "fanout_write handles raw_line raw_value = map (\<lambda>h. (h, raw_line @ CRLF, raw_value)) handles"

text \<open>The first policy replies with what the first handle answered, nil included.\<close>

definition write_handler ::
  "keyspace \<Rightarrow> mcp_response option list \<Rightarrow> world \<Rightarrow> reply option \<times> world" where
  "write_handler ks row w =
     (let (start, w) = now_nanos w in
      if ks_write_first ks then
        (let res = (case row of [] \<Rightarrow> None | r # _ \<Rightarrow> r) in
         (map_option Response res,
          native_observe (ks_prefix ks) (as_bytes ''write'') (as_bytes (WRITE_OUTCOME (write_rank res))) (Some start) w))
      else
        (let (res, rank) = reduce_write_all row in
         (Some res,
          native_observe (ks_prefix ks) (as_bytes ''write'') (as_bytes (WRITE_OUTCOME rank)) (Some start) w)))"

subsection \<open>What a client sees\<close>

definition reply_label :: "reply \<Rightarrow> string" where
  "reply_label r =
     (case r of
        Response res \<Rightarrow> classify_res (Some res)
      | Text t \<Rightarrow> if t = MISS_REPLY then ''miss'' else if t = ALL_READ_ERR then ''error'' else ''hit'')"

definition any_status :: "string \<Rightarrow> mcp_response option list \<Rightarrow> bool" where
  "any_status s row \<longleftrightarrow> list_ex (\<lambda>r. classify_res r = s) row"

text \<open>
  What a read may count and reply for the value \<open>v\<close> of its merge and the responses of its
  backends. A number picks a backend: its status is counted and its response is the reply,
  unless it gave none. A string is a hit. Otherwise, and in place of a picked response that
  is missing, the reply is a miss if some backend missed and an error if not.
\<close>

definition no_winner_label :: "mcp_response option list \<Rightarrow> string" where
  "no_winner_label row = (if any_status ''miss'' row then ''miss'' else ''error'')"

definition read_agrees :: "mcp_response option list \<Rightarrow> lua_value \<Rightarrow> reply \<Rightarrow> string \<Rightarrow> bool" where
  "read_agrees row v r outcome \<longleftrightarrow>
     (case v of
        LuaInteger n \<Rightarrow>
          \<exists>i < length row. sint n = int (Suc i) \<and> outcome = classify_res (row ! i) \<and>
            (case row ! i of Some x \<Rightarrow> r = Response x | None \<Rightarrow> reply_label r = no_winner_label row)
      | LuaString value \<Rightarrow> outcome = ''hit'' \<and> r = Text (va_reply value)
      | _ \<Rightarrow> outcome = no_winner_label row \<and> reply_label r = no_winner_label row)"

text \<open>An entry is well made when its status is that of its response.\<close>

definition well_made :: "lua_entry \<Rightarrow> bool" where
  "well_made e \<longleftrightarrow> le_status e = classify_res (le_res e)"

text \<open>The worst response of a row: greatest rank, concrete before nil, first of those.\<close>

definition concrete_of_rank :: "nat \<Rightarrow> mcp_response option list \<Rightarrow> mcp_response option list" where
  "concrete_of_rank rank row = filter (\<lambda>r. r \<noteq> None \<and> write_rank r = rank) row"

definition worst_of :: "mcp_response option list \<Rightarrow> mcp_response option \<Rightarrow> nat \<Rightarrow> bool" where
  "worst_of row worst rank \<longleftrightarrow>
     worst \<in> set row \<and> rank = write_rank worst \<and> (\<forall>r \<in> set row. write_rank r \<le> rank) \<and>
     worst = (case concrete_of_rank rank row of [] \<Rightarrow> None | r # _ \<Rightarrow> r)"

text \<open>A keyspace of two pools, one down and one with a copy.\<close>

definition example_keyspace :: keyspace where
  "example_keyspace =
     \<lparr>ks_prefix = as_bytes ''p'', ks_pool_names = [as_bytes ''a'', as_bytes ''b''],
      ks_merge_name = as_bytes ''first-hit'', ks_merge_flags = '''', ks_write_first = False\<rparr>"

definition example_row :: "mcp_response option list" where
  "example_row =
     [None, Some \<lparr>r_ok = True, r_hit = True, r_code = CodeOk, r_elapsed = None, r_line = None, r_vlen = None,
        r_raw = None\<rparr>]"

section \<open>Lemmas\<close>

subsection \<open>Entries\<close>

lemma classify_status: "\<exists>s. classify_res res = status_label s"
proof (cases res)
  case None
  then show ?thesis
    by (intro exI [of _ StError]) (simp add: classify_res_def)
next
  case (Some r)
  then show ?thesis
    by (intro exI [of _ "if \<not> r_ok r then StError else if r_hit r then StHit else StMiss"])
      (simp add: classify_res_def)
qed

lemma classify_concrete: "classify_res res \<noteq> ''error'' \<Longrightarrow> \<exists>r. res = Some r"
  by (cases res) (simp_all add: classify_res_def)

lemma make_entry_simps [simp]:
  "le_status (make_entry key pool res) = classify_res res" "le_res (make_entry key pool res) = res"
  "le_pool (make_entry key pool res) = pool" "le_key (make_entry key pool res) = key"
  by (simp_all add: make_entry_def Let_def)

lemma status_label_inj: "status_label a = status_label b \<longleftrightarrow> a = b"
  by (cases a; cases b) simp_all

lemma build_entries_well_made: "e \<in> set (build_entries key names row) \<Longrightarrow> well_made e"
  by (auto simp: build_entries_def well_made_def)

lemma length_build_entries [simp]: "length (build_entries key names row) = length names"
  by (simp add: build_entries_def)

lemma build_entries_nth:
  "j < length names \<Longrightarrow> length row = length names \<Longrightarrow>
   build_entries key names row ! j = make_entry key (names ! j) (row ! j)"
  by (simp add: build_entries_def)

lemma build_entries_status:
  assumes "length row = length names"
  shows "list_ex (\<lambda>e. le_status e = s) (build_entries key names row) \<longleftrightarrow> any_status s row"
  using assms by (auto simp: any_status_def list_ex_length build_entries_nth)

text \<open>The value of a well-formed response.\<close>

lemma res_value_framed:
  assumes "r_raw r = Some (header @ value @ CRLF)" "r_vlen r = Some (length value)" "value \<noteq> []"
  shows "res_value r = Some value"
  using assms by (simp add: res_value_def CRLF_def)

subsection \<open>The projected entries\<close>

lemma project_entry_status:
  assumes "project_entry lua_tables (EntryTable e) = Inr o_e" "well_made e"
  shows "status_label (o_status o_e) = le_status e"
proof -
  obtain s where s: "le_status e = status_label s"
    using assms(2) classify_status by (auto simp: well_made_def)
  have "parse_status (as_bytes (le_status e)) = Inr (o_status o_e)"
    using assms(1) by (auto simp: project_entry_def lua_tables_def result_simps)
  then show ?thesis
    by (simp add: s parse_status_label)
qed

lemma project_entry_total:
  assumes "from_utf8 (le_pool e) \<noteq> None" "to_i64 (le_t e) = Inr t" "well_made e"
  shows "\<exists>o_e. project_entry lua_tables (EntryTable e) = Inr o_e"
proof -
  obtain s where s: "le_status e = status_label s"
    using assms(3) classify_status by (auto simp: well_made_def)
  then have "parse_status (as_bytes (le_status e)) = Inr s"
    by (simp add: parse_status_label)
  then show ?thesis
    using assms(1,2) by (auto simp: project_entry_def lua_tables_def)
qed

lemma project_entries_status:
  assumes "project lua_tables (EntriesTable es) = Inr owned" "\<forall>e \<in> set es. well_made e"
  shows "length owned = length es" "i < length es \<Longrightarrow> status_label (o_status (owned ! i)) = le_status (es ! i)"
proof -
  note P = assms(1) [unfolded project_spec]
  show "length owned = length es"
    using P by (simp add: lua_tables_def)
  assume i: "i < length es"
  then have "project_entry lua_tables (EntryTable (es ! i)) = Inr (owned ! i)"
    using P by (auto simp: lua_tables_def)
  then show "status_label (o_status (owned ! i)) = le_status (es ! i)"
    using project_entry_status assms(2) i by simp
qed

lemma project_entries_total:
  assumes "\<forall>e \<in> set es. well_made e \<and> from_utf8 (le_pool e) \<noteq> None \<and> (\<exists>t. to_i64 (le_t e) = Inr t)"
  shows "\<exists>owned. project lua_tables (EntriesTable es) = Inr owned"
proof -
  have "\<exists>o_e. project_entry lua_tables (EntryTable (es ! i)) = Inr o_e" if "i < length es" for i
    using assms that project_entry_total by (metis nth_mem)
  then obtain f where f: "project_entry lua_tables (EntryTable (es ! i)) = Inr (f i)" if "i < length es" for i
    by metis
  have "project lua_tables (EntriesTable es) = Inr (map f [0..<length es])"
    unfolding project_spec using f by (auto simp: lua_tables_def)
  then show ?thesis
    by blast
qed

subsection \<open>Replies\<close>

lemma text_labels:
  "reply_label (Text MISS_REPLY) = ''miss''" "reply_label (Text ALL_READ_ERR) = ''error''"
  "reply_label (Text (va_reply v)) = ''hit''"
  by (simp_all add: reply_label_def MISS_REPLY_def ALL_READ_ERR_def va_reply_def as_bytes_def)

text \<open>With no winner, a miss of any backend is a miss, and only errors are an error.\<close>

lemma no_winner_loop_label:
  assumes "\<forall>e \<in> set es. well_made e" "\<forall>r. err = Some r \<longrightarrow> classify_res (Some r) = ''error''"
  shows "reply_label (no_winner_loop any err es) =
    (if any \<or> list_ex (\<lambda>e. le_status e = ''miss'') es then ''miss'' else ''error'')"
  using assms
proof (induction any err es rule: no_winner_loop.induct)
  case (1 any err)
  then show ?case
    using text_labels by (auto simp: reply_label_def split: option.split)
next
  case (2 any err e es)
  have made: "le_status e = classify_res (le_res e)"
    using 2 by (simp add: well_made_def)
  show ?case
  proof (cases "le_status e = ''miss''")
    case True
    then obtain r where "le_res e = Some r"
      using made classify_concrete [of "le_res e"] by auto
    then show ?thesis
      using True made by (simp add: reply_label_def)
  next
    case False
    then show ?thesis
      using 2 made by auto
  qed
qed

lemma select_winner:
  assumes "i < length es" "Suc i < 2 ^ 63"
  shows "select_reply (LuaInteger (of_nat (Suc i))) es =
    (case le_res (es ! i) of Some r \<Rightarrow> Response r | None \<Rightarrow> no_winner_loop False None es)"
  using assms sint_of_nat_i64 [of "Suc i"] by (simp add: select_reply_def del: of_nat_Suc)

text \<open>The reply for a merge result, by what the result points to.\<close>

lemma select_reply_agrees:
  assumes es: "es = build_entries key names row" and row: "length row = length names"
    and len: "length owned = length es"
    and st: "\<And>i. i < length es \<Longrightarrow> status_label (o_status (owned ! i)) = le_status (es ! i)"
    and v: "reply_of api result = Inr v" and range: "\<And>i. result = Winner i \<Longrightarrow> i < length es"
  shows "read_agrees row v (select_reply v es) (read_outcome result owned)"
proof -
  have made: "\<forall>e \<in> set es. well_made e"
    using build_entries_well_made es by blast
  have n: "length es = length row"
    using es row by (simp add: build_entries_def)
  have entry: "le_res (es ! i) = row ! i" "le_status (es ! i) = classify_res (row ! i)" if "i < length row" for i
    using that es row by (simp_all add: build_entries_nth)
  have "list_ex (\<lambda>e. o_status e = StMiss) owned \<longleftrightarrow> list_ex (\<lambda>e. le_status e = ''miss'') es"
    using st len status_label_inj [of _ StMiss] by (auto simp: list_ex_length simp flip: status_label_inj)
  moreover have "list_ex (\<lambda>e. le_status e = ''miss'') es \<longleftrightarrow> any_status ''miss'' row"
    using entry n by (auto simp: list_ex_length any_status_def)
  ultimately have fallback: "reply_label (no_winner_loop False None es) = no_winner_label row"
    "no_winner owned = no_winner_label row"
    using no_winner_loop_label [OF made, of None False] by (simp_all add: no_winner_def no_winner_label_def)
  note eqs = reply_of_Inr [OF v]
  show ?thesis
  proof (cases result)
    case (Winner i)
    have i: "i < length row"
      using range [OF Winner] n by simp
    have "select_reply v es = (case row ! i of Some r \<Rightarrow> Response r | None \<Rightarrow> no_winner_loop False None es)"
      using select_winner [OF range [OF Winner] eqs(2) [OF Winner]] eqs(1) Winner entry(1) [OF i] by simp
    moreover have "read_outcome result owned = classify_res (row ! i)"
      using st [of i] entry(2) [OF i] i n len Winner by (simp add: read_outcome_def)
    moreover have "sint (of_nat (Suc i) :: i64) = int (Suc i)"
      by (rule sint_of_nat_i64 [OF eqs(2) [OF Winner]])
    ultimately show ?thesis
      using eqs(1) Winner i fallback(1)
      by (auto simp: read_agrees_def simp del: of_nat_Suc intro!: exI [of _ i] split: option.split)
  next
    case (Synthesized bs)
    then show ?thesis
      using eqs(1) by (simp add: select_reply_def read_outcome_def read_agrees_def)
  next
    case Miss
    then show ?thesis
      using eqs(1) fallback by (simp add: select_reply_def read_outcome_def read_agrees_def)
  qed
qed

subsection \<open>The read handler\<close>

lemma read_handler_cases [consumes 2, case_names Merged]:
  assumes "read_handler ks regs key row w = (Inr r, w')" "0x23 \<notin> set key"
  obtains start w0 v where "now_nanos w = (start, w0)"
    "native_merge lua_tables regs (ks_merge_name ks) (EntriesTable (build_entries key (ks_pool_names ks) row))
       (Some (OptsTable (ks_prefix ks) start)) w0 = (Inr v, w')"
    "r = select_reply v (build_entries key (ks_pool_names ks) row)"
proof -
  obtain start w0 where now: "now_nanos w = (start, w0)"
    by (cases "now_nanos w")
  obtain x w1 where merge: "native_merge lua_tables regs (ks_merge_name ks)
      (EntriesTable (build_entries key (ks_pool_names ks) row)) (Some (OptsTable (ks_prefix ks) start)) w0 = (x, w1)"
    by (cases "native_merge lua_tables regs (ks_merge_name ks)
      (EntriesTable (build_entries key (ks_pool_names ks) row)) (Some (OptsTable (ks_prefix ks) start)) w0")
  show ?thesis
    using assms now merge that by (cases x) (simp_all add: read_handler_def)
qed

lemma opts_fields:
  "flat_ok (get_opt_str lua_tables (OptsTable prefix start) ''prefix'') = Some prefix"
  "flat_ok (get_opt_i64 lua_tables (OptsTable prefix start) ''start'') = Some start"
  by (simp_all add: lua_tables_def flat_ok_def)

lemma builtin_merges:
  assumes "builtins regs = register registry_new"
    and "n \<in> {''first-hit'', ''pool-preferred'', ''last-write-wins''}"
  obtains f where "complete_merge f" "\<And>es w. registries_apply regs n es w = Some (f es, w)"
proof -
  consider "n = ''first-hit''" | "n = ''pool-preferred''" | "n = ''last-write-wins''"
    using assms(2) by blast
  then show ?thesis
  proof cases
    case 1
    show ?thesis
      by (rule that [OF fh.complete_merge_axioms])
        (simp add: 1 registries_apply_def assms(1) registry_get_register FirstHit_def)
  next
    case 2
    show ?thesis
      by (rule that [OF pp.complete_merge_axioms])
        (simp add: 2 registries_apply_def assms(1) registry_get_register PoolPreferred_def)
  next
    case 3
    show ?thesis
      by (rule that [OF lww.complete_merge_axioms])
        (simp add: 3 registries_apply_def assms(1) registry_get_register LastWriteWins_def)
  qed
qed

lemma native_merge_pure:
  assumes "from_utf8 name = Some n" "project api entries = Inr owned"
    and "\<And>w. registries_apply regs n (as_views owned) w = Some (res, w)"
  shows "\<exists>w'. native_merge api regs name entries opts w = (reply_of api res, w')"
proof -
  obtain x w' where call: "native_merge api regs name entries opts w = (x, w')"
    by (cases "native_merge api regs name entries opts w")
  then show ?thesis
  proof (cases rule: native_merge_cases)
    case (Rejected e)
    then show ?thesis
      using dispatchable_cases [OF assms(1,2)] by simp
  qed (use call assms in auto)
qed

lemma is_hit_entries:
  assumes "length owned = length es"
    and "\<And>i. i < length es \<Longrightarrow> status_label (o_status (owned ! i)) = le_status (es ! i)"
  shows "is_hit (as_views owned) i \<longleftrightarrow> i < length es \<and> le_status (es ! i) = ''hit''"
proof (cases "i < length es")
  case True
  have "o_status (owned ! i) = StHit \<longleftrightarrow> status_label (o_status (owned ! i)) = status_label StHit"
    by (rule status_label_inj [symmetric])
  then show ?thesis
    using True assms by (simp add: is_hit_def as_views_def as_view_def)
qed (use assms(1) in \<open>simp add: is_hit_def\<close>)

subsection \<open>The write reduction\<close>

lemma write_rank_bounds: "1 \<le> write_rank res" "write_rank res \<le> 3" "write_rank None = 3"
  by (auto simp: write_rank_def split: option.split)

lemma concrete_of_rank_snoc:
  "concrete_of_rank k (row @ [x]) = concrete_of_rank k row @ (if x \<noteq> None \<and> write_rank x = k then [x] else [])"
  by (simp add: concrete_of_rank_def)

lemma concrete_of_rank_above: "\<forall>r \<in> set row. write_rank r \<le> rank \<Longrightarrow> rank < k \<Longrightarrow> concrete_of_rank k row = []"
  by (auto simp: concrete_of_rank_def filter_empty_conv)

lemma worst_of_snoc:
  assumes "worst_of row worst rank"
  shows "rank < write_rank x \<Longrightarrow> worst_of (row @ [x]) x (write_rank x)"
    and "rank = write_rank x \<Longrightarrow> worst = None \<Longrightarrow> x \<noteq> None \<Longrightarrow> worst_of (row @ [x]) x rank"
    and "\<not> rank < write_rank x \<Longrightarrow> \<not> (rank = write_rank x \<and> worst = None \<and> x \<noteq> None) \<Longrightarrow>
      worst_of (row @ [x]) worst rank"
proof -
  have row: "worst \<in> set row" "rank = write_rank worst" "\<forall>r \<in> set row. write_rank r \<le> rank"
    "worst = (case concrete_of_rank rank row of [] \<Rightarrow> None | r # _ \<Rightarrow> r)"
    using assms unfolding worst_of_def by blast+
  have real: "r \<noteq> None" if "concrete_of_rank rank row = r # rs" for r rs
    using that by (auto simp: concrete_of_rank_def filter_eq_Cons_iff)
  show "worst_of (row @ [x]) x (write_rank x)" if "rank < write_rank x"
  proof -
    have "\<forall>r \<in> set row. write_rank r \<le> write_rank x"
      using row(3) that by auto
    then show ?thesis
      using concrete_of_rank_above [OF row(3) that] by (simp add: worst_of_def concrete_of_rank_snoc)
  qed
  show "worst_of (row @ [x]) x rank" if "rank = write_rank x" "worst = None" "x \<noteq> None"
  proof -
    have "concrete_of_rank rank row = []"
    proof (cases "concrete_of_rank rank row")
      case (Cons r rs)
      then have "worst = r"
        using row(4) by (simp only: list.case)
      then show ?thesis
        using real [OF Cons] that(2) by simp
    qed simp
    then show ?thesis
      using row(3) that by (simp add: worst_of_def concrete_of_rank_snoc)
  qed
  show "worst_of (row @ [x]) worst rank"
    if "\<not> rank < write_rank x" "\<not> (rank = write_rank x \<and> worst = None \<and> x \<noteq> None)"
  proof (cases "concrete_of_rank rank row")
    case Nil
    then have none: "worst = None"
      using row(4) by (simp only: list.case)
    then have x: "x = None \<or> write_rank x < rank"
      using that by auto
    show ?thesis
      using row(1,3) x that(1) unfolding worst_of_def concrete_of_rank_snoc Nil none
      by (auto simp: row(2) [unfolded none])
  next
    case (Cons r rs)
    then have "worst = r"
      using row(4) by (simp only: list.case)
    then show ?thesis
      using row(1,2,3) that(1) unfolding worst_of_def concrete_of_rank_snoc Cons by auto
  qed
qed

lemma worst_loop_spec:
  "worst_of row worst rank \<Longrightarrow>
   \<exists>worst' rank'. worst_loop worst (Some rank) rest = (worst', Some rank') \<and> worst_of (row @ rest) worst' rank'"
proof (induction rest arbitrary: row worst rank)
  case (Cons x rest)
  note snoc = worst_of_snoc [OF Cons.prems, of x]
  consider (up) "rank < write_rank x" | (fill) "rank = write_rank x" "worst = None" "x \<noteq> None"
    | (keep) "\<not> rank < write_rank x" "\<not> (rank = write_rank x \<and> worst = None \<and> x \<noteq> None)"
    by blast
  then show ?case
  proof cases
    case up
    then show ?thesis
      using Cons.IH [OF snoc(1)] by simp
  next
    case fill
    then show ?thesis
      using Cons.IH [OF snoc(2)] by simp
  next
    case keep
    then have "worst_loop worst (Some rank) (x # rest) = worst_loop worst (Some rank) rest"
      by (auto simp: Let_def)
    then show ?thesis
      using Cons.IH [OF snoc(3) [OF keep]] by simp
  qed
qed simp

lemma reduce_worst:
  assumes "row \<noteq> []"
  obtains worst rank where "worst_loop None None row = (worst, Some rank)" "worst_of row worst rank"
proof -
  obtain x rest where row: "row = x # rest"
    using assms by (cases row) auto
  have "worst_of [x] x (write_rank x)"
    by (simp add: worst_of_def concrete_of_rank_def)
  from worst_loop_spec [OF this, of rest] show ?thesis
    using that row by auto
qed

lemma read_builtin:
  assumes "safe_registries regs" "builtins regs = register registry_new"
    and "from_utf8 (ks_merge_name ks) = Some n" "n \<in> {''first-hit'', ''pool-preferred'', ''last-write-wins''}"
    and "0x23 \<notin> set key" "length row = length (ks_pool_names ks)" "length row < 2 ^ 63 - 1"
    and "\<forall>e \<in> set (build_entries key (ks_pool_names ks) row).
      from_utf8 (le_pool e) \<noteq> None \<and> (\<exists>t. to_i64 (le_t e) = Inr t)"
  shows "\<exists>r w'. read_handler ks regs key row w = (Inr r, w') \<and>
    reply_label r = (if any_status ''hit'' row then ''hit'' else if any_status ''miss'' row then ''miss'' else ''error'')"
proof -
  let ?es = "build_entries key (ks_pool_names ks) row"
  obtain start w0 where now: "now_nanos w = (start, w0)"
    by (cases "now_nanos w")
  have made: "\<forall>e \<in> set ?es. well_made e"
    using build_entries_well_made by blast
  obtain owned where owned: "project lua_tables (EntriesTable ?es) = Inr owned"
    using project_entries_total [of ?es] made assms(8) by blast
  note st = project_entries_status [OF owned made]
  obtain f where f: "complete_merge f" "\<And>es w. registries_apply regs n es w = Some (f es, w)"
    using builtin_merges [OF assms(2,4)] by blast
  let ?res = "f (as_views owned)"
  have hit: "is_hit (as_views owned) i \<longleftrightarrow> i < length ?es \<and> le_status (?es ! i) = ''hit''" for i
    by (rule is_hit_entries [OF st])
  have any_hit: "any_status ''hit'' row \<longleftrightarrow> (\<exists>i. is_hit (as_views owned) i)"
    unfolding hit using build_entries_status [OF assms(6), of "''hit''" key] by (auto simp: list_ex_length)
  obtain w' where call: "native_merge lua_tables regs (ks_merge_name ks) (EntriesTable ?es)
      (Some (OptsTable (ks_prefix ks) start)) w0 = (reply_of lua_tables ?res, w')"
    using native_merge_pure [OF assms(3) owned f(2)] by blast
  have handler: "read_handler ks regs key row w = (Inr (select_reply v ?es), w')"
    if "reply_of lua_tables ?res = Inr v" for v
    using assms(5) now call that by (simp add: read_handler_def)
  show ?thesis
  proof (cases rule: selecting_merge.pick_cases [OF complete_merge.axioms(1) [OF f(1)], of "as_views owned"])
    case (1 i)
    then have i: "i < length ?es" "le_status (?es ! i) = ''hit''"
      using hit by simp_all
    then obtain r where r: "le_res (?es ! i) = Some r" "classify_res (Some r) = ''hit''"
      using made classify_concrete [of "le_res (?es ! i)"] by (auto simp: well_made_def)
    have small: "Suc i < 2 ^ 63"
      using i(1) assms(6,7) by simp
    then have "reply_of lua_tables ?res = Inr (LuaInteger (of_nat (Suc i)))"
      using 1(1) by (simp add: reply_of_def i64_try_from_def)
    from handler [OF this] show ?thesis
      using select_winner [OF i(1) small] r any_hit 1(2) by (auto simp: reply_label_def)
  next
    case 2
    then have "\<not> any_status ''hit'' row"
      using any_hit complete_merge.pick_miss_iff [OF f(1)] by blast
    moreover have "reply_of lua_tables ?res = Inr LuaNil"
      using 2 by (simp add: reply_of_def)
    from handler [OF this] have "read_handler ks regs key row w = (Inr (no_winner_loop False None ?es), w')"
      by (simp add: select_reply_def)
    ultimately show ?thesis
      using no_winner_loop_label [OF made, of None False] build_entries_status [OF assms(6), of "''miss''" key]
      by simp
  qed
qed

lemma example_conditions:
  "from_utf8 (ks_merge_name example_keyspace) = Some ''first-hit''"
  "0x23 \<notin> set ([0x6B] :: bytes)" "length example_row = length (ks_pool_names example_keyspace)"
  "length example_row < 2 ^ 63 - 1"
  "\<forall>e \<in> set (build_entries [0x6B] (ks_pool_names example_keyspace) example_row).
     from_utf8 (le_pool e) \<noteq> None \<and> (\<exists>t. to_i64 (le_t e) = Inr t)"
  using from_utf8_as_bytes [OF is_str_examples(1)] from_utf8_as_bytes [OF is_str_examples(2)]
    from_utf8_as_bytes [OF is_str_examples(3)]
  by (simp_all add: example_keyspace_def example_row_def build_entries_def make_entry_def classify_res_def
      parse_t_def to_i64_def Let_def)

section \<open>Properties\<close>

text \<open>
  C29. What a read counts and what it replies follow from the merge's value and the backends'
  responses: the handler's last request counter carries the status of the picked backend,
  hit for a synthesized value, and for no winner miss or error by whether some backend
  missed; the reply is the picked response, the framed value, or a reply of that label. So
  the two agree, except when the merge picks a backend that gave no response. A row in which no
  backend missed is never answered as a miss.
\<close>

theorem read_outcome_is_reply:
  assumes "safe_registries regs" "read_handler ks regs key row w = (Inr r, w')" "0x23 \<notin> set key"
    and "length row = length (ks_pool_names ks)"
  shows "\<exists>start w0 v outcome m s.
    now_nanos w = (start, w0) \<and>
    native_merge lua_tables regs (ks_merge_name ks) (EntriesTable (build_entries key (ks_pool_names ks) row))
      (Some (OptsTable (ks_prefix ks) start)) w0 = (Inr v, w') \<and>
    w_metrics w' = m @
      [IncRequests \<lparr>rq_keyspace = from_utf8_lossy (ks_prefix ks), rq_op = ''read'', rq_outcome = outcome\<rparr>,
       ObserveRequestDuration \<lparr>ko_keyspace = from_utf8_lossy (ks_prefix ks), ko_op = ''read''\<rparr> s] \<and>
    read_agrees row v r outcome"
  using assms(2,3)
proof (cases rule: read_handler_cases)
  case (Merged start w0 v)
  let ?es = "build_entries key (ks_pool_names ks) row" and ?opts = "OptsTable (ks_prefix ks) start"
  have made: "\<forall>e \<in> set ?es. well_made e"
    using build_entries_well_made by blast
  from Merged(2) show ?thesis
  proof (cases rule: native_merge_cases)
    case (Dispatched n owned t0 w1 result w2 t1 w3)
    note st = project_entries_status [OF Dispatched(2) made]
    have range: "i < length ?es" if "result = Winner i" for i
      using safe_registries_apply(1) [OF assms(1) Dispatched(4) that] st(1) by simp
    obtain d where d: "d = None \<longleftrightarrow> Option.bind (Some ?opts) (\<lambda>op. flat_ok (get_opt_i64 lua_tables op ''start'')) = None"
      and m: "w_metrics w' = w_metrics w3 @ [ObserveMergeDuration \<lparr>ml_merge = n\<rparr> (DurationSeconds (t1 - t0))] @
        concat (map backend_calls owned) @
        (case Option.bind (Some ?opts) (\<lambda>op. flat_ok (get_opt_str lua_tables op ''prefix'')) of
           None \<Rightarrow> []
         | Some prefix \<Rightarrow> observe_request (from_utf8_lossy prefix) ''read'' (read_outcome result owned) d [])"
      using observe_read_dispatch_metrics [of "Some ?opts" lua_tables n "DurationSeconds (t1 - t0)" owned result w3]
      unfolding Dispatched(7) [symmetric] by (elim exE conjE) (rule that)
    obtain s where "d = Some s"
      using d by (auto simp: opts_fields)
    then have metrics: "w_metrics w' = (w_metrics w3 @ [ObserveMergeDuration \<lparr>ml_merge = n\<rparr> (DurationSeconds (t1 - t0))] @
        concat (map backend_calls owned)) @
        [IncRequests \<lparr>rq_keyspace = from_utf8_lossy (ks_prefix ks), rq_op = ''read'',
           rq_outcome = read_outcome result owned\<rparr>,
         ObserveRequestDuration \<lparr>ko_keyspace = from_utf8_lossy (ks_prefix ks), ko_op = ''read''\<rparr> s]"
      using m by (simp add: opts_fields observe_request_def)
    have agrees: "read_agrees row v r (read_outcome result owned)"
      unfolding Merged(3)
      by (rule select_reply_agrees [OF refl assms(4) st(1) st(2) Dispatched(6) [symmetric] range])
    show ?thesis
      by (intro exI) (rule conjI [OF Merged(1) conjI [OF Merged(2) conjI [OF metrics agrees]]])
  qed simp_all
qed

theorem read_outcome_is_reply_witness:
  "\<exists>r w' v outcome m s.
     read_handler example_keyspace builtin_registries [0x6B] example_row (world_new id) = (Inr r, w') \<and>
     w_metrics w' = m @
      [IncRequests \<lparr>rq_keyspace = from_utf8_lossy (ks_prefix example_keyspace), rq_op = ''read'', rq_outcome = outcome\<rparr>,
       ObserveRequestDuration \<lparr>ko_keyspace = from_utf8_lossy (ks_prefix example_keyspace), ko_op = ''read''\<rparr> s] \<and>
     read_agrees example_row v r outcome"
proof -
  obtain r w' where call: "read_handler example_keyspace builtin_registries [0x6B] example_row (world_new id) = (Inr r, w')"
    using read_builtin [OF safe_builtin_registries _ example_conditions(1) _ example_conditions(2-5), of "world_new id"]
    by (auto simp: builtin_registries_def registries_new_def)
  have "length example_row = length (ks_pool_names example_keyspace)"
    by (simp add: example_row_def example_keyspace_def)
  from read_outcome_is_reply [OF safe_builtin_registries call example_conditions(2) this] call
  show ?thesis
    by (elim exE conjE) (intro exI conjI)
qed

text \<open>
  C30. With the write policy \<open>all\<close> the client gets the worst answer: if every backend stored, a stored
  answer; a negative answer if some backend gave one and none failed; an error if some
  backend failed. Among equally bad answers a concrete response comes before none, and the
  first of those is returned; only if no failing backend responded at all is the error
  made up.
\<close>

theorem reduce_write_all_spec:
  "case reduce_write_all row of (reply, rank) \<Rightarrow>
     rank = (if row = [] then 3 else Max (set (map write_rank row))) \<and>
     reply = (case concrete_of_rank rank row of Some r # _ \<Rightarrow> Response r | _ \<Rightarrow> Text NO_BACKENDS)"
proof (cases "row = []")
  case True
  then show ?thesis
    by (simp add: reduce_write_all_def concrete_of_rank_def)
next
  case False
  then obtain worst rank where loop: "worst_loop None None row = (worst, Some rank)" and worst: "worst_of row worst rank"
    by (rule reduce_worst)
  have w: "worst \<in> set row" "rank = write_rank worst" "\<forall>r \<in> set row. write_rank r \<le> rank"
    "worst = (case concrete_of_rank rank row of [] \<Rightarrow> None | r # _ \<Rightarrow> r)"
    using worst unfolding worst_of_def by blast+
  have max: "Max (set (map write_rank row)) = rank"
    using w(1-3) by (intro Max_eqI) auto
  show ?thesis
  proof (cases worst)
    case None
    then have "concrete_of_rank rank row = [] \<or> (\<exists>rs. concrete_of_rank rank row = None # rs)"
      using w(4) by (cases "concrete_of_rank rank row") auto
    moreover have "rank = 3"
      using w(2) None write_rank_bounds(3) by simp
    ultimately show ?thesis
      using loop None False max by (auto simp: reduce_write_all_def)
  next
    case (Some r)
    then have "\<exists>rs. concrete_of_rank rank row = Some r # rs"
      using w(4) by (cases "concrete_of_rank rank row") auto
    then show ?thesis
      using loop Some False max by (auto simp: reduce_write_all_def)
  qed
qed

end
