(* ===== verification/Lua_Config.thy ===== *)
theory Lua_Config
  imports Routes
begin

text \<open>
  The Lua side of a configuration: config.lua, which validates what the configuration file
  returns, pools.lua and keyspaces.lua, which build pools and keyspaces of it, and
  mcgateway.lua and proxy.lua, which load it, keep the last good one and hand it to the
  proxy.

  A Lua value is the datatype \<open>lua\<close>: a table has its sequence and its string-keyed fields.
  The length of a table is the border before its first nil. Indexing a string for the names
  read here gives nil (the string library has none of them); indexing anything else but a
  table raises. \<open>loadfile\<close> with the chunk it gives, \<open>mcp.backend\<close> and \<open>mcp.pool\<close> are
  parameters.
\<close>

section \<open>Definitions\<close>

subsection \<open>Lua values\<close>

datatype lua =
    LNil
  | LBool bool
  | LNumber int
  | LStr bytes
  | LTable "lua list" "(bytes \<times> lua) list"
  | LFunction nat

datatype config_error =
    PoolMissingName
  | DuplicatePool bytes
  | AddrsNotList bytes
  | AddrNotString bytes nat
  | InvalidHash bytes
  | InvalidDist bytes
  | KeyspaceMissingPrefix
  | PrefixHasColon bytes
  | PrefixReserved bytes
  | DuplicatePrefix bytes
  | PoolListEmpty bytes string
  | PoolNotString bytes string nat
  | UnknownPool bytes string nat bytes
  | PoolTwice bytes string bytes
  | InvalidWritePolicy bytes
  | NoSuchMerge bytes
  | ConfigNotTable
  | PoolsNotTable
  | KeyspacesNotTable
  | CannotLoad nat
  | ErrorRunning nat
  | IndexError
  | InvalidAddr bytes
  | NotLoaded
  | ProxyError nat
  | NativeError lua_error

definition lua_index :: "lua \<Rightarrow> string \<Rightarrow> config_error + lua" where
  "lua_index v k =
     (case v of
        LTable xs fs \<Rightarrow> Inr (case map_of fs (as_bytes k) of None \<Rightarrow> LNil | Some x \<Rightarrow> x)
      | LStr s \<Rightarrow> Inr LNil
      | _ \<Rightarrow> Inl IndexError)"

text \<open>What \<open>ipairs\<close> visits.\<close>

definition sequence_of :: "lua list \<Rightarrow> lua list" where
  "sequence_of xs = takeWhile (\<lambda>v. v \<noteq> LNil) xs"

fun as_string :: "lua \<Rightarrow> bytes option" where
  "as_string (LStr s) = (if s = [] then None else Some s)"
| "as_string _ = None"

fun as_sequence :: "lua \<Rightarrow> lua list option" where
  "as_sequence (LTable xs fs) = (if sequence_of xs = [] then None else Some (sequence_of xs))"
| "as_sequence _ = None"

subsection \<open>Validated configurations\<close>

record pool_cfg =
  pc_name :: bytes
  pc_addrs :: "bytes list"
  pc_hash :: "bytes option"
  pc_dist :: "bytes option"

record keyspace_cfg =
  kc_prefix :: bytes
  kc_read :: "bytes list"
  kc_write :: "bytes list"
  kc_write_policy :: bytes
  kc_merge :: bytes
  kc_required_flags :: string

record gateway_cfg =
  gc_pools :: "pool_cfg list"
  gc_keyspaces :: "keyspace_cfg list"

definition VALID_HASH :: "bytes list" where
  "VALID_HASH = [as_bytes ''xxhash'', as_bytes ''md5'', as_bytes ''crc32'']"
definition VALID_DIST :: "bytes list" where
  "VALID_DIST = [as_bytes ''ring_hash'', as_bytes ''jump_hash'']"
definition VALID_WRITE_POLICY :: "bytes list" where
  "VALID_WRITE_POLICY = [as_bytes ''all'', as_bytes ''first'']"
definition DEFAULT_MERGE :: bytes where "DEFAULT_MERGE = as_bytes ''first-hit''"
definition DEFAULT_WRITE_POLICY :: bytes where "DEFAULT_WRITE_POLICY = as_bytes ''all''"

subsection \<open>Validation\<close>

text \<open>The loop over the addresses of a pool, from index \<open>i\<close>.\<close>

fun validate_addrs :: "bytes \<Rightarrow> nat \<Rightarrow> lua list \<Rightarrow> config_error + bytes list" where
  "validate_addrs name i [] = Inr []"
| "validate_addrs name i (a # as) =
     (case as_string a of
        None \<Rightarrow> Inl (AddrNotString name i)
      | Some s \<Rightarrow> and_then (validate_addrs name (i + 1) as) (\<lambda>ss. Inr (s # ss)))"

text \<open>An optional field that, when present, is one of the given strings.\<close>

definition one_of :: "bytes list \<Rightarrow> config_error \<Rightarrow> lua \<Rightarrow> config_error + bytes option" where
  "one_of valid e v =
     (case v of
        LNil \<Rightarrow> Inr None
      | LStr s \<Rightarrow> if s \<in> set valid then Inr (Some s) else Inl e
      | _ \<Rightarrow> Inl e)"

definition validate_pool :: "lua \<Rightarrow> bytes list \<Rightarrow> config_error + pool_cfg \<times> bytes list" where
  "validate_pool p seen =
     and_then (lua_index p ''name'') (\<lambda>n.
     and_then (ok_or PoolMissingName (as_string n)) (\<lambda>name.
     if name \<in> set seen then Inl (DuplicatePool name)
     else
       and_then (lua_index p ''addrs'') (\<lambda>a.
       and_then (ok_or (AddrsNotList name) (as_sequence a)) (\<lambda>as.
       and_then (validate_addrs name 1 as) (\<lambda>addrs.
       and_then (lua_index p ''hash'') (\<lambda>h.
       and_then (one_of VALID_HASH (InvalidHash name) h) (\<lambda>hash.
       and_then (lua_index p ''dist'') (\<lambda>d.
       and_then (one_of VALID_DIST (InvalidDist name) d) (\<lambda>dist.
       Inr (\<lparr>pc_name = name, pc_addrs = addrs, pc_hash = hash, pc_dist = dist\<rparr>, name # seen))))))))))"

fun validate_pools :: "lua list \<Rightarrow> bytes list \<Rightarrow> config_error + pool_cfg list \<times> bytes list" where
  "validate_pools [] seen = Inr ([], seen)"
| "validate_pools (p # ps) seen =
     and_then (validate_pool p seen) (\<lambda>(pc, seen).
     and_then (validate_pools ps seen) (\<lambda>(pcs, seen). Inr (pc # pcs, seen)))"

definition as_pool_list :: "lua \<Rightarrow> lua" where
  "as_pool_list v = (case v of LStr s \<Rightarrow> LTable [LStr s] [] | _ \<Rightarrow> v)"

fun pool_list_loop ::
  "bytes \<Rightarrow> string \<Rightarrow> bytes list \<Rightarrow> nat \<Rightarrow> bytes list \<Rightarrow> lua list \<Rightarrow> config_error + bytes list" where
  "pool_list_loop prefix field pool_names i seen [] = Inr []"
| "pool_list_loop prefix field pool_names i seen (v # vs) =
     (case as_string v of
        None \<Rightarrow> Inl (PoolNotString prefix field i)
      | Some name \<Rightarrow>
          if name \<notin> set pool_names then Inl (UnknownPool prefix field i name)
          else if name \<in> set seen then Inl (PoolTwice prefix field name)
          else and_then (pool_list_loop prefix field pool_names (i + 1) (name # seen) vs) (\<lambda>ns. Inr (name # ns)))"

definition validate_pool_list :: "bytes \<Rightarrow> string \<Rightarrow> lua \<Rightarrow> bytes list \<Rightarrow> config_error + bytes list" where
  "validate_pool_list prefix field v pool_names =
     and_then (ok_or (PoolListEmpty prefix field) (as_sequence v)) (\<lambda>vs.
     pool_list_loop prefix field pool_names 1 [] vs)"

definition validate_write_policy :: "bytes \<Rightarrow> lua \<Rightarrow> config_error + bytes" where
  "validate_write_policy prefix v =
     and_then (one_of VALID_WRITE_POLICY (InvalidWritePolicy prefix) v) (\<lambda>p.
     Inr (case p of None \<Rightarrow> DEFAULT_WRITE_POLICY | Some policy \<Rightarrow> policy))"

text \<open>The merge and its flags, looked up once in the registries.\<close>

definition validate_merge :: "world registries \<Rightarrow> bytes \<Rightarrow> lua \<Rightarrow> config_error + bytes \<times> string" where
  "validate_merge regs prefix v =
     (case (case v of LNil \<Rightarrow> LStr DEFAULT_MERGE | _ \<Rightarrow> v) of
        LStr merge \<Rightarrow>
          (case native_required_flags regs merge of
             Inl e \<Rightarrow> Inl (NoSuchMerge prefix)
           | Inr flags \<Rightarrow> Inr (merge, flags))
      | _ \<Rightarrow> Inl (NoSuchMerge prefix))"

definition validate_keyspace ::
  "world registries \<Rightarrow> lua \<Rightarrow> bytes list \<Rightarrow> bytes list \<Rightarrow> config_error + keyspace_cfg \<times> bytes list" where
  "validate_keyspace regs ks seen_prefix pool_names =
     and_then (lua_index ks ''prefix'') (\<lambda>p.
     and_then (ok_or KeyspaceMissingPrefix (as_string p)) (\<lambda>prefix.
     if 0x3A \<in> set prefix then Inl (PrefixHasColon prefix)
     else if prefix = as_bytes ''__udf'' \<or> prefix = as_bytes ''__mcgw'' then Inl (PrefixReserved prefix)
     else if prefix \<in> set seen_prefix then Inl (DuplicatePrefix prefix)
     else
       and_then (lua_index ks ''read'') (\<lambda>r.
       and_then (lua_index ks ''write'') (\<lambda>wr.
       and_then (validate_pool_list prefix ''read'' (as_pool_list r) pool_names) (\<lambda>read.
       and_then (validate_pool_list prefix ''write'' (as_pool_list wr) pool_names) (\<lambda>write.
       and_then (lua_index ks ''write_policy'') (\<lambda>pol.
       and_then (validate_write_policy prefix pol) (\<lambda>policy.
       and_then (lua_index ks ''merge'') (\<lambda>m.
       and_then (validate_merge regs prefix m) (\<lambda>(merge, flags).
       Inr (\<lparr>kc_prefix = prefix, kc_read = read, kc_write = write, kc_write_policy = policy,
             kc_merge = merge, kc_required_flags = flags\<rparr>, prefix # seen_prefix)))))))))))"

fun validate_keyspaces ::
  "world registries \<Rightarrow> bytes list \<Rightarrow> lua list \<Rightarrow> bytes list \<Rightarrow> config_error + keyspace_cfg list" where
  "validate_keyspaces regs pool_names [] seen = Inr []"
| "validate_keyspaces regs pool_names (k # ks) seen =
     and_then (validate_keyspace regs k seen pool_names) (\<lambda>(kc, seen).
     and_then (validate_keyspaces regs pool_names ks seen) (\<lambda>kcs. Inr (kc # kcs)))"

fun table_sequence :: "config_error \<Rightarrow> lua \<Rightarrow> config_error + lua list" where
  "table_sequence e (LTable xs fs) = Inr (sequence_of xs)"
| "table_sequence e _ = Inl e"

definition validate :: "world registries \<Rightarrow> lua \<Rightarrow> config_error + gateway_cfg" where
  "validate regs cfg =
     (case cfg of
        LTable xs fs \<Rightarrow>
          and_then (lua_index cfg ''pools'') (\<lambda>ps.
          and_then (table_sequence PoolsNotTable ps) (\<lambda>ps.
          and_then (lua_index cfg ''keyspaces'') (\<lambda>ks.
          and_then (table_sequence KeyspacesNotTable ks) (\<lambda>ks.
          and_then (validate_pools ps []) (\<lambda>(pools, pool_names).
          and_then (validate_keyspaces regs pool_names ks []) (\<lambda>keyspaces.
          Inr \<lparr>gc_pools = pools, gc_keyspaces = keyspaces\<rparr>))))))
      | _ \<Rightarrow> Inl ConfigNotTable)"

text \<open>The file: \<open>loadfile\<close>, then running the chunk.\<close>

type_synonym config_file = "nat + (nat + lua)"

definition config_load :: "world registries \<Rightarrow> config_file \<Rightarrow> config_error + gateway_cfg" where
  "config_load regs f =
     (case f of
        Inl loaderr \<Rightarrow> Inl (CannotLoad loaderr)
      | Inr (Inl e) \<Rightarrow> Inl (ErrorRunning e)
      | Inr (Inr result) \<Rightarrow> validate regs result)"

subsection \<open>Pools\<close>

record ('b, 'p) mcp_api =
  mcp_backend :: "bytes \<Rightarrow> bytes \<Rightarrow> int \<Rightarrow> nat + 'b"
  mcp_pool :: "'b list \<Rightarrow> bytes option \<Rightarrow> bytes option \<Rightarrow> nat + 'p"

text \<open>
  \<open>^(.+):(%d+)$\<close>: digits hold no colon, so the colon matched is the last one.
\<close>

fun split_last_colon :: "bytes \<Rightarrow> (bytes \<times> bytes) option" where
  "split_last_colon [] = None"
| "split_last_colon (b # bs) =
     (case split_last_colon bs of
        Some (host, port) \<Rightarrow> Some (b # host, port)
      | None \<Rightarrow> if b = 0x3A then Some ([], bs) else None)"

definition parse_addr :: "bytes \<Rightarrow> config_error + bytes \<times> int" where
  "parse_addr addr =
     (case split_last_colon addr of
        Some (host, port) \<Rightarrow>
          (if host = [] \<or> port = [] then Inl (InvalidAddr addr)
           else case digits 0 port of None \<Rightarrow> Inl (InvalidAddr addr) | Some n \<Rightarrow> Inr (host, n))
      | None \<Rightarrow> Inl (InvalidAddr addr))"

definition make_backend :: "('b, 'p) mcp_api \<Rightarrow> bytes \<Rightarrow> bytes \<Rightarrow> config_error + 'b" where
  "make_backend mcp pool_name addr =
     and_then (parse_addr addr) (\<lambda>(host, port).
     map_err ProxyError (mcp_backend mcp (pool_name @ as_bytes ''/'' @ addr) host port))"

fun make_backends :: "('b, 'p) mcp_api \<Rightarrow> bytes \<Rightarrow> bytes list \<Rightarrow> config_error + 'b list" where
  "make_backends mcp pool_name [] = Inr []"
| "make_backends mcp pool_name (a # as) =
     and_then (make_backend mcp pool_name a) (\<lambda>b.
     and_then (make_backends mcp pool_name as) (\<lambda>bs. Inr (b # bs)))"

fun pools_build ::
  "('b, 'p) mcp_api \<Rightarrow> pool_cfg list \<Rightarrow> (bytes \<rightharpoonup> 'p) \<Rightarrow> config_error + (bytes \<rightharpoonup> 'p)" where
  "pools_build mcp [] out = Inr out"
| "pools_build mcp (p # ps) out =
     and_then (make_backends mcp (pc_name p) (pc_addrs p)) (\<lambda>backends.
     and_then (map_err ProxyError (mcp_pool mcp backends (pc_hash p) (pc_dist p))) (\<lambda>pool.
     pools_build mcp ps (out(pc_name p \<mapsto> pool))))"

subsection \<open>Keyspaces\<close>

record 'p built_keyspace =
  bk_prefix :: bytes
  bk_read_pools :: "'p option list"
  bk_read_names :: "bytes list"
  bk_write_pools :: "'p option list"
  bk_write_policy :: bytes
  bk_merge_name :: bytes
  bk_merge_flags :: string

definition build_keyspace :: "(bytes \<rightharpoonup> 'p) \<Rightarrow> keyspace_cfg \<Rightarrow> 'p built_keyspace" where
  "build_keyspace pools_by_name ks =
     \<lparr>bk_prefix = kc_prefix ks, bk_read_pools = map pools_by_name (kc_read ks), bk_read_names = kc_read ks,
      bk_write_pools = map pools_by_name (kc_write ks), bk_write_policy = kc_write_policy ks,
      bk_merge_name = kc_merge ks, bk_merge_flags = kc_required_flags ks\<rparr>"

fun keyspaces_build ::
  "(bytes \<rightharpoonup> 'p) \<Rightarrow> keyspace_cfg list \<Rightarrow> (bytes \<rightharpoonup> 'p built_keyspace) \<Rightarrow> (bytes \<rightharpoonup> 'p built_keyspace)" where
  "keyspaces_build pools_by_name [] out = out"
| "keyspaces_build pools_by_name (ks # kss) out =
     keyspaces_build pools_by_name kss (out(kc_prefix ks \<mapsto> build_keyspace pools_by_name ks))"

subsection \<open>Loading and reloading\<close>

record gateway =
  gw_config :: "gateway_cfg option"
  gw_last_good :: "gateway_cfg option"

definition gateway_new :: gateway where
  "gateway_new = \<lparr>gw_config = None, gw_last_good = None\<rparr>"

text \<open>\<open>has_native\<close>: whether requiring the native module gives a table with the function.\<close>

definition observe_reload :: "bool \<Rightarrow> string \<Rightarrow> gateway_cfg \<Rightarrow> world \<Rightarrow> world" where
  "observe_reload has_native result cfg w =
     (if has_native
      then native_observe_reload (as_bytes result) (length (gc_pools cfg)) (length (gc_keyspaces cfg)) w
      else w)"

definition load_config ::
  "bool \<Rightarrow> world registries \<Rightarrow> config_file \<Rightarrow> gateway \<Rightarrow> world \<Rightarrow>
   (config_error + gateway_cfg) \<times> gateway \<times> world" where
  "load_config has_native regs f gw w =
     (case config_load regs f of
        Inl e \<Rightarrow>
          (case gw_last_good gw of
             None \<Rightarrow> (Inl e, gw, w)
           | Some good \<Rightarrow> (Inr good, gw\<lparr>gw_config := Some good\<rparr>, observe_reload has_native ''fallback'' good w))
      | Inr cfg \<Rightarrow>
          (Inr cfg, gw\<lparr>gw_last_good := Some cfg, gw_config := Some cfg\<rparr>, observe_reload has_native ''ok'' cfg w))"

definition use_config :: "gateway_cfg \<Rightarrow> gateway \<Rightarrow> gateway" where
  "use_config cfg gw = gw\<lparr>gw_config := Some cfg\<rparr>"

definition build_pools :: "('b, 'p) mcp_api \<Rightarrow> gateway \<Rightarrow> config_error + (bytes \<rightharpoonup> 'p)" where
  "build_pools mcp gw =
     and_then (ok_or NotLoaded (gw_config gw)) (\<lambda>cfg. pools_build mcp (gc_pools cfg) Map.empty)"

definition build_keyspaces ::
  "(bytes \<rightharpoonup> 'p) \<Rightarrow> gateway \<Rightarrow> config_error + (bytes \<rightharpoonup> 'p built_keyspace)" where
  "build_keyspaces pools_by_name gw =
     and_then (ok_or NotLoaded (gw_config gw)) (\<lambda>cfg.
     Inr (keyspaces_build pools_by_name (gc_keyspaces cfg) Map.empty))"

text \<open>The hooks of proxy.lua; the second one is in another Lua state, the worker's.\<close>

definition mcp_config_pools ::
  "('b, 'p) mcp_api \<Rightarrow> bool \<Rightarrow> world registries \<Rightarrow> config_file \<Rightarrow> gateway \<Rightarrow> world \<Rightarrow>
   (config_error + (bytes \<rightharpoonup> 'p) \<times> gateway_cfg) \<times> gateway \<times> world" where
  "mcp_config_pools mcp has_native regs f gw w =
     (case load_config has_native regs f gw w of
        (Inl e, gw, w) \<Rightarrow> (Inl e, gw, w)
      | (Inr cfg, gw, w) \<Rightarrow>
          (and_then (build_pools mcp gw) (\<lambda>pools. Inr (pools, cfg)), gw, w))"

definition worker_keyspaces ::
  "(bytes \<rightharpoonup> 'p) \<times> gateway_cfg \<Rightarrow> gateway \<Rightarrow> config_error + (bytes \<rightharpoonup> 'p built_keyspace)" where
  "worker_keyspaces bundle gw = build_keyspaces (fst bundle) (use_config (snd bundle) gw)"

subsection \<open>What validation promises\<close>

definition wf_pool :: "pool_cfg \<Rightarrow> bool" where
  "wf_pool p \<longleftrightarrow> pc_name p \<noteq> [] \<and> pc_addrs p \<noteq> [] \<and> [] \<notin> set (pc_addrs p) \<and>
     set_option (pc_hash p) \<subseteq> set VALID_HASH \<and> set_option (pc_dist p) \<subseteq> set VALID_DIST"

definition wf_pool_list :: "bytes list \<Rightarrow> bytes list \<Rightarrow> bool" where
  "wf_pool_list pool_names names \<longleftrightarrow>
     names \<noteq> [] \<and> [] \<notin> set names \<and> distinct names \<and> set names \<subseteq> set pool_names"

definition wf_keyspace :: "world registries \<Rightarrow> bytes list \<Rightarrow> keyspace_cfg \<Rightarrow> bool" where
  "wf_keyspace regs pool_names ks \<longleftrightarrow>
     kc_prefix ks \<noteq> [] \<and> 0x3A \<notin> set (kc_prefix ks) \<and>
     kc_prefix ks \<noteq> as_bytes ''__udf'' \<and> kc_prefix ks \<noteq> as_bytes ''__mcgw'' \<and>
     wf_pool_list pool_names (kc_read ks) \<and> wf_pool_list pool_names (kc_write ks) \<and>
     kc_write_policy ks \<in> set VALID_WRITE_POLICY \<and>
     native_required_flags regs (kc_merge ks) = Inr (kc_required_flags ks)"

definition wf_config :: "world registries \<Rightarrow> gateway_cfg \<Rightarrow> bool" where
  "wf_config regs cfg \<longleftrightarrow>
     (\<forall>p \<in> set (gc_pools cfg). wf_pool p) \<and> distinct (map pc_name (gc_pools cfg)) \<and>
     (\<forall>ks \<in> set (gc_keyspaces cfg). wf_keyspace regs (map pc_name (gc_pools cfg)) ks) \<and>
     distinct (map kc_prefix (gc_keyspaces cfg))"

text \<open>Every address has the form the pools need.\<close>

definition addrs_parse :: "gateway_cfg \<Rightarrow> bool" where
  "addrs_parse cfg \<longleftrightarrow> (\<forall>p \<in> set (gc_pools cfg). \<forall>a \<in> set (pc_addrs p). \<exists>x. parse_addr a = Inr x)"

text \<open>
  What the pools of a configuration must be, stated over the proxy's two constructors. They
  may fail on any arguments; as functions of their arguments they answer the same call the
  same way.
\<close>

definition backend_built :: "('b, 'p) mcp_api \<Rightarrow> bytes \<Rightarrow> bytes \<Rightarrow> 'b \<Rightarrow> bool" where
  "backend_built mcp name a b \<longleftrightarrow>
     (\<exists>host port. parse_addr a = Inr (host, port) \<and> mcp_backend mcp (name @ as_bytes ''/'' @ a) host port = Inr b)"

definition pool_built :: "('b, 'p) mcp_api \<Rightarrow> pool_cfg \<Rightarrow> 'p \<Rightarrow> bool" where
  "pool_built mcp p pool \<longleftrightarrow>
     (\<exists>bs. list_all2 (backend_built mcp (pc_name p)) (pc_addrs p) bs \<and>
        mcp_pool mcp bs (pc_hash p) (pc_dist p) = Inr pool)"

definition pools_built :: "('b, 'p) mcp_api \<Rightarrow> gateway_cfg \<Rightarrow> (bytes \<rightharpoonup> 'p) \<Rightarrow> bool" where
  "pools_built mcp cfg pools \<longleftrightarrow>
     dom pools = pc_name ` set (gc_pools cfg) \<and>
     (\<forall>p \<in> set (gc_pools cfg). \<exists>pool. pools (pc_name p) = Some pool \<and> pool_built mcp p pool)"

text \<open>
  A history of loads, each of a file read with the registries of its time, and the last
  configuration of it that was accepted.
\<close>

fun loads :: "(world registries \<times> config_file) list \<Rightarrow> gateway \<times> world \<Rightarrow> gateway \<times> world" where
  "loads [] gww = gww"
| "loads ((regs, f) # fs) gww = loads fs (snd (load_config True regs f (fst gww) (snd gww)))"

fun last_valid :: "gateway_cfg option \<Rightarrow> (world registries \<times> config_file) list \<Rightarrow> gateway_cfg option" where
  "last_valid good [] = good"
| "last_valid good ((regs, f) # fs) =
     last_valid (case config_load regs f of Inr cfg \<Rightarrow> Some cfg | Inl e \<Rightarrow> good) fs"

text \<open>A proxy that refuses ports of more than five digits, and a small configuration.\<close>

definition echo_mcp :: "(bytes, bytes list) mcp_api" where
  "echo_mcp = \<lparr>mcp_backend = (\<lambda>l h p. if p < 100000 then Inr l else Inl 0), mcp_pool = (\<lambda>bs h d. Inr bs)\<rparr>"

definition small_config :: "bytes \<Rightarrow> gateway_cfg" where
  "small_config addr =
     \<lparr>gc_pools = [\<lparr>pc_name = as_bytes ''a'', pc_addrs = [addr], pc_hash = None, pc_dist = None\<rparr>],
      gc_keyspaces = [\<lparr>kc_prefix = as_bytes ''user'', kc_read = [as_bytes ''a''], kc_write = [as_bytes ''a''],
        kc_write_policy = as_bytes ''all'', kc_merge = as_bytes ''first-hit'', kc_required_flags = ''''\<rparr>]\<rparr>"

text \<open>A configuration written out as a Lua table.\<close>

definition opt_field :: "string \<Rightarrow> bytes option \<Rightarrow> (bytes \<times> lua) list" where
  "opt_field k v = (case v of None \<Rightarrow> [] | Some s \<Rightarrow> [(as_bytes k, LStr s)])"

definition lua_strings :: "bytes list \<Rightarrow> lua" where
  "lua_strings ss = LTable (map LStr ss) []"

definition lua_of_pool :: "pool_cfg \<Rightarrow> lua" where
  "lua_of_pool p = LTable []
     ([(as_bytes ''name'', LStr (pc_name p)), (as_bytes ''addrs'', lua_strings (pc_addrs p))] @
      opt_field ''hash'' (pc_hash p) @ opt_field ''dist'' (pc_dist p))"

definition lua_of_keyspace :: "keyspace_cfg \<Rightarrow> lua" where
  "lua_of_keyspace ks = LTable []
     [(as_bytes ''prefix'', LStr (kc_prefix ks)), (as_bytes ''read'', lua_strings (kc_read ks)),
      (as_bytes ''write'', lua_strings (kc_write ks)), (as_bytes ''write_policy'', LStr (kc_write_policy ks)),
      (as_bytes ''merge'', LStr (kc_merge ks))]"

definition lua_of_config :: "gateway_cfg \<Rightarrow> lua" where
  "lua_of_config cfg = LTable []
     [(as_bytes ''pools'', LTable (map lua_of_pool (gc_pools cfg)) []),
      (as_bytes ''keyspaces'', LTable (map lua_of_keyspace (gc_keyspaces cfg)) [])]"

section \<open>Lemmas\<close>

subsection \<open>Accepted configurations are well-formed\<close>

lemma as_string_Some: "as_string v = Some s \<longleftrightarrow> v = LStr s \<and> s \<noteq> []"
  by (cases v) auto

lemma as_sequence_nonempty: "as_sequence v = Some xs \<Longrightarrow> xs \<noteq> []"
  by (cases v) (auto split: if_splits)

lemma validate_addrs_sound:
  "validate_addrs name i as = Inr ss \<Longrightarrow> length ss = length as \<and> [] \<notin> set ss"
  by (induction as arbitrary: i ss) (auto simp: result_simps as_string_Some split: option.splits)

lemma one_of_sound: "one_of valid e v = Inr r \<Longrightarrow> set_option r \<subseteq> set valid"
  by (auto simp: one_of_def split: lua.splits if_splits)

lemma validate_pool_sound:
  assumes "validate_pool p seen = Inr (pc, seen')"
  shows "wf_pool pc \<and> pc_name pc \<notin> set seen \<and> seen' = pc_name pc # seen"
proof -
  obtain name as addrs h hash d dist where
    *: "name \<noteq> []" "name \<notin> set seen" "as \<noteq> []" "validate_addrs name 1 as = Inr addrs"
      "one_of VALID_HASH (InvalidHash name) h = Inr hash" "one_of VALID_DIST (InvalidDist name) d = Inr dist"
      "pc = \<lparr>pc_name = name, pc_addrs = addrs, pc_hash = hash, pc_dist = dist\<rparr>" "seen' = name # seen"
    using assms
    by (auto simp: validate_pool_def result_simps as_string_Some dest: as_sequence_nonempty split: if_splits)
  then show ?thesis
    using validate_addrs_sound [OF *(4)] one_of_sound [OF *(5)] one_of_sound [OF *(6)]
    by (auto simp: wf_pool_def)
qed

lemma validate_pools_sound:
  "validate_pools ps seen = Inr (pcs, seen') \<Longrightarrow> distinct seen \<Longrightarrow>
   (\<forall>p \<in> set pcs. wf_pool p) \<and> distinct (map pc_name pcs) \<and> set (map pc_name pcs) \<inter> set seen = {} \<and>
   set seen' = set (map pc_name pcs) \<union> set seen"
proof (induction ps arbitrary: seen pcs)
  case (Cons p ps)
  then obtain pc seen1 rest where *: "validate_pool p seen = Inr (pc, seen1)"
    "validate_pools ps seen1 = Inr (rest, seen')" "pcs = pc # rest"
    by (auto simp: result_simps)
  with Cons.IH [OF *(2)] validate_pool_sound [OF *(1)] Cons.prems(2) show ?case
    by auto
qed auto

lemma pool_list_loop_sound:
  "pool_list_loop prefix field pool_names i seen vs = Inr ns \<Longrightarrow>
   length ns = length vs \<and> [] \<notin> set ns \<and> distinct ns \<and> set ns \<subseteq> set pool_names \<and> set ns \<inter> set seen = {}"
proof (induction vs arbitrary: i seen ns)
  case (Cons v vs)
  then obtain name rest where *: "v = LStr name" "name \<noteq> []" "name \<in> set pool_names" "name \<notin> set seen"
    "pool_list_loop prefix field pool_names (i + 1) (name # seen) vs = Inr rest" "ns = name # rest"
    by (auto simp: result_simps as_string_Some split: option.splits if_splits)
  with Cons.IH [OF *(5)] show ?case
    by auto
qed simp

lemma validate_pool_list_sound:
  "validate_pool_list prefix field v pool_names = Inr ns \<Longrightarrow> wf_pool_list pool_names ns"
  by (auto simp: validate_pool_list_def wf_pool_list_def result_simps
      dest!: as_sequence_nonempty pool_list_loop_sound)

lemma validate_write_policy_sound:
  "validate_write_policy prefix v = Inr policy \<Longrightarrow> policy \<in> set VALID_WRITE_POLICY"
  by (auto simp: validate_write_policy_def result_simps VALID_WRITE_POLICY_def DEFAULT_WRITE_POLICY_def
      dest!: one_of_sound split: option.splits)

lemma validate_merge_sound:
  "validate_merge regs prefix v = Inr (merge, flags) \<Longrightarrow> native_required_flags regs merge = Inr flags"
  by (auto simp: validate_merge_def split: lua.splits sum.splits)

lemma validate_keyspace_sound:
  assumes "validate_keyspace regs k seen pool_names = Inr (kc, seen')"
  shows "wf_keyspace regs pool_names kc \<and> kc_prefix kc \<notin> set seen \<and> seen' = kc_prefix kc # seen"
proof -
  obtain prefix r wr rs ws pol policy m merge flags where
    *: "prefix \<noteq> []" "0x3A \<notin> set prefix" "prefix \<noteq> as_bytes ''__udf''" "prefix \<noteq> as_bytes ''__mcgw''"
      "prefix \<notin> set seen"
      "validate_pool_list prefix ''read'' r pool_names = Inr rs"
      "validate_pool_list prefix ''write'' wr pool_names = Inr ws"
      "validate_write_policy prefix pol = Inr policy" "validate_merge regs prefix m = Inr (merge, flags)"
      "kc = \<lparr>kc_prefix = prefix, kc_read = rs, kc_write = ws, kc_write_policy = policy,
             kc_merge = merge, kc_required_flags = flags\<rparr>" "seen' = prefix # seen"
    using assms by (auto simp: validate_keyspace_def result_simps as_string_Some split: if_splits)
  then show ?thesis
    using validate_pool_list_sound [OF *(6)] validate_pool_list_sound [OF *(7)]
      validate_write_policy_sound [OF *(8)] validate_merge_sound [OF *(9)]
    by (simp add: wf_keyspace_def)
qed

lemma validate_keyspaces_sound:
  "validate_keyspaces regs pool_names ks seen = Inr kcs \<Longrightarrow>
   (\<forall>k \<in> set kcs. wf_keyspace regs pool_names k) \<and> distinct (map kc_prefix kcs) \<and>
   set (map kc_prefix kcs) \<inter> set seen = {}"
proof (induction ks arbitrary: seen kcs)
  case (Cons k ks)
  then obtain kc seen1 rest where *: "validate_keyspace regs k seen pool_names = Inr (kc, seen1)"
    "validate_keyspaces regs pool_names ks seen1 = Inr rest" "kcs = kc # rest"
    by (auto simp: result_simps)
  with Cons.IH [OF *(2)] validate_keyspace_sound [OF *(1)] show ?case
    by auto
qed auto

lemma wf_keyspace_cong:
  "set names = set names' \<Longrightarrow> wf_keyspace regs names k = wf_keyspace regs names' k"
  by (simp add: wf_keyspace_def wf_pool_list_def)

lemma validate_sound:
  assumes "validate regs v = Inr cfg"
  shows "wf_config regs cfg"
proof -
  obtain ps ks pools pool_names keyspaces where
    *: "validate_pools ps [] = Inr (pools, pool_names)" "validate_keyspaces regs pool_names ks [] = Inr keyspaces"
      "cfg = \<lparr>gc_pools = pools, gc_keyspaces = keyspaces\<rparr>"
    using assms by (auto simp: validate_def result_simps split: lua.splits)
  with validate_pools_sound [OF *(1)] validate_keyspaces_sound [OF *(2)]
    wf_keyspace_cong [of pool_names "map pc_name pools" regs]
  show ?thesis
    by (auto simp: wf_config_def)
qed

subsection \<open>Well-formed configurations are accepted\<close>

lemma sequence_of_tables [simp]:
  "sequence_of (map LStr ss) = map LStr ss"
  "sequence_of (map lua_of_pool ps) = map lua_of_pool ps"
  "sequence_of (map lua_of_keyspace ks) = map lua_of_keyspace ks"
  by (auto simp: sequence_of_def lua_of_pool_def lua_of_keyspace_def intro: takeWhile_eq_all_conv [THEN iffD2])

lemma validate_addrs_complete: "[] \<notin> set ss \<Longrightarrow> validate_addrs name i (map LStr ss) = Inr ss"
  by (induction ss arbitrary: i) (auto simp: and_then_def)

lemma pool_list_loop_complete:
  "[] \<notin> set ns \<Longrightarrow> distinct ns \<Longrightarrow> set ns \<subseteq> set pool_names \<Longrightarrow> set ns \<inter> set seen = {} \<Longrightarrow>
   pool_list_loop prefix field pool_names i seen (map LStr ns) = Inr ns"
  by (induction ns arbitrary: i seen) (auto simp: and_then_def)

lemma validate_pool_list_complete:
  "wf_pool_list pool_names ns \<Longrightarrow> validate_pool_list prefix field (as_pool_list (lua_strings ns)) pool_names = Inr ns"
  by (auto simp: validate_pool_list_def wf_pool_list_def lua_strings_def as_pool_list_def ok_or_def and_then_def
      pool_list_loop_complete)

lemma validate_pool_complete:
  assumes "wf_pool p" "pc_name p \<notin> set seen"
  shows "validate_pool (lua_of_pool p) seen = Inr (p, pc_name p # seen)"
  using assms
  by (cases p; cases "pc_hash p"; cases "pc_dist p")
    (auto simp: validate_pool_def lua_of_pool_def lua_index_def lua_strings_def opt_field_def one_of_def
      ok_or_def and_then_def validate_addrs_complete wf_pool_def)

lemma validate_pools_complete:
  "\<forall>p \<in> set ps. wf_pool p \<Longrightarrow> distinct (map pc_name ps) \<Longrightarrow> set (map pc_name ps) \<inter> set seen = {} \<Longrightarrow>
   validate_pools (map lua_of_pool ps) seen = Inr (ps, rev (map pc_name ps) @ seen)"
  by (induction ps arbitrary: seen) (auto simp: validate_pool_complete and_then_def)

lemma validate_keyspace_complete:
  assumes "wf_keyspace regs pool_names k" "kc_prefix k \<notin> set seen"
  shows "validate_keyspace regs (lua_of_keyspace k) seen pool_names = Inr (k, kc_prefix k # seen)"
proof -
  have merge: "validate_merge regs prefix (LStr (kc_merge k)) = Inr (kc_merge k, kc_required_flags k)" for prefix
    using assms(1) by (simp add: validate_merge_def wf_keyspace_def)
  have policy: "validate_write_policy prefix (LStr (kc_write_policy k)) = Inr (kc_write_policy k)" for prefix
    using assms(1) by (simp add: validate_write_policy_def one_of_def wf_keyspace_def and_then_def)
  show ?thesis
    using assms merge policy validate_pool_list_complete [of pool_names "kc_read k"]
      validate_pool_list_complete [of pool_names "kc_write k"]
    by (simp add: validate_keyspace_def lua_of_keyspace_def lua_index_def ok_or_def and_then_def wf_keyspace_def)
qed

lemma validate_keyspaces_complete:
  "\<forall>k \<in> set ks. wf_keyspace regs pool_names k \<Longrightarrow> distinct (map kc_prefix ks) \<Longrightarrow>
   set (map kc_prefix ks) \<inter> set seen = {} \<Longrightarrow>
   validate_keyspaces regs pool_names (map lua_of_keyspace ks) seen = Inr ks"
  by (induction ks arbitrary: seen) (auto simp: validate_keyspace_complete and_then_def)

lemma validate_complete:
  assumes "wf_config regs cfg"
  shows "validate regs (lua_of_config cfg) = Inr cfg"
proof -
  let ?names = "rev (map pc_name (gc_pools cfg))"
  have pools: "validate_pools (map lua_of_pool (gc_pools cfg)) [] = Inr (gc_pools cfg, ?names)"
    using validate_pools_complete [of "gc_pools cfg" "[]"] assms by (simp add: wf_config_def)
  have "validate_keyspaces regs ?names (map lua_of_keyspace (gc_keyspaces cfg)) [] = Inr (gc_keyspaces cfg)"
    using validate_keyspaces_complete [of "gc_keyspaces cfg" regs ?names "[]"] assms
      wf_keyspace_cong [of ?names "map pc_name (gc_pools cfg)" regs]
    by (simp add: wf_config_def)
  with pools show ?thesis
    by (simp add: validate_def lua_of_config_def lua_index_def and_then_def)
qed

subsection \<open>Building\<close>

lemma make_backend_iff: "make_backend mcp name a = Inr b \<longleftrightarrow> backend_built mcp name a b"
  by (auto simp: make_backend_def backend_built_def result_simps)

lemma make_backends_iff: "make_backends mcp name as = Inr bs \<longleftrightarrow> list_all2 (backend_built mcp name) as bs"
proof (induction as arbitrary: bs)
  case (Cons a as)
  then show ?case
    by (cases bs) (auto simp: result_simps make_backend_iff)
qed auto

lemma pools_build_step:
  "pools_build mcp (p # ps) out = Inr pools \<longleftrightarrow>
   (\<exists>pool. pool_built mcp p pool \<and> pools_build mcp ps (out(pc_name p \<mapsto> pool)) = Inr pools)"
  by (auto simp: result_simps pool_built_def make_backends_iff)

text \<open>Pool names are distinct, so no pool replaces another.\<close>

lemma pools_build_iff:
  assumes "distinct (map pc_name ps)" "\<forall>p \<in> set ps. out (pc_name p) = None"
  shows "pools_build mcp ps out = Inr pools \<longleftrightarrow>
    (\<forall>n. n \<notin> pc_name ` set ps \<longrightarrow> pools n = out n) \<and>
    (\<forall>p \<in> set ps. \<exists>pool. pools (pc_name p) = Some pool \<and> pool_built mcp p pool)"
  using assms
proof (induction ps arbitrary: out)
  case (Cons p ps)
  have fresh: "pc_name p \<notin> pc_name ` set ps"
    using Cons.prems(1) by auto
  have IH: "pools_build mcp ps (out(pc_name p \<mapsto> pool)) = Inr pools \<longleftrightarrow>
      (\<forall>n. n \<notin> pc_name ` set ps \<longrightarrow> pools n = (out(pc_name p \<mapsto> pool)) n) \<and>
      (\<forall>p \<in> set ps. \<exists>pool. pools (pc_name p) = Some pool \<and> pool_built mcp p pool)" for pool
    using Cons.prems fresh by (intro Cons.IH) (auto simp: image_iff)
  have "(\<forall>n. n \<notin> pc_name ` set ps \<longrightarrow> pools n = (out(pc_name p \<mapsto> pool)) n) \<longleftrightarrow>
      pools (pc_name p) = Some pool \<and> (\<forall>n. n \<notin> pc_name ` set (p # ps) \<longrightarrow> pools n = out n)" for pool
    using fresh by auto
  then show ?case
    unfolding pools_build_step IH by auto
qed auto

lemma pools_built_iff:
  assumes "distinct (map pc_name (gc_pools cfg))"
  shows "pools_build mcp (gc_pools cfg) Map.empty = Inr pools \<longleftrightarrow> pools_built mcp cfg pools"
proof -
  have "(\<forall>n. n \<notin> pc_name ` set (gc_pools cfg) \<longrightarrow> pools n = None) \<longleftrightarrow> dom pools = pc_name ` set (gc_pools cfg)"
    if "\<forall>p \<in> set (gc_pools cfg). \<exists>pool. pools (pc_name p) = Some pool \<and> pool_built mcp p pool"
    using that by (auto simp: dom_def)
  then show ?thesis
    using pools_build_iff [OF assms, of Map.empty mcp pools] by (auto simp: pools_built_def)
qed

text \<open>An address of another form cannot be built, whatever the proxy accepts.\<close>

lemma pools_built_addrs: "pools_built mcp cfg pools \<Longrightarrow> addrs_parse cfg"
  by (fastforce simp: pools_built_def pool_built_def addrs_parse_def backend_built_def list_all2_conv_all_nth in_set_conv_nth)

lemma pools_build_dom:
  "pools_build mcp ps out = Inr pools \<Longrightarrow> dom pools = dom out \<union> pc_name ` set ps"
proof (induction ps arbitrary: out)
  case (Cons p ps)
  then obtain pool where "pools_build mcp ps (out(pc_name p \<mapsto> pool)) = Inr pools"
    by (auto simp: result_simps)
  from Cons.IH [OF this] show ?case
    by auto
qed simp

lemma keyspaces_build_lookup:
  "distinct (map kc_prefix kss) \<Longrightarrow>
   keyspaces_build pools kss out prefix =
     (case find (\<lambda>ks. kc_prefix ks = prefix) kss of
        Some ks \<Rightarrow> Some (build_keyspace pools ks) | None \<Rightarrow> out prefix)"
proof (induction kss arbitrary: out)
  case (Cons ks kss)
  show ?case
  proof (cases "kc_prefix ks = prefix")
    case True
    then have "find (\<lambda>ks. kc_prefix ks = prefix) kss = None"
      using Cons.prems by (auto simp: find_None_iff) (metis image_eqI)
    with True Cons show ?thesis
      by simp
  next
    case False
    with Cons show ?thesis
      by (simp split: option.split)
  qed
qed simp

subsection \<open>Reloading\<close>

lemma load_config_state:
  "fst (snd (load_config hn regs f gw w)) =
    (case config_load regs f of
       Inr cfg \<Rightarrow> \<lparr>gw_config = Some cfg, gw_last_good = Some cfg\<rparr>
     | Inl e \<Rightarrow> (case gw_last_good gw of None \<Rightarrow> gw | Some good \<Rightarrow> gw\<lparr>gw_config := Some good\<rparr>))"
  by (auto simp: load_config_def split: sum.splits option.splits)

lemma loads_last_good:
  "gw_last_good (fst (loads fs gww)) = last_valid (gw_last_good (fst gww)) fs"
proof (induction fs arbitrary: gww)
  case (Cons x fs)
  obtain regs f where x: "x = (regs, f)"
    by (cases x)
  have "gw_last_good (fst (snd (load_config True regs f (fst gww) (snd gww)))) =
      (case config_load regs f of Inr cfg \<Rightarrow> Some cfg | Inl e \<Rightarrow> gw_last_good (fst gww))"
    by (auto simp: load_config_state split: sum.splits option.splits)
  with Cons show ?case
    by (simp add: x)
qed simp

lemma config_load_wf: "config_load regs f = Inr cfg \<Longrightarrow> wf_config regs cfg"
  by (auto simp: config_load_def dest: validate_sound split: sum.splits)

lemma last_valid_wf:
  "last_valid good fs = Some cfg \<Longrightarrow> (\<And>c. good = Some c \<Longrightarrow> \<exists>regs. wf_config regs c) \<Longrightarrow>
   \<exists>regs. wf_config regs cfg"
proof (induction fs arbitrary: good)
  case (Cons x fs)
  obtain regs f where x: "x = (regs, f)"
    by (cases x)
  show ?case
    using Cons.IH [of "case config_load regs f of Inr cfg \<Rightarrow> Some cfg | Inl e \<Rightarrow> good"] Cons.prems
      config_load_wf [of regs f]
    by (auto simp: x split: sum.splits)
qed simp

text \<open>The configuration the next load serves.\<close>

lemma load_config_result:
  "fst (load_config hn regs f gw w) =
    (case config_load regs f of
       Inr cfg \<Rightarrow> Inr cfg
     | Inl e \<Rightarrow> (case gw_last_good gw of None \<Rightarrow> Inl e | Some good \<Rightarrow> Inr good))"
  by (auto simp: load_config_def split: sum.splits option.splits)

lemma mcp_config_pools_iff:
  assumes "\<And>c. fst (load_config hn regs f gw w) = Inr c \<Longrightarrow> distinct (map pc_name (gc_pools c))"
  shows "fst (mcp_config_pools mcp hn regs f gw w) = Inr (pools, cfg) \<longleftrightarrow>
    fst (load_config hn regs f gw w) = Inr cfg \<and> pools_built mcp cfg pools"
proof -
  obtain r gw' w' where load: "load_config hn regs f gw w = (r, gw', w')"
    by (cases "load_config hn regs f gw w") auto
  have conf: "gw_config gw' = Some c" if "r = Inr c" for c
    using load that by (auto simp: load_config_def split: sum.splits option.splits)
  show ?thesis
  proof (cases r)
    case (Inl e)
    with load show ?thesis
      by (simp add: mcp_config_pools_def)
  next
    case (Inr c)
    with load conf [OF Inr] pools_built_iff [of c mcp pools] assms [of c] show ?thesis
      by (auto simp: mcp_config_pools_def build_pools_def result_simps)
  qed
qed

lemma first_hit_flags: "native_required_flags builtin_registries (as_bytes ''first-hit'') = Inr ''''"
proof -
  have "is_str ''first-hit''"
    unfolding is_str_def by code_simp
  then show ?thesis
    by (simp add: native_required_flags_def name_str_def from_utf8_as_bytes ok_or_def and_then_def
        registries_required_flags_def builtin_registries_def registries_new_def registry_get_register FirstHit_def
        default_required_flags_def)
qed

lemma small_config_wf:
  "addr \<noteq> [] \<Longrightarrow> wf_config builtin_registries (small_config addr)"
  using first_hit_flags
  by (simp add: wf_config_def small_config_def wf_pool_def wf_keyspace_def wf_pool_list_def VALID_WRITE_POLICY_def)
    (simp add: as_bytes_def)

lemma small_config_loads:
  "addr \<noteq> [] \<Longrightarrow>
   config_load builtin_registries (Inr (Inr (lua_of_config (small_config addr)))) = Inr (small_config addr)"
  using validate_complete [OF small_config_wf] by (simp add: config_load_def)

lemma small_config_addrs:
  "addrs_parse (small_config (as_bytes ''mc-a:11211''))" "\<not> addrs_parse (small_config (as_bytes ''mc-a''))"
  by (simp_all add: addrs_parse_def small_config_def) (simp_all add: parse_addr_def as_bytes_def digit_def)

lemma small_config_pools:
  "pools_built echo_mcp (small_config (as_bytes ''mc-a:11211'')) [as_bytes ''a'' \<mapsto> [as_bytes ''a/mc-a:11211'']]"
proof -
  have "parse_addr (as_bytes ''mc-a:11211'') = Inr (as_bytes ''mc-a'', 11211)"
    by (simp add: parse_addr_def as_bytes_def digit_def)
  then have "backend_built echo_mcp (as_bytes ''a'') (as_bytes ''mc-a:11211'') (as_bytes ''a/mc-a:11211'')"
    by (simp add: backend_built_def echo_mcp_def as_bytes_def)
  then show ?thesis
    by (simp add: pools_built_def pool_built_def small_config_def echo_mcp_def list_all2_Cons1)
qed

text \<open>
  An address without a port passes validation and stops the reload all the same: the pools
  cannot be built of it, and the good configuration of before has been replaced.
\<close>

lemma reload_outage:
  "\<exists>f e. config_load builtin_registries f = Inr (small_config (as_bytes ''mc-a'')) \<and>
    fst (mcp_config_pools mcp hn builtin_registries f gw w) = Inl e \<and>
    gw_last_good (fst (snd (mcp_config_pools mcp hn builtin_registries f gw w))) =
      Some (small_config (as_bytes ''mc-a''))"
proof -
  let ?f = "Inr (Inr (lua_of_config (small_config (as_bytes ''mc-a'')))) :: config_file"
  let ?cfg = "small_config (as_bytes ''mc-a'')"
  have load: "config_load builtin_registries ?f = Inr ?cfg"
    by (rule small_config_loads) (simp add: as_bytes_def)
  then have served: "fst (load_config hn builtin_registries ?f gw w) = Inr ?cfg"
    by (simp add: load_config_result)
  have "fst (mcp_config_pools mcp hn builtin_registries ?f gw w) \<noteq> Inr (pools, cfg)" for pools cfg
    using mcp_config_pools_iff [of hn builtin_registries ?f gw w mcp pools cfg] served pools_built_addrs [of mcp ?cfg pools]
      small_config_addrs(2) by (auto simp: small_config_def)
  then obtain e where "fst (mcp_config_pools mcp hn builtin_registries ?f gw w) = Inl e"
    by (cases "fst (mcp_config_pools mcp hn builtin_registries ?f gw w)") auto
  then show ?thesis
    using load by (intro exI [of _ ?f] exI [of _ e]) (auto simp: mcp_config_pools_def load_config_def split: prod.splits)
qed

lemma find_prefix:
  "distinct (map kc_prefix kss) \<Longrightarrow> ks \<in> set kss \<Longrightarrow> find (\<lambda>k. kc_prefix k = kc_prefix ks) kss = Some ks"
  by (induction kss) (auto simp: image_iff)

text \<open>Every name of a pool list has the pool built for the pool of that name.\<close>

lemma names_resolve:
  assumes "set names \<subseteq> pc_name ` set (gc_pools cfg)" "pools_built mcp cfg pools"
  obtains ps where "map pools names = map Some ps"
    "list_all2 (\<lambda>n pool. \<exists>p \<in> set (gc_pools cfg). pc_name p = n \<and> pool_built mcp p pool) names ps"
proof
  let ?ps = "map (\<lambda>n. the (pools n)) names"
  have "\<exists>p \<in> set (gc_pools cfg). pc_name p = n \<and> pools n \<noteq> None \<and> pool_built mcp p (the (pools n))" if "n \<in> set names" for n
    using assms that unfolding pools_built_def by fastforce
  then show "map pools names = map Some ?ps"
    "list_all2 (\<lambda>n pool. \<exists>p \<in> set (gc_pools cfg). pc_name p = n \<and> pool_built mcp p pool) names ?ps"
    by (fastforce, simp add: list_all2_map2 list_all2_same) blast
qed

lemma mcp_config_pools_built:
  assumes "mcp_config_pools mcp hn regs f gw w = (Inr (pools, cfg), gw', w')"
  shows "fst (load_config hn regs f gw w) = Inr cfg" "pools_build mcp (gc_pools cfg) Map.empty = Inr pools"
  using assms
  by (auto simp: mcp_config_pools_def load_config_def build_pools_def ok_or_def and_then_def
      split: prod.splits sum.splits option.splits)

lemma small_config_built:
  obtains pools gw' w' where "mcp_config_pools echo_mcp True builtin_registries
      (Inr (Inr (lua_of_config (small_config (as_bytes ''mc-a:11211''))))) gateway_new (world_new id) =
      (Inr (pools, small_config (as_bytes ''mc-a:11211'')), gw', w')"
proof -
  let ?cfg = "small_config (as_bytes ''mc-a:11211'')"
  let ?f = "Inr (Inr (lua_of_config ?cfg)) :: config_file"
  have load: "fst (load_config True builtin_registries ?f gateway_new (world_new id)) = Inr ?cfg"
    by (simp add: load_config_result small_config_loads as_bytes_def)
  have "distinct (map pc_name (gc_pools ?cfg))"
    by (simp add: small_config_def)
  with load have "fst (mcp_config_pools echo_mcp True builtin_registries ?f gateway_new (world_new id)) =
      Inr ([as_bytes ''a'' \<mapsto> [as_bytes ''a/mc-a:11211'']], ?cfg)"
    using mcp_config_pools_iff [of True builtin_registries ?f gateway_new "world_new id" echo_mcp
        "[as_bytes ''a'' \<mapsto> [as_bytes ''a/mc-a:11211'']]" ?cfg] small_config_pools by simp
  then show ?thesis
    using that by (cases "mcp_config_pools echo_mcp True builtin_registries ?f gateway_new (world_new id)") auto
qed

text \<open>Whatever was loaded before, what is served is well-formed.\<close>

lemma served_wf:
  assumes "loads fs (gateway_new, w) = (gw, w1)" "fst (load_config hn regs f gw w1) = Inr cfg"
  shows "\<exists>regs. wf_config regs cfg"
proof -
  have good: "\<exists>regs. wf_config regs c" if "gw_last_good gw = Some c" for c
    using last_valid_wf [of None fs c] loads_last_good [of fs "(gateway_new, w)"] assms(1) that
    by (simp add: gateway_new_def)
  show ?thesis
    using assms(2) good config_load_wf [of regs f]
    by (auto simp: load_config_result split: sum.splits option.splits)
qed

lemma bundle_wf:
  assumes "loads fs (gateway_new, w) = (gw, w1)"
    and "mcp_config_pools mcp hn regs f gw w1 = (Inr (pools, cfg), gw', w')"
  shows "\<exists>regs. wf_config regs cfg" "pools_built mcp cfg pools"
proof -
  show wf: "\<exists>regs. wf_config regs cfg"
    using served_wf [OF assms(1) mcp_config_pools_built(1) [OF assms(2)]] .
  then show "pools_built mcp cfg pools"
    using mcp_config_pools_built(2) [OF assms(2)] pools_built_iff [of cfg mcp pools] by (auto simp: wf_config_def)
qed

lemma worker_keyspaces_lookup:
  assumes "wf_config regs cfg"
  obtains K where "worker_keyspaces (pools, cfg) worker = Inr K" "dom K = kc_prefix ` set (gc_keyspaces cfg)"
    "\<forall>ks \<in> set (gc_keyspaces cfg). K (kc_prefix ks) = Some (build_keyspace pools ks)"
proof
  let ?K = "keyspaces_build pools (gc_keyspaces cfg) Map.empty"
  have lookup: "?K prefix = (case find (\<lambda>ks. kc_prefix ks = prefix) (gc_keyspaces cfg) of
      Some ks \<Rightarrow> Some (build_keyspace pools ks) | None \<Rightarrow> None)" for prefix
    using keyspaces_build_lookup [of "gc_keyspaces cfg" pools Map.empty prefix] assms by (simp add: wf_config_def)
  show "worker_keyspaces (pools, cfg) worker = Inr ?K"
    by (simp add: worker_keyspaces_def build_keyspaces_def use_config_def ok_or_def and_then_def)
  show "dom ?K = kc_prefix ` set (gc_keyspaces cfg)"
    by (auto simp: lookup dom_def find_None_iff find_Some_iff split: option.splits)
  show "\<forall>ks \<in> set (gc_keyspaces cfg). ?K (kc_prefix ks) = Some (build_keyspace pools ks)"
    using find_prefix [of "gc_keyspaces cfg"] assms by (simp add: lookup wf_config_def)
qed

section \<open>Properties\<close>


text \<open>
  C3. What a reload serves. Let the gateway have loaded any files before, the last accepted
  one being \<open>good\<close>, and let the proxy's constructors accept and refuse what they will. The
  next file is served if it is accepted, \<open>good\<close> is served again if not. The hook returns
  exactly when the pools of the served configuration can be built, and then with one pool
  per configured pool, made of the backends of its addresses in order. An accepted file with an
  address that is not host:port always ends in an error.
\<close>

theorem reload_survives:
  assumes "loads fs (gateway_new, w) = (gw, w1)" "last_valid None fs = Some good"
    and "served = (case config_load regs f of Inr cfg \<Rightarrow> cfg | Inl e \<Rightarrow> good)"
  shows "(fst (mcp_config_pools mcp True regs f gw w1) = Inr (pools, cfg) \<longleftrightarrow>
      cfg = served \<and> pools_built mcp served pools) \<and>
    (\<not> addrs_parse served \<longrightarrow> (\<exists>e. fst (mcp_config_pools mcp True regs f gw w1) = Inl e))"
proof -
  have "gw_last_good gw = Some good"
    using loads_last_good [of fs "(gateway_new, w)"] assms(1,2) by (simp add: gateway_new_def)
  then have load: "fst (load_config True regs f gw w1) = Inr served"
    by (simp add: load_config_result assms(3) split: sum.split)
  have "distinct (map pc_name (gc_pools c))" if "fst (load_config True regs f gw w1) = Inr c" for c
    using served_wf [OF assms(1) that] by (auto simp: wf_config_def)
  then have iff: "fst (mcp_config_pools mcp True regs f gw w1) = Inr (pools, cfg) \<longleftrightarrow>
      cfg = served \<and> pools_built mcp served pools" for pools cfg
    using mcp_config_pools_iff [of True regs f gw w1 mcp pools cfg] load by auto
  have "\<exists>e. fst (mcp_config_pools mcp True regs f gw w1) = Inl e" if "\<not> addrs_parse served"
  proof (cases "fst (mcp_config_pools mcp True regs f gw w1)")
    case (Inr b)
    then show ?thesis
      using iff [of "fst b" "snd b"] pools_built_addrs [of mcp served "fst b"] that by simp
  qed simp
  then show ?thesis
    using iff by blast
qed

theorem reload_survives_witness:
  "\<exists>gw w1. loads [(builtin_registries, Inr (Inr (lua_of_config (small_config (as_bytes ''mc-a:11211'')))))]
       (gateway_new, world_new id) = (gw, w1) \<and>
     fst (mcp_config_pools echo_mcp True builtin_registries (Inl 0) gw w1) =
       Inr ([as_bytes ''a'' \<mapsto> [as_bytes ''a/mc-a:11211'']], small_config (as_bytes ''mc-a:11211'')) \<and>
     (\<exists>e. fst (mcp_config_pools echo_mcp True builtin_registries
        (Inr (Inr (lua_of_config (small_config (as_bytes ''mc-a''))))) gw w1) = Inl e)"
proof -
  let ?fs = "[(builtin_registries, Inr (Inr (lua_of_config (small_config (as_bytes ''mc-a:11211'')))))] ::
    (world registries \<times> config_file) list"
  obtain gw w1 where gw: "loads ?fs (gateway_new, world_new id) = (gw, w1)"
    by (cases "loads ?fs (gateway_new, world_new id)")
  have ne: "as_bytes ''mc-a:11211'' \<noteq> []" "as_bytes ''mc-a'' \<noteq> []"
    by (simp_all add: as_bytes_def)
  have last: "last_valid None ?fs = Some (small_config (as_bytes ''mc-a:11211''))"
    using ne(1) by (simp add: small_config_loads)
  have "fst (mcp_config_pools echo_mcp True builtin_registries (Inl 0) gw w1) =
      Inr ([as_bytes ''a'' \<mapsto> [as_bytes ''a/mc-a:11211'']], small_config (as_bytes ''mc-a:11211''))"
    using reload_survives [OF gw last, of "small_config (as_bytes ''mc-a:11211'')" builtin_registries "Inl 0" echo_mcp
        "[as_bytes ''a'' \<mapsto> [as_bytes ''a/mc-a:11211'']]" "small_config (as_bytes ''mc-a:11211'')"]
      small_config_pools by (simp add: config_load_def)
  moreover have "\<exists>e. fst (mcp_config_pools echo_mcp True builtin_registries
      (Inr (Inr (lua_of_config (small_config (as_bytes ''mc-a''))))) gw w1) = Inl e"
    using reload_survives [OF gw last, of "small_config (as_bytes ''mc-a'')" builtin_registries
        "Inr (Inr (lua_of_config (small_config (as_bytes ''mc-a''))))" echo_mcp Map.empty] small_config_addrs(2) small_config_loads [OF ne(2)]
    by simp
  ultimately show ?thesis
    using gw by blast
qed

text \<open>
  C34. The pools and routes of a reload fit together: when the pools were built, after any
  history of loads, every worker that is handed the bundle builds exactly one keyspace per
  configured prefix, with the configured names, policy, merge and flags, and the pool at
  each position of its two pool lists is the one built of the addresses of the configured
  pool that is named at this position.
\<close>

theorem workers_resolve:
  assumes "loads fs (gateway_new, w) = (gw, w1)"
    and "mcp_config_pools mcp True regs f gw w1 = (Inr (pools, cfg), gw', w')"
  shows "\<exists>K. worker_keyspaces (pools, cfg) worker = Inr K \<and> dom K = kc_prefix ` set (gc_keyspaces cfg) \<and>
    (\<forall>ks \<in> set (gc_keyspaces cfg). \<exists>bk rps wps. K (kc_prefix ks) = Some bk \<and>
       bk_prefix bk = kc_prefix ks \<and> bk_read_names bk = kc_read ks \<and>
       bk_read_pools bk = map Some rps \<and>
       list_all2 (\<lambda>n pool. \<exists>p \<in> set (gc_pools cfg). pc_name p = n \<and> pool_built mcp p pool) (kc_read ks) rps \<and>
       bk_write_pools bk = map Some wps \<and>
       list_all2 (\<lambda>n pool. \<exists>p \<in> set (gc_pools cfg). pc_name p = n \<and> pool_built mcp p pool) (kc_write ks) wps \<and>
       bk_write_policy bk = kc_write_policy ks \<and> bk_merge_name bk = kc_merge ks \<and>
       bk_merge_flags bk = kc_required_flags ks)"
proof -
  obtain regs' where wf: "wf_config regs' cfg"
    using bundle_wf(1) [OF assms] by blast
  obtain K where K: "worker_keyspaces (pools, cfg) worker = Inr K" "dom K = kc_prefix ` set (gc_keyspaces cfg)"
    "\<forall>ks \<in> set (gc_keyspaces cfg). K (kc_prefix ks) = Some (build_keyspace pools ks)"
    by (rule worker_keyspaces_lookup [OF wf])
  let ?named = "\<lambda>n pool. \<exists>p \<in> set (gc_pools cfg). pc_name p = n \<and> pool_built mcp p pool"
  have "\<exists>rps wps. map pools (kc_read ks) = map Some rps \<and> list_all2 ?named (kc_read ks) rps \<and>
      map pools (kc_write ks) = map Some wps \<and> list_all2 ?named (kc_write ks) wps"
    if "ks \<in> set (gc_keyspaces cfg)" for ks
  proof -
    have lists: "set (kc_read ks) \<subseteq> pc_name ` set (gc_pools cfg)" "set (kc_write ks) \<subseteq> pc_name ` set (gc_pools cfg)"
      using wf that by (auto simp: wf_config_def wf_keyspace_def wf_pool_list_def)
    obtain rps where r: "map pools (kc_read ks) = map Some rps" "list_all2 ?named (kc_read ks) rps"
      by (rule names_resolve [OF lists(1) bundle_wf(2) [OF assms]])
    obtain wps where w: "map pools (kc_write ks) = map Some wps" "list_all2 ?named (kc_write ks) wps"
      by (rule names_resolve [OF lists(2) bundle_wf(2) [OF assms]])
    show ?thesis
      by (intro exI conjI) (fact r w)+
  qed
  then show ?thesis
    using K by (intro exI [of _ K]) (simp add: build_keyspace_def)
qed

theorem workers_resolve_witness:
  "\<exists>pools gw' w' K bk rps. mcp_config_pools echo_mcp True builtin_registries
       (Inr (Inr (lua_of_config (small_config (as_bytes ''mc-a:11211''))))) gateway_new (world_new id) =
       (Inr (pools, small_config (as_bytes ''mc-a:11211'')), gw', w') \<and>
     worker_keyspaces (pools, small_config (as_bytes ''mc-a:11211'')) gateway_new = Inr K \<and>
     dom K = {as_bytes ''user''} \<and> K (as_bytes ''user'') = Some bk \<and> bk_read_pools bk = map Some rps \<and>
     length rps = 1"
proof -
  let ?cfg = "small_config (as_bytes ''mc-a:11211'')"
  let ?f = "Inr (Inr (lua_of_config ?cfg)) :: config_file"
  obtain pools gw' w' where
    built: "mcp_config_pools echo_mcp True builtin_registries ?f gateway_new (world_new id) = (Inr (pools, ?cfg), gw', w')"
    by (rule small_config_built)
  have "loads [] (gateway_new, world_new id) = (gateway_new, world_new id)"
    by simp
  from workers_resolve [OF this built, of gateway_new] obtain K bk rps where
    "worker_keyspaces (pools, ?cfg) gateway_new = Inr K" "dom K = {as_bytes ''user''}"
    "K (as_bytes ''user'') = Some bk" "bk_read_pools bk = map Some rps" "length rps = 1"
    by (auto simp: small_config_def dest: list_all2_lengthD)
  with built show ?thesis
    by blast
qed

end
