(* ===== verification/Routers.thy ===== *)
theory Routers
  imports Lua_Config
begin

text \<open>
  The routers of routes.lua: the function generators of a keyspace, the constant replies
  that are still counted, the two routers and the commands they are attached to; and the
  worker's hook of proxy.lua, which builds them from the bundle of the configuration hook.

  Looking a key up in a router is memcached's code: the parameter \<open>lookup\<close>, with the
  documented behaviour of mode \<open>prefix\<close> as the condition \<open>prefix_mode\<close>. So is what a
  backend answers: \<open>respond\<close>, nil for none.
\<close>

section \<open>Definitions\<close>

datatype 'p fgen =
    ReadRoute "'p list" keyspace
  | WriteRoute "'p list" keyspace
  | Counting bytes string string bytes

text \<open>
  One handle per pool; \<open>ipairs\<close> ends at the first nil.
\<close>

definition handles_of :: "'p option list \<Rightarrow> 'p list" where
  "handles_of ps = map the (takeWhile (\<lambda>p. p \<noteq> None) ps)"

definition route_keyspace :: "'p built_keyspace \<Rightarrow> keyspace" where
  "route_keyspace bk =
     \<lparr>ks_prefix = bk_prefix bk, ks_pool_names = bk_read_names bk, ks_merge_name = bk_merge_name bk,
      ks_merge_flags = bk_merge_flags bk, ks_write_first = (bk_write_policy bk = as_bytes ''first'')\<rparr>"

definition read_fgen :: "'p built_keyspace \<Rightarrow> 'p fgen" where
  "read_fgen bk = ReadRoute (handles_of (bk_read_pools bk)) (route_keyspace bk)"

definition write_fgen :: "'p built_keyspace \<Rightarrow> 'p fgen" where
  "write_fgen bk = WriteRoute (handles_of (bk_write_pools bk)) (route_keyspace bk)"

definition counting_fgen :: "string \<Rightarrow> string \<Rightarrow> string \<Rightarrow> bytes \<Rightarrow> 'p fgen" where
  "counting_fgen prefix op outcome msg = Counting (as_bytes prefix) op outcome msg"

record 'p router =
  rt_map :: "bytes \<rightharpoonup> 'p fgen"
  rt_mode :: string
  rt_stop :: u8
  rt_default :: "'p fgen"

fun concat_comma :: "string list \<Rightarrow> string" where
  "concat_comma [] = ''''"
| "concat_comma [n] = n"
| "concat_comma (n # ns) = n @ '','' @ concat_comma ns"

definition names_reply :: "string list \<Rightarrow> bytes" where
  "names_reply names = va_reply (as_bytes (concat_comma names))"

definition build_routers ::
  "world registries \<Rightarrow> (bytes \<rightharpoonup> 'p built_keyspace) \<Rightarrow> lua_error + 'p router \<times> 'p router" where
  "build_routers regs built =
     and_then (native_names lua_tables regs) (\<lambda>names.
     let read_map = (\<lambda>prefix. map_option read_fgen (built prefix));
         write_map = (\<lambda>prefix. map_option write_fgen (built prefix));
         read_map = read_map(as_bytes ''__udf'' \<mapsto> counting_fgen ''__udf'' ''read'' ''error'' UDF_NOT_SUPPORTED);
         write_map = write_map(as_bytes ''__udf'' \<mapsto> counting_fgen ''__udf'' ''write'' ''error'' UDF_NOT_SUPPORTED);
         read_map = read_map(as_bytes ''__mcgw'' \<mapsto> counting_fgen ''__mcgw'' ''read'' ''hit'' (names_reply names));
         write_map = write_map(as_bytes ''__mcgw'' \<mapsto> counting_fgen ''__mcgw'' ''write'' ''error'' UDF_NOT_SUPPORTED)
     in Inr (\<lparr>rt_map = read_map, rt_mode = ''prefix'', rt_stop = 0x3A,
              rt_default = counting_fgen ''__unknown__'' ''read'' ''error'' UNKNOWN_KEYSPACE\<rparr>,
             \<lparr>rt_map = write_map, rt_mode = ''prefix'', rt_stop = 0x3A,
              rt_default = counting_fgen ''__unknown__'' ''write'' ''error'' UNKNOWN_KEYSPACE\<rparr>))"

datatype command = CMD_MG | CMD_MS | CMD_MD

definition attach ::
  "world registries \<Rightarrow> (bytes \<rightharpoonup> 'p built_keyspace) \<Rightarrow> lua_error + (command \<Rightarrow> 'p router)" where
  "attach regs built =
     and_then (build_routers regs built) (\<lambda>(read_router, write_router).
     Inr (\<lambda>c. case c of CMD_MG \<Rightarrow> read_router | CMD_MS \<Rightarrow> write_router | CMD_MD \<Rightarrow> write_router))"

definition mcp_config_routes ::
  "world registries \<Rightarrow> (bytes \<rightharpoonup> 'p) \<times> gateway_cfg \<Rightarrow> gateway \<Rightarrow> config_error + (command \<Rightarrow> 'p router)" where
  "mcp_config_routes regs bundle gw =
     and_then (worker_keyspaces bundle gw) (\<lambda>built. map_err NativeError (attach regs built))"

text \<open>A request on a route; only a write may have no reply.\<close>

definition run_route ::
  "'p fgen \<Rightarrow> world registries \<Rightarrow> ('p \<Rightarrow> mcp_response option) \<Rightarrow> bytes \<Rightarrow> world \<Rightarrow>
   (lua_error + reply option) \<times> world" where
  "run_route fg regs respond key w =
     (case fg of
        ReadRoute handles ks \<Rightarrow>
          (case read_handler ks regs key (map respond handles) w of
             (Inl e, w) \<Rightarrow> (Inl e, w)
           | (Inr r, w) \<Rightarrow> (Inr (Some r), w))
      | WriteRoute handles ks \<Rightarrow>
          (case write_handler ks (map respond handles) w of (r, w) \<Rightarrow> (Inr r, w))
      | Counting prefix op outcome msg \<Rightarrow>
          (Inr (Some (Text msg)), native_observe prefix (as_bytes op) (as_bytes outcome) None w))"

definition prefix_mode :: "('p router \<Rightarrow> bytes \<Rightarrow> 'p fgen) \<Rightarrow> bool" where
  "prefix_mode lookup \<longleftrightarrow>
     (\<forall>rt prefix rest. rt_mode rt = ''prefix'' \<and> rt_stop rt \<notin> set prefix \<longrightarrow>
        lookup rt (prefix @ rt_stop rt # rest) =
          (case rt_map rt prefix of Some fg \<Rightarrow> fg | None \<Rightarrow> rt_default rt))"

text \<open>A lookup that finds the stop by scanning the key.\<close>

definition scan_lookup :: "'p router \<Rightarrow> bytes \<Rightarrow> 'p fgen" where
  "scan_lookup rt key =
     (if rt_stop rt \<in> set key
      then (case rt_map rt (takeWhile (\<lambda>b. b \<noteq> rt_stop rt) key) of Some fg \<Rightarrow> fg | None \<Rightarrow> rt_default rt)
      else rt_default rt)"

text \<open>What the pools of a keyspace answer, in order, and TTL flags that fit 64 bits.\<close>

definition answers :: "(bytes \<rightharpoonup> 'p) \<Rightarrow> ('p \<Rightarrow> mcp_response option) \<Rightarrow> bytes list \<Rightarrow> mcp_response option list" where
  "answers pools respond names = map (\<lambda>n. respond (the (pools n))) names"

definition ttl_fits :: "mcp_response option \<Rightarrow> bool" where
  "ttl_fits res = (case to_i64 (parse_t (Option.bind res r_line)) of Inr t \<Rightarrow> True | Inl e \<Rightarrow> False)"

text \<open>The routers lead every unreserved prefix to its keyspace, or to the unknown route.\<close>

definition keyspace_route :: "(bytes \<rightharpoonup> 'p built_keyspace) \<Rightarrow> command \<Rightarrow> bytes \<Rightarrow> 'p fgen" where
  "keyspace_route K c prefix =
     (case K prefix of
        Some bk \<Rightarrow> if c = CMD_MG then read_fgen bk else write_fgen bk
      | None \<Rightarrow> counting_fgen ''__unknown__'' (if c = CMD_MG then ''read'' else ''write'') ''error'' UNKNOWN_KEYSPACE)"

definition routes_as :: "(bytes \<rightharpoonup> 'p built_keyspace) \<Rightarrow> (command \<Rightarrow> 'p router) \<Rightarrow> bool" where
  "routes_as K routers \<longleftrightarrow>
     (\<forall>lookup c prefix rest. prefix_mode lookup \<longrightarrow> 0x3A \<notin> set prefix \<longrightarrow>
        prefix \<noteq> as_bytes ''__udf'' \<longrightarrow> prefix \<noteq> as_bytes ''__mcgw'' \<longrightarrow>
        lookup (routers c) (prefix @ 0x3A # rest) = keyspace_route K c prefix)"

section \<open>Lemmas\<close>

lemma scan_lookup_prefix_mode: "prefix_mode scan_lookup"
  by (auto simp: prefix_mode_def scan_lookup_def takeWhile_append takeWhile_eq_all_conv)

lemma set_names_plain: "set_names lua_tables i ns tbl = Inr (tbl @ ns)"
  by (induction ns arbitrary: i tbl) (simp_all add: lua_tables_def and_then_def)

lemma native_names_plain: "native_names lua_tables regs = Inr (registries_names regs)"
  by (simp add: native_names_def set_names_plain) (simp add: lua_tables_def and_then_def)

lemma handles_of_all: "handles_of (map Some ps) = ps"
  by (induction ps) (simp_all add: handles_of_def)

lemma build_entries_fit:
  assumes "\<forall>n \<in> set names. from_utf8 n \<noteq> None" "\<forall>r \<in> set row. ttl_fits r" "length row = length names"
    and "e \<in> set (build_entries key names row)"
  shows "from_utf8 (le_pool e) \<noteq> None \<and> (\<exists>t. to_i64 (le_t e) = Inr t)"
proof -
  obtain j where j: "j < length names" "e = make_entry key (names ! j) (row ! j)"
    using assms(3,4) by (auto simp: build_entries_def)
  have "names ! j \<in> set names" "row ! j \<in> set row"
    using j(1) assms(3) by simp_all
  then have "from_utf8 (names ! j) \<noteq> None" "ttl_fits (row ! j)"
    using assms(1,2) by blast+
  then show ?thesis
    by (auto simp: j(2) make_entry_def Let_def ttl_fits_def parse_t_def to_i64_def split: sum.splits option.splits if_splits)
qed

lemma prefix_mode_lookup:
  assumes "prefix_mode lookup" "rt_mode rt = ''prefix''" "rt_stop rt = 0x3A" "0x3A \<notin> set prefix"
  shows "lookup rt (prefix @ 0x3A # rest) = (case rt_map rt prefix of Some fg \<Rightarrow> fg | None \<Rightarrow> rt_default rt)"
  using assms(1) [unfolded prefix_mode_def, rule_format, of rt prefix rest] assms(2-4) by simp

lemma mcp_config_routes_ok:
  fixes K :: "bytes \<rightharpoonup> 'p built_keyspace"
  assumes "worker_keyspaces bundle gw = Inr K"
  obtains routers where "mcp_config_routes regs bundle gw = Inr routers" "routes_as K routers"
proof -
  obtain rd wr where build: "build_routers regs K = Inr (rd, wr)"
    and rd: "rt_mode rd = ''prefix''" "rt_stop rd = 0x3A" "rt_mode wr = ''prefix''" "rt_stop wr = 0x3A"
      "rt_default rd = counting_fgen ''__unknown__'' ''read'' ''error'' UNKNOWN_KEYSPACE"
      "rt_default wr = counting_fgen ''__unknown__'' ''write'' ''error'' UNKNOWN_KEYSPACE"
    and maps: "\<And>p. p \<noteq> as_bytes ''__udf'' \<Longrightarrow> p \<noteq> as_bytes ''__mcgw'' \<Longrightarrow>
      rt_map rd p = map_option read_fgen (K p) \<and> rt_map wr p = map_option write_fgen (K p)"
    by (simp add: build_routers_def native_names_plain and_then_def Let_def)
  let ?routers = "\<lambda>c. case c of CMD_MG \<Rightarrow> rd | CMD_MS \<Rightarrow> wr | CMD_MD \<Rightarrow> wr"
  show ?thesis
  proof (rule that [of ?routers])
    show "mcp_config_routes regs bundle gw = Inr ?routers"
      using assms build by (simp add: mcp_config_routes_def attach_def and_then_def map_err_def)
    show "routes_as K ?routers"
      unfolding routes_as_def
    proof (intro allI impI)
      fix lookup :: "'p router \<Rightarrow> bytes \<Rightarrow> 'p fgen" and c prefix rest
      assume *: "prefix_mode lookup" "0x3A \<notin> set prefix" "prefix \<noteq> as_bytes ''__udf''" "prefix \<noteq> as_bytes ''__mcgw''"
      show "lookup (?routers c) (prefix @ 0x3A # rest) = keyspace_route K c prefix"
        using rd maps [OF *(3,4)] prefix_mode_lookup [OF *(1) rd(1,2) *(2)] prefix_mode_lookup [OF *(1) rd(3,4) *(2)]
        by (cases c) (simp_all add: keyspace_route_def split: option.split)
    qed
  qed
qed

lemma routes_asD:
  assumes "routes_as K routers" "prefix_mode lookup" "0x3A \<notin> set prefix"
    and "prefix \<noteq> as_bytes ''__udf''" "prefix \<noteq> as_bytes ''__mcgw''"
  shows "lookup (routers c) (prefix @ 0x3A # rest) = keyspace_route K c prefix"
  using assms(1) [unfolded routes_as_def, rule_format, OF assms(2-5)] .

lemma read_fgen_built:
  assumes "set (kc_read ks) \<subseteq> dom pools"
  shows "read_fgen (build_keyspace pools ks) =
    ReadRoute (map (\<lambda>n. the (pools n)) (kc_read ks)) (route_keyspace (build_keyspace pools ks))"
proof -
  have "map pools (kc_read ks) = map Some (map (\<lambda>n. the (pools n)) (kc_read ks))"
    using assms by (auto simp: domIff)
  then show ?thesis
    using handles_of_all by (simp add: read_fgen_def build_keyspace_def del: map_map)
qed

section \<open>Properties\<close>

text \<open>
  C1. From the configuration file to the client's reply: after any history of loads, when
  the configuration hook has built its bundle, every worker builds its routers from it,
  and a read of a key under a configured prefix whose merge is a built-in asks exactly the
  pools the keyspace names. The client gets a hit if any of them has the key, a miss if
  none has but one misses, an error only if all fail. The key has no \<open>#\<close>, the names of the
  pools are UTF-8 and the TTL flags of the responses fit in 64 bits: \<open>native.merge\<close> refuses
  other entries.
\<close>

theorem read_end_to_end:
  assumes "prefix_mode lookup" "loads fs (gateway_new, w0) = (gw, w1)"
    and "mcp_config_pools mcp True regs0 f gw w1 = (Inr (pools, cfg), gw', w')" "ks \<in> set (gc_keyspaces cfg)"
    and "safe_registries regs" "builtins regs = register registry_new"
    and "from_utf8 (kc_merge ks) = Some n" "n \<in> {''first-hit'', ''pool-preferred'', ''last-write-wins''}"
    and "0x23 \<notin> set (kc_prefix ks @ 0x3A # rest)" "length (kc_read ks) < 2 ^ 63 - 1"
    and "\<forall>name \<in> set (kc_read ks). from_utf8 name \<noteq> None"
    and "\<forall>r \<in> set (answers pools respond (kc_read ks)). ttl_fits r"
  shows "\<exists>routers r w''. mcp_config_routes regs (pools, cfg) worker = Inr routers \<and>
    run_route (lookup (routers CMD_MG) (kc_prefix ks @ 0x3A # rest)) regs respond (kc_prefix ks @ 0x3A # rest) w =
      (Inr (Some r), w'') \<and>
    reply_label r =
      (if any_status ''hit'' (answers pools respond (kc_read ks)) then ''hit''
       else if any_status ''miss'' (answers pools respond (kc_read ks)) then ''miss'' else ''error'')"
proof -
  let ?key = "kc_prefix ks @ 0x3A # rest" and ?row = "answers pools respond (kc_read ks)"
  let ?ks = "route_keyspace (build_keyspace pools ks)"
  obtain regs' where wf: "wf_config regs' cfg"
    using bundle_wf(1) [OF assms(2,3)] ..
  then have prefix: "0x3A \<notin> set (kc_prefix ks)" "kc_prefix ks \<noteq> as_bytes ''__udf''" "kc_prefix ks \<noteq> as_bytes ''__mcgw''"
    and names: "set (kc_read ks) \<subseteq> dom pools"
    using assms(4) pools_build_dom [OF mcp_config_pools_built(2) [OF assms(3)]]
    by (auto simp: wf_config_def wf_keyspace_def wf_pool_list_def)
  obtain K where K: "worker_keyspaces (pools, cfg) worker = Inr K"
      "dom K = kc_prefix ` set (gc_keyspaces cfg)"
      "\<forall>ks \<in> set (gc_keyspaces cfg). K (kc_prefix ks) = Some (build_keyspace pools ks)"
    by (rule worker_keyspaces_lookup [OF wf])
  obtain routers where routers: "mcp_config_routes regs (pools, cfg) worker = Inr routers" "routes_as K routers"
    by (rule mcp_config_routes_ok [OF K(1)])
  have run: "run_route (lookup (routers CMD_MG) ?key) regs respond ?key w =
      (case read_handler ?ks regs ?key ?row w of (Inl e, w) \<Rightarrow> (Inl e, w) | (Inr r, w) \<Rightarrow> (Inr (Some r), w))"
    unfolding routes_asD [OF routers(2) assms(1) prefix]
    by (simp add: keyspace_route_def K(3) [rule_format, OF assms(4)] read_fgen_built [OF names] run_route_def answers_def comp_def)
  have "\<exists>r w'. read_handler ?ks regs ?key ?row w = (Inr r, w') \<and>
    reply_label r = (if any_status ''hit'' ?row then ''hit'' else if any_status ''miss'' ?row then ''miss'' else ''error'')"
  proof (rule read_builtin [OF assms(5,6) _ assms(8,9)])
    show "\<forall>e \<in> set (build_entries ?key (ks_pool_names ?ks) ?row).
        from_utf8 (le_pool e) \<noteq> None \<and> (\<exists>t. to_i64 (le_t e) = Inr t)"
      using build_entries_fit [OF assms(11,12)] by (simp add: route_keyspace_def build_keyspace_def answers_def)
  qed (use assms(7,10) in \<open>simp_all add: route_keyspace_def build_keyspace_def answers_def\<close>)
  then obtain r w' where r: "read_handler ?ks regs ?key ?row w = (Inr r, w')"
    and label: "reply_label r = (if any_status ''hit'' ?row then ''hit'' else if any_status ''miss'' ?row then ''miss'' else ''error'')"
    by (elim exE conjE) (rule that)
  have "run_route (lookup (routers CMD_MG) ?key) regs respond ?key w = (Inr (Some r), w')"
    unfolding run r by simp
  then show ?thesis
    using routers(1) label by (intro exI conjI)
qed

theorem read_end_to_end_witness:
  "\<exists>pools gw' w' routers r w''. mcp_config_pools echo_mcp True builtin_registries
       (Inr (Inr (lua_of_config (small_config (as_bytes ''mc-a:11211''))))) gateway_new (world_new id) =
       (Inr (pools, small_config (as_bytes ''mc-a:11211'')), gw', w') \<and>
     mcp_config_routes builtin_registries (pools, small_config (as_bytes ''mc-a:11211'')) gateway_new = Inr routers \<and>
     run_route (scan_lookup (routers CMD_MG) (as_bytes ''user'' @ [0x3A, 0x31])) builtin_registries
       (\<lambda>_. last example_row) (as_bytes ''user'' @ [0x3A, 0x31]) (world_new id) = (Inr (Some r), w'') \<and>
     reply_label r = ''hit''"
proof -
  let ?cfg = "small_config (as_bytes ''mc-a:11211'')" and ?respond = "\<lambda>_ :: bytes list. last example_row"
  let ?ks = "hd (gc_keyspaces ?cfg)"
  obtain pools gw' w' where built: "mcp_config_pools echo_mcp True builtin_registries
      (Inr (Inr (lua_of_config ?cfg))) gateway_new (world_new id) = (Inr (pools, ?cfg), gw', w')"
    by (rule small_config_built)
  have ks: "?ks \<in> set (gc_keyspaces ?cfg)" "kc_prefix ?ks = as_bytes ''user''" "kc_read ?ks = [as_bytes ''a'']"
    "kc_merge ?ks = as_bytes ''first-hit''"
    by (simp_all add: small_config_def)
  have str: "from_utf8 (as_bytes ''first-hit'') = Some ''first-hit''" "from_utf8 (as_bytes ''a'') = Some ''a''"
    using from_utf8_as_bytes is_str_examples by blast+
  have row: "answers pools ?respond [as_bytes ''a''] = [last example_row]"
    by (simp add: answers_def)
  have hit: "any_status ''hit'' [last example_row]" "ttl_fits (last example_row)"
    by (simp_all add: any_status_def example_row_def classify_res_def ttl_fits_def parse_t_def to_i64_def)
  have load: "loads [] (gateway_new, world_new id) = (gateway_new, world_new id)"
    by simp
  have "builtins builtin_registries = register registry_new"
    by (simp add: builtin_registries_def registries_new_def)
  note run = read_end_to_end [OF scan_lookup_prefix_mode load built ks(1) safe_builtin_registries this,
      of "''first-hit''" "[0x31]" ?respond gateway_new "world_new id", unfolded ks, unfolded row]
  have "0x23 \<notin> set (as_bytes ''user'' @ [0x3A, 0x31])"
    by (simp add: as_bytes_def)
  with run str hit built show ?thesis
    by auto
qed

text \<open>
  C36. A prefix that is not configured and not reserved (\<open>__udf\<close>, \<open>__mcgw\<close>) gets one constant answer: whatever the key, the
  command and the backends, the reply is the unknown-keyspace error and the request is
  counted under the one label \<open>__unknown__\<close>, never under the prefix the client sent.
\<close>

theorem unknown_prefix_constant:
  assumes "prefix_mode lookup" "worker_keyspaces bundle worker = Inr K" "K prefix = None"
    and "0x3A \<notin> set prefix" "prefix \<noteq> as_bytes ''__udf''" "prefix \<noteq> as_bytes ''__mcgw''"
  shows "\<exists>routers. mcp_config_routes regs bundle worker = Inr routers \<and>
    run_route (lookup (routers c) (prefix @ 0x3A # rest)) regs respond (prefix @ 0x3A # rest) w =
      (Inr (Some (Text UNKNOWN_KEYSPACE)),
       native_observe (as_bytes ''__unknown__'') (as_bytes (if c = CMD_MG then ''read'' else ''write''))
         (as_bytes ''error'') None w)"
proof -
  obtain routers where routers: "mcp_config_routes regs bundle worker = Inr routers" "routes_as K routers"
    by (rule mcp_config_routes_ok [OF assms(2)])
  show ?thesis
    using routers(1) routes_asD [OF routers(2) assms(1,4-6), of c rest] assms(3)
    by (simp add: keyspace_route_def run_route_def counting_fgen_def)
qed

theorem unknown_prefix_constant_witness:
  "\<exists>routers. mcp_config_routes builtin_registries (Map.empty, \<lparr>gc_pools = [], gc_keyspaces = []\<rparr>) gateway_new =
       Inr (routers :: command \<Rightarrow> unit router) \<and>
     run_route (scan_lookup (routers CMD_MS) ([0x78] @ [0x3A])) builtin_registries (\<lambda>_. None) ([0x78] @ [0x3A]) (world_new id) =
       (Inr (Some (Text UNKNOWN_KEYSPACE)),
        native_observe (as_bytes ''__unknown__'') (as_bytes ''write'') (as_bytes ''error'') None (world_new id))"
proof -
  have "worker_keyspaces (Map.empty, \<lparr>gc_pools = [], gc_keyspaces = []\<rparr>) gateway_new =
      Inr (Map.empty :: bytes \<rightharpoonup> unit built_keyspace)"
    by (simp add: worker_keyspaces_def build_keyspaces_def use_config_def ok_or_def and_then_def)
  from unknown_prefix_constant [OF scan_lookup_prefix_mode this, of "[0x78]" builtin_registries CMD_MS "[]"
      "\<lambda>_. None" "world_new id"]
  show ?thesis
    by (simp add: as_bytes_def)
qed

end
