(* ===== verification/Operator_Render.thy ===== *)
theory Operator_Render
  imports Lua_Config "HOL-Library.Multiset"
begin

text \<open>
  The renderer of the Kubernetes operator, render.go: a snapshot of Pool and Keyspace
  objects becomes the tree of files the gateway reads, config.lua and one file per inline
  WASM module. Objects that would make the gateway reject the file are skipped with a
  warning.

  Go strings are bytes, ordered bytewise. Names are unique when a slice is sorted by them,
  so \<open>sort.Slice\<close> is \<open>sort_key\<close>. The second half of the definitions is Lua's side of the
  file: the tokens and table constructors that the literal is made of, and the value it
  denotes.
\<close>

section \<open>Definitions\<close>

subsection \<open>The snapshot\<close>

record pool_cr =
  pr_name :: bytes
  pr_addrs :: "bytes list"
  pr_hash :: bytes
  pr_dist :: bytes

record merge_spec =
  ms_name :: bytes
  ms_wasm :: bytes

record keyspace_cr =
  kr_name :: bytes
  kr_prefix :: bytes
  kr_read :: "bytes list"
  kr_write :: "bytes list"
  kr_write_policy :: bytes
  kr_merge :: "merge_spec option"

record snapshot =
  sn_pools :: "pool_cr list"
  sn_keyspaces :: "keyspace_cr list"

datatype warning_message =
    SharedName nat
  | EmptyName
  | NoAddrs
  | EmptyAddr nat
  | BadHash bytes
  | BadDist bytes
  | ModuleBadName bytes
  | ModuleIsBuiltin bytes
  | ModuleConflict bytes
  | EmptyPrefix
  | ColonInPrefix bytes
  | ReservedPrefix bytes
  | SharedPrefix bytes
  | ListEmpty string
  | ListEmptyName string nat
  | ListUnknownPool string nat bytes
  | ListTwice string bytes
  | BadWritePolicy bytes
  | UnresolvedMerge bytes

datatype cr_kind = PoolKind | KeyspaceKind

type_synonym render_warning = "cr_kind \<times> bytes \<times> warning_message"

definition ConfigFile :: bytes where "ConfigFile = as_bytes ''config.lua''"
definition UdfDir :: bytes where "UdfDir = as_bytes ''udf''"

definition builtinMerges :: "bytes list" where
  "builtinMerges = [as_bytes ''first-hit'', as_bytes ''last-write-wins'', as_bytes ''pool-preferred'']"
definition validHash :: "bytes list" where
  "validHash = [as_bytes ''xxhash'', as_bytes ''md5'', as_bytes ''crc32'']"
definition validDist :: "bytes list" where
  "validDist = [as_bytes ''ring_hash'', as_bytes ''jump_hash'']"
definition validWritePolicy :: "bytes list" where
  "validWritePolicy = [as_bytes ''all'', as_bytes ''first'']"

subsection \<open>Choosing what to render\<close>

definition dedupByName :: "cr_kind \<Rightarrow> 'a list \<Rightarrow> ('a \<Rightarrow> bytes) \<Rightarrow> 'a list \<times> render_warning list" where
  "dedupByName kind xs name =
     (let count = (\<lambda>n. count_list (map name xs) n);
          contested = sort (remdups (filter (\<lambda>n. 1 < count n) (map name xs)))
      in (filter (\<lambda>x. count (name x) = 1) xs, map (\<lambda>n. (kind, n, SharedName (count n))) contested))"

definition firstBad :: "bytes list \<Rightarrow> nat option" where
  "firstBad items = find (\<lambda>i. items ! i = []) [0..<length items]"

text \<open>The first of two checks that finds something.\<close>

definition first_some :: "'a option \<Rightarrow> 'a option \<Rightarrow> 'a option" where
  "first_some a b = (case a of Some x \<Rightarrow> Some x | None \<Rightarrow> b)"

definition pool_problem :: "pool_cr \<Rightarrow> warning_message option" where
  "pool_problem p =
     (if pr_name p = [] then Some EmptyName
      else if pr_addrs p = [] then Some NoAddrs
      else
        first_some (map_option EmptyAddr (firstBad (pr_addrs p)))
          (if pr_hash p \<noteq> [] \<and> pr_hash p \<notin> set validHash then Some (BadHash (pr_hash p))
           else if pr_dist p \<noteq> [] \<and> pr_dist p \<notin> set validDist then Some (BadDist (pr_dist p))
           else None))"

definition renderablePools :: "pool_cr list \<Rightarrow> pool_cr list \<times> render_warning list" where
  "renderablePools ps =
     (let sorted = sort_key pr_name ps
      in (filter (\<lambda>p. pool_problem p = None) sorted,
          List.map_filter (\<lambda>p. map_option (\<lambda>m. (PoolKind, pr_name p, m)) (pool_problem p)) sorted))"

definition safe_char :: "u8 \<Rightarrow> bool" where
  "safe_char c \<longleftrightarrow> 0x61 \<le> c \<and> c \<le> 0x7A \<or> 0x41 \<le> c \<and> c \<le> 0x5A \<or> 0x30 \<le> c \<and> c \<le> 0x39 \<or> c = 0x5F \<or> c = 0x2D"

definition safeModuleName :: "bytes \<Rightarrow> bool" where
  "safeModuleName name \<longleftrightarrow>
     (case name of [] \<Rightarrow> False | c # cs \<Rightarrow> list_all safe_char name \<and> c \<noteq> 0x5F \<and> c \<noteq> 0x2D)"

text \<open>One keyspace of the loop in \<open>collectModules\<close>, after the modules so far.\<close>

definition collect_one ::
  "keyspace_cr \<Rightarrow> (bytes, bytes) btree \<Rightarrow> (bytes, bytes) btree \<times> render_warning list" where
  "collect_one ks modules =
     (let warn = (\<lambda>m. [(KeyspaceKind, kr_name ks, m)]) in
      case kr_merge ks of
        None \<Rightarrow> (modules, [])
      | Some m \<Rightarrow>
          if ms_wasm m = [] then (modules, [])
          else if \<not> safeModuleName (ms_name m) then (modules, warn (ModuleBadName (ms_name m)))
          else if ms_name m \<in> set builtinMerges then (modules, warn (ModuleIsBuiltin (ms_name m)))
          else case bt_get modules (ms_name m) of
                 Some prev \<Rightarrow> (modules, if prev \<noteq> ms_wasm m then warn (ModuleConflict (ms_name m)) else [])
               | None \<Rightarrow> (bt_insert (ms_name m) (ms_wasm m) modules, []))"

fun collect_loop ::
  "keyspace_cr list \<Rightarrow> (bytes, bytes) btree \<Rightarrow> (bytes, bytes) btree \<times> render_warning list" where
  "collect_loop [] modules = (modules, [])"
| "collect_loop (ks # kss) modules =
     (let (modules, ws) = collect_one ks modules; (modules, ws') = collect_loop kss modules
      in (modules, ws @ ws'))"

definition collectModules :: "keyspace_cr list \<Rightarrow> (bytes, bytes) btree \<times> render_warning list" where
  "collectModules kss = collect_loop (sort_key kr_name kss) []"

fun pool_list_check :: "string \<Rightarrow> bytes list \<Rightarrow> nat \<Rightarrow> bytes list \<Rightarrow> bytes list \<Rightarrow> warning_message option" where
  "pool_list_check field poolNames i seen [] = None"
| "pool_list_check field poolNames i seen (name # names) =
     (if name = [] then Some (ListEmptyName field i)
      else if name \<notin> set poolNames then Some (ListUnknownPool field i name)
      else if name \<in> set seen then Some (ListTwice field name)
      else pool_list_check field poolNames (i + 1) (name # seen) names)"

definition checkPoolList :: "string \<Rightarrow> bytes list \<Rightarrow> bytes list \<Rightarrow> warning_message option" where
  "checkPoolList field names poolNames =
     (if names = [] then Some (ListEmpty field) else pool_list_check field poolNames 0 [] names)"

definition keyspace_problem ::
  "bytes list \<Rightarrow> (bytes, bytes) btree \<Rightarrow> bytes list \<Rightarrow> keyspace_cr \<Rightarrow> warning_message option" where
  "keyspace_problem poolNames modules seenPrefix ks =
     (if kr_prefix ks = [] then Some EmptyPrefix
      else if 0x3A \<in> set (kr_prefix ks) then Some (ColonInPrefix (kr_prefix ks))
      else if kr_prefix ks = as_bytes ''__udf'' \<or> kr_prefix ks = as_bytes ''__mcgw''
        then Some (ReservedPrefix (kr_prefix ks))
      else if kr_prefix ks \<in> set seenPrefix then Some (SharedPrefix (kr_prefix ks))
      else
        first_some (checkPoolList ''read'' (kr_read ks) poolNames)
       (first_some (checkPoolList ''write'' (kr_write ks) poolNames)
          (if kr_write_policy ks \<noteq> [] \<and> kr_write_policy ks \<notin> set validWritePolicy
           then Some (BadWritePolicy (kr_write_policy ks))
           else case kr_merge ks of
                  None \<Rightarrow> None
                | Some m \<Rightarrow>
                    if ms_name m \<notin> set builtinMerges \<and> bt_get modules (ms_name m) = None
                    then Some (UnresolvedMerge (ms_name m)) else None)))"

fun keyspace_loop ::
  "bytes list \<Rightarrow> (bytes, bytes) btree \<Rightarrow> bytes list \<Rightarrow> keyspace_cr list \<Rightarrow> keyspace_cr list \<times> render_warning list" where
  "keyspace_loop poolNames modules seenPrefix [] = ([], [])"
| "keyspace_loop poolNames modules seenPrefix (ks # kss) =
     (case keyspace_problem poolNames modules seenPrefix ks of
        Some m \<Rightarrow>
          (let (out, ws) = keyspace_loop poolNames modules seenPrefix kss
           in (out, (KeyspaceKind, kr_name ks, m) # ws))
      | None \<Rightarrow>
          (let (out, ws) = keyspace_loop poolNames modules (kr_prefix ks # seenPrefix) kss in (ks # out, ws)))"

definition renderableKeyspaces ::
  "keyspace_cr list \<Rightarrow> bytes list \<Rightarrow> (bytes, bytes) btree \<Rightarrow> keyspace_cr list \<times> render_warning list" where
  "renderableKeyspaces kss poolNames modules =
     (let (out, ws) = keyspace_loop poolNames modules [] (sort_key kr_name kss)
      in (sort_key kr_prefix out, ws))"

subsection \<open>The text of config.lua\<close>

definition dec3 :: "u8 \<Rightarrow> bytes" where
  "dec3 c = (let n = unat c in [of_nat (48 + n div 100), of_nat (48 + n div 10 mod 10), of_nat (48 + n mod 10)])"

definition quote_char :: "u8 \<Rightarrow> bytes" where
  "quote_char c =
     (if c = 0x22 then [0x5C, 0x22]
      else if c = 0x5C then [0x5C, 0x5C]
      else if 0x20 \<le> c \<and> c < 0x7F then [c]
      else 0x5C # dec3 c)"

definition luaQuote :: "bytes \<Rightarrow> bytes" where
  "luaQuote s = 0x22 # concat (map quote_char s) @ [0x22]"

fun join_with :: "bytes \<Rightarrow> bytes list \<Rightarrow> bytes" where
  "join_with sep [] = []"
| "join_with sep [x] = x"
| "join_with sep (x # xs) = x @ sep @ join_with sep xs"

definition luaQuoteList :: "bytes list \<Rightarrow> bytes" where
  "luaQuoteList items = join_with (as_bytes '', '') (map luaQuote items)"

definition NL :: bytes where "NL = [0x0A]"

definition render_pool :: "pool_cr \<Rightarrow> bytes" where
  "render_pool p =
     as_bytes ''        { name = '' @ luaQuote (pr_name p) @ as_bytes '', addrs = { '' @ luaQuoteList (pr_addrs p) @ as_bytes '' }'' @
     (if pr_hash p \<noteq> [] then as_bytes '', hash = '' @ luaQuote (pr_hash p) else []) @
     (if pr_dist p \<noteq> [] then as_bytes '', dist = '' @ luaQuote (pr_dist p) else []) @
     as_bytes '' },'' @ NL"

definition render_keyspace :: "keyspace_cr \<Rightarrow> bytes" where
  "render_keyspace ks =
     as_bytes ''        { prefix = '' @ luaQuote (kr_prefix ks) @ as_bytes '','' @ NL @
     as_bytes ''          read = { '' @ luaQuoteList (kr_read ks) @ as_bytes '' },'' @ NL @
     as_bytes ''          write = { '' @ luaQuoteList (kr_write ks) @ as_bytes '' }'' @
     (if kr_write_policy ks \<noteq> [] then as_bytes '','' @ NL @ as_bytes ''          write_policy = '' @ luaQuote (kr_write_policy ks) else []) @
     (case kr_merge ks of None \<Rightarrow> [] | Some m \<Rightarrow> as_bytes '','' @ NL @ as_bytes ''          merge = '' @ luaQuote (ms_name m)) @
     as_bytes '' },'' @ NL"

definition renderConfig :: "pool_cr list \<Rightarrow> keyspace_cr list \<Rightarrow> bytes" where
  "renderConfig pools keyspaces =
     as_bytes ''return {'' @ NL @
     as_bytes ''    pools = {'' @ NL @ concat (map render_pool pools) @ as_bytes ''    },'' @ NL @
     as_bytes ''    keyspaces = {'' @ NL @ concat (map render_keyspace keyspaces) @ as_bytes ''    },'' @ NL @
     as_bytes ''}'' @ NL"

definition module_path :: "bytes \<Rightarrow> bytes" where
  "module_path name = UdfDir @ as_bytes ''/'' @ name @ as_bytes ''.wasm''"

definition Render :: "snapshot \<Rightarrow> (bytes, bytes) btree \<times> render_warning list" where
  "Render s =
     (let (ps, w1) = dedupByName PoolKind (sn_pools s) pr_name;
          (pools, w2) = renderablePools ps;
          (kss, w3) = dedupByName KeyspaceKind (sn_keyspaces s) kr_name;
          (modules, w4) = collectModules kss;
          (rendered, w5) = renderableKeyspaces kss (map pr_name pools) modules;
          files = bt_insert ConfigFile (renderConfig pools rendered) []
      in (fold (\<lambda>(name, wasm). bt_insert (module_path name) wasm) modules files, w1 @ w2 @ w3 @ w4 @ w5))"

subsection \<open>Reading the literal\<close>

text \<open>The tokens of Lua that the literal is made of.\<close>

datatype lua_token = TName bytes | TString bytes | TOpen | TClose | TEqual | TComma

definition name_char :: "u8 \<Rightarrow> bool" where
  "name_char c \<longleftrightarrow> 0x61 \<le> c \<and> c \<le> 0x7A \<or> 0x41 \<le> c \<and> c \<le> 0x5A \<or> 0x30 \<le> c \<and> c \<le> 0x39 \<or> c = 0x5F"

text \<open>
  An escape after its backslash: the byte it stands for and how many bytes it takes. The
  subset has the quoted characters and three decimal digits.
\<close>

definition decimal_escape :: "u8 \<Rightarrow> u8 \<Rightarrow> u8 \<Rightarrow> u8 option" where
  "decimal_escape a b c =
     (case (digit a, digit b, digit c) of
        (Some x, Some y, Some z) \<Rightarrow>
          if 100 * x + 10 * y + z \<le> 255 then Some (of_int (100 * x + 10 * y + z)) else None
      | _ \<Rightarrow> None)"

fun unescape :: "bytes \<Rightarrow> (u8 \<times> nat) option" where
  "unescape [] = None"
| "unescape (a # cs) =
     (if a = 0x22 \<or> a = 0x5C then Some (a, 1)
      else case cs of
             b # c # _ \<Rightarrow> map_option (\<lambda>e. (e, 3)) (decimal_escape a b c)
           | _ \<Rightarrow> None)"

text \<open>A string literal after its opening quote: its value and what follows.\<close>

function lex_string :: "bytes \<Rightarrow> (bytes \<times> bytes) option" where
  "lex_string [] = None"
| "lex_string (c # cs) =
     (if c = 0x22 then Some ([], cs)
      else if c = 0x0A then None
      else if c = 0x5C then
        (case unescape cs of
           None \<Rightarrow> None
         | Some (e, n) \<Rightarrow> map_option (\<lambda>(s, r). (e # s, r)) (lex_string (drop n cs)))
      else map_option (\<lambda>(s, r). (c # s, r)) (lex_string cs))"
  by pat_completeness auto
termination
  by (relation "measure length") auto

lemma lex_string_shorter: "lex_string bs = Some (s, r) \<Longrightarrow> length r < length bs"
proof (induction bs arbitrary: s rule: lex_string.induct)
  case (2 c cs)
  consider "c = 0x22" "r = cs" | e n s' where "unescape cs = Some (e, n)" "c = 0x5C" "lex_string (drop n cs) = Some (s', r)"
    | s' where "c \<noteq> 0x22" "c \<noteq> 0x0A" "c \<noteq> 0x5C" "lex_string cs = Some (s', r)"
    using "2.prems" by (auto split: if_splits option.splits prod.splits)
  then show ?case
  proof cases
    case (2 e n s')
    then have "length r < length (drop n cs)"
      using "2.IH"(1) [of "(e, n)" e n s'] by simp
    then show ?thesis by simp
  next
    case (3 s')
    then show ?thesis
      using "2.IH"(2) by (simp add: less_SucI)
  qed simp
qed simp

text \<open>The tokens of a chunk; \<open>None\<close> for a character outside the subset.\<close>

function lua_lex :: "bytes \<Rightarrow> lua_token list option" where
  "lua_lex [] = Some []"
| "lua_lex (c # cs) =
     (if c = 0x20 \<or> c = 0x0A then lua_lex cs
      else if c = 0x7B then map_option ((#) TOpen) (lua_lex cs)
      else if c = 0x7D then map_option ((#) TClose) (lua_lex cs)
      else if c = 0x3D then map_option ((#) TEqual) (lua_lex cs)
      else if c = 0x2C then map_option ((#) TComma) (lua_lex cs)
      else if c = 0x22 then
        (case lex_string cs of None \<Rightarrow> None | Some (s, r) \<Rightarrow> map_option ((#) (TString s)) (lua_lex r))
      else if name_char c then
        map_option ((#) (TName (c # takeWhile name_char cs))) (lua_lex (dropWhile name_char cs))
      else None)"
  by pat_completeness auto
termination
  by (relation "measure length") (auto dest: lex_string_shorter simp: le_imp_less_Suc length_dropWhile_le)

text \<open>
  A table constructor, read with a stack of open tables. A frame has the values so far in
  reverse, the fields so far in reverse, the key of the field under way and whether a
  separator must come next.
\<close>

record frame =
  fr_seq :: "lua list"
  fr_fields :: "(bytes \<times> lua) list"
  fr_key :: "bytes option"
  fr_sep :: bool

definition frame_new :: frame where
  "frame_new = \<lparr>fr_seq = [], fr_fields = [], fr_key = None, fr_sep = False\<rparr>"

definition add_value :: "lua \<Rightarrow> frame \<Rightarrow> frame" where
  "add_value v fr =
     (case fr_key fr of
        None \<Rightarrow> fr\<lparr>fr_seq := v # fr_seq fr, fr_sep := True\<rparr>
      | Some k \<Rightarrow> fr\<lparr>fr_fields := (k, v) # fr_fields fr, fr_key := None, fr_sep := True\<rparr>)"

definition frame_value :: "frame \<Rightarrow> lua" where
  "frame_value fr = LTable (rev (fr_seq fr)) (rev (fr_fields fr))"

fun read_table :: "frame list \<Rightarrow> lua_token list \<Rightarrow> lua option" where
  "read_table (fr # st) (TOpen # ts) = (if fr_sep fr then None else read_table (frame_new # fr # st) ts)"
| "read_table (fr # st) (TString s # ts) = (if fr_sep fr then None else read_table (add_value (LStr s) fr # st) ts)"
| "read_table (fr # st) (TName k # TEqual # ts) =
     (if fr_sep fr \<or> fr_key fr \<noteq> None then None else read_table (fr\<lparr>fr_key := Some k\<rparr> # st) ts)"
| "read_table (fr # st) (TComma # ts) =
     (if \<not> fr_sep fr then None else read_table (fr\<lparr>fr_sep := False\<rparr> # st) ts)"
| "read_table [fr] (TClose # ts) = (if fr_key fr \<noteq> None \<or> ts \<noteq> [] then None else Some (frame_value fr))"
| "read_table (fr # fr' # st) (TClose # ts) =
     (if fr_key fr \<noteq> None then None else read_table (add_value (frame_value fr) fr' # st) ts)"
| "read_table st ts = None"

definition lua_chunk :: "bytes \<Rightarrow> lua option" where
  "lua_chunk bs =
     (case lua_lex bs of
        Some (TName n # TOpen # ts) \<Rightarrow> if n = as_bytes ''return'' then read_table [frame_new] ts else None
      | _ \<Rightarrow> None)"

subsection \<open>What the literal should denote\<close>

definition opt_str :: "string \<Rightarrow> bytes \<Rightarrow> (bytes \<times> lua) list" where
  "opt_str k v = (if v = [] then [] else [(as_bytes k, LStr v)])"

definition pool_value :: "pool_cr \<Rightarrow> lua" where
  "pool_value p = LTable []
     ([(as_bytes ''name'', LStr (pr_name p)), (as_bytes ''addrs'', lua_strings (pr_addrs p))] @
      opt_str ''hash'' (pr_hash p) @ opt_str ''dist'' (pr_dist p))"

definition keyspace_value :: "keyspace_cr \<Rightarrow> lua" where
  "keyspace_value ks = LTable []
     ([(as_bytes ''prefix'', LStr (kr_prefix ks)), (as_bytes ''read'', lua_strings (kr_read ks)),
       (as_bytes ''write'', lua_strings (kr_write ks))] @
      opt_str ''write_policy'' (kr_write_policy ks) @
      (case kr_merge ks of None \<Rightarrow> [] | Some m \<Rightarrow> [(as_bytes ''merge'', LStr (ms_name m))]))"

definition config_value :: "pool_cr list \<Rightarrow> keyspace_cr list \<Rightarrow> lua" where
  "config_value pools kss = LTable []
     [(as_bytes ''pools'', LTable (map pool_value pools) []),
      (as_bytes ''keyspaces'', LTable (map keyspace_value kss) [])]"

text \<open>The configuration the gateway should hold.\<close>

definition nonempty :: "bytes \<Rightarrow> bytes option" where
  "nonempty b = (if b = [] then None else Some b)"

definition cfg_pool :: "pool_cr \<Rightarrow> pool_cfg" where
  "cfg_pool p = \<lparr>pc_name = pr_name p, pc_addrs = pr_addrs p, pc_hash = nonempty (pr_hash p), pc_dist = nonempty (pr_dist p)\<rparr>"

definition cr_merge :: "keyspace_cr \<Rightarrow> bytes" where
  "cr_merge ks = (case kr_merge ks of None \<Rightarrow> DEFAULT_MERGE | Some m \<Rightarrow> ms_name m)"

definition merge_flags_of :: "world registries \<Rightarrow> bytes \<Rightarrow> string" where
  "merge_flags_of regs merge = (case native_required_flags regs merge of Inr flags \<Rightarrow> flags | Inl e \<Rightarrow> '''')"

definition cfg_keyspace :: "world registries \<Rightarrow> keyspace_cr \<Rightarrow> keyspace_cfg" where
  "cfg_keyspace regs ks =
     \<lparr>kc_prefix = kr_prefix ks, kc_read = kr_read ks, kc_write = kr_write ks,
      kc_write_policy = (case nonempty (kr_write_policy ks) of None \<Rightarrow> DEFAULT_WRITE_POLICY | Some p \<Rightarrow> p),
      kc_merge = cr_merge ks, kc_required_flags = merge_flags_of regs (cr_merge ks)\<rparr>"

text \<open>The objects of a snapshot that are rendered, and the modules.\<close>

definition rendered_pools :: "snapshot \<Rightarrow> pool_cr list" where
  "rendered_pools s = fst (renderablePools (fst (dedupByName PoolKind (sn_pools s) pr_name)))"

definition rendered_modules :: "snapshot \<Rightarrow> (bytes, bytes) btree" where
  "rendered_modules s = fst (collectModules (fst (dedupByName KeyspaceKind (sn_keyspaces s) kr_name)))"

definition rendered_keyspaces :: "snapshot \<Rightarrow> keyspace_cr list" where
  "rendered_keyspaces s =
     fst (renderableKeyspaces (fst (dedupByName KeyspaceKind (sn_keyspaces s) kr_name))
       (map pr_name (rendered_pools s)) (rendered_modules s))"

text \<open>The gateway has loaded every rendered module, and has its built-ins.\<close>

definition merges_resolve :: "world registries \<Rightarrow> (bytes, bytes) btree \<Rightarrow> bool" where
  "merges_resolve regs modules \<longleftrightarrow>
     (\<forall>n. n \<in> set builtinMerges \<or> bt_get modules n \<noteq> None \<longrightarrow> (\<exists>flags. native_required_flags regs n = Inr flags))"

text \<open>A snapshot of one pool and two keyspaces that want the same prefix.\<close>

definition sample_snapshot :: snapshot where
  "sample_snapshot =
     \<lparr>sn_pools = [\<lparr>pr_name = as_bytes ''mc-a'', pr_addrs = [as_bytes ''mc-a:11211''], pr_hash = [], pr_dist = []\<rparr>],
      sn_keyspaces =
        [\<lparr>kr_name = as_bytes ''b'', kr_prefix = as_bytes ''user'', kr_read = [as_bytes ''mc-a''],
          kr_write = [as_bytes ''mc-a''], kr_write_policy = [], kr_merge = None\<rparr>,
         \<lparr>kr_name = as_bytes ''a'', kr_prefix = as_bytes ''user'', kr_read = [as_bytes ''mc-a''],
          kr_write = [as_bytes ''mc-a''], kr_write_policy = as_bytes ''first'', kr_merge = None\<rparr>]\<rparr>"

section \<open>Lemmas\<close>

subsection \<open>Lexing what the renderer writes\<close>

lemma digit_of_nat:
  assumes "n < 10"
  shows "digit (of_nat (48 + n)) = Some (int n)"
proof -
  have "n \<in> {0, 1, 2, 3, 4, 5, 6, 7, 8, 9}"
    using assms by auto
  then show ?thesis
    by (auto simp: digit_def)
qed

lemma decimal_escape_of_nat:
  assumes "x < 10" "y < 10" "z < 10" "100 * x + 10 * y + z = unat (c :: u8)"
  shows "decimal_escape (of_nat (48 + x)) (of_nat (48 + y)) (of_nat (48 + z)) = Some c"
proof -
  have "100 * int x + 10 * int y + int z = int (unat c)"
    unfolding assms(4) [symmetric] by simp
  moreover have "unat c \<le> 255"
    using unat_u8_bound [of c] by simp
  then have "int (unat c) \<le> 255"
    by linarith
  moreover have "of_int (int (unat c)) = c"
    by simp
  ultimately show ?thesis
    unfolding decimal_escape_def digit_of_nat [OF assms(1)] digit_of_nat [OF assms(2)] digit_of_nat [OF assms(3)]
    by (simp only: prod.case option.case if_True)
qed

lemma dec3_digits: "100 * (n div 100) + 10 * (n div 10 mod 10) + n mod 10 = (n :: nat)"
proof -
  have "n div 100 = n div 10 div 10"
    by (simp flip: div_mult2_eq)
  moreover have "10 * (n div 10 div 10) + n div 10 mod 10 = n div 10" "10 * (n div 10) + n mod 10 = n"
    by simp_all
  ultimately show ?thesis
    by linarith
qed

lemma decimal_escape_dec3:
  assumes "dec3 c = [a, b, d]"
  shows "decimal_escape a b d = Some c"
proof -
  have "unat c div 100 < 10"
    using unat_u8_bound [of c] by (simp add: less_mult_imp_div_less)
  then have "decimal_escape (of_nat (48 + unat c div 100)) (of_nat (48 + unat c div 10 mod 10)) (of_nat (48 + unat c mod 10)) = Some c"
    by (rule decimal_escape_of_nat) (simp_all add: dec3_digits)
  moreover have "a = of_nat (48 + unat c div 100)" "b = of_nat (48 + unat c div 10 mod 10)" "d = of_nat (48 + unat c mod 10)"
    using assms unfolding dec3_def Let_def by (simp_all only: list.inject)
  ultimately show ?thesis
    by simp
qed

lemma dec3_not_quote:
  assumes "dec3 c = [a, b, d]"
  shows "a \<noteq> 0x22" "a \<noteq> 0x5C"
  using decimal_escape_dec3 [OF assms] by (auto simp: decimal_escape_def digit_def)

lemma lex_string_quote: "lex_string (concat (map quote_char s) @ 0x22 # rest) = Some (s, rest)"
proof (induction s)
  case (Cons c s)
  obtain a b d where dec: "dec3 c = [a, b, d]"
    by (simp add: dec3_def Let_def)
  consider "c = 0x22" | "c = 0x5C" | "c \<noteq> 0x22" "c \<noteq> 0x5C" "0x20 \<le> c" "c < 0x7F"
    | "c \<noteq> 0x22" "c \<noteq> 0x5C" "\<not> (0x20 \<le> c \<and> c < 0x7F)"
    by blast
  then show ?case
  proof cases
    case 3
    then have "c \<noteq> 0x0A" by auto
    with 3 Cons show ?thesis by (simp add: quote_char_def)
  next
    case 4
    with Cons dec dec3_not_quote [OF dec] decimal_escape_dec3 [OF dec] show ?thesis
      by (auto simp: quote_char_def)
  qed (use Cons in \<open>simp_all add: quote_char_def\<close>)
qed simp

text \<open>A piece of text whose tokens do not depend on what follows.\<close>

definition lexes :: "bytes \<Rightarrow> lua_token list \<Rightarrow> bool" where
  "lexes bs ts \<longleftrightarrow> (\<forall>rest. lua_lex (bs @ rest) = map_option (\<lambda>r. ts @ r) (lua_lex rest))"

lemma lexes_append: "lexes a ta \<Longrightarrow> lexes b tb \<Longrightarrow> lexes (a @ b) (ta @ tb)"
  by (simp add: lexes_def option.map_comp comp_def)

lemma lexes_Nil: "lexes [] []"
  by (simp add: lexes_def option.map_ident)

lemma lexes_concat: "(\<And>x. lexes (f x) (g x)) \<Longrightarrow> lexes (concat (map f xs)) (concat (map g xs))"
  by (induction xs) (auto intro: lexes_append lexes_Nil)

lemma lexes_quote: "lexes (luaQuote s) [TString s]"
  by (simp add: lexes_def luaQuote_def lex_string_quote cong: map_option_cong)

lemma lexes_NL: "lexes NL []"
  by (simp add: lexes_def NL_def option.map_ident)

lemma lexes_join:
  "lexes sep ts \<Longrightarrow> (\<And>x. lexes (f x) (g x)) \<Longrightarrow>
   lexes (join_with sep (map f xs)) (if xs = [] then [] else g (hd xs) @ concat (map (\<lambda>x. ts @ g x) (tl xs)))"
proof (induction xs rule: induct_list012)
  case (3 x y xs)
  have "lexes (f x @ sep @ join_with sep (map f (y # xs))) (g x @ ts @ g y @ concat (map (\<lambda>x. ts @ g x) xs))"
    using 3 by (intro lexes_append) simp_all
  then show ?case by simp
qed (auto intro: lexes_Nil)

lemma lexes_const:
  "lexes (as_bytes '', '') [TComma]"
  "lexes (as_bytes '','') [TComma]"
  "lexes (as_bytes ''        { name = '') [TOpen, TName (as_bytes ''name''), TEqual]"
  "lexes (as_bytes '', addrs = { '') [TComma, TName (as_bytes ''addrs''), TEqual, TOpen]"
  "lexes (as_bytes '' }'') [TClose]"
  "lexes (as_bytes '' },'') [TClose, TComma]"
  "lexes (as_bytes '', hash = '') [TComma, TName (as_bytes ''hash''), TEqual]"
  "lexes (as_bytes '', dist = '') [TComma, TName (as_bytes ''dist''), TEqual]"
  "lexes (as_bytes ''        { prefix = '') [TOpen, TName (as_bytes ''prefix''), TEqual]"
  "lexes (as_bytes ''          read = { '') [TName (as_bytes ''read''), TEqual, TOpen]"
  "lexes (as_bytes ''          write = { '') [TName (as_bytes ''write''), TEqual, TOpen]"
  "lexes (as_bytes ''          write_policy = '') [TName (as_bytes ''write_policy''), TEqual]"
  "lexes (as_bytes ''          merge = '') [TName (as_bytes ''merge''), TEqual]"
  "lexes (as_bytes ''return {'') [TName (as_bytes ''return''), TOpen]"
  "lexes (as_bytes ''    pools = {'') [TName (as_bytes ''pools''), TEqual, TOpen]"
  "lexes (as_bytes ''    keyspaces = {'') [TName (as_bytes ''keyspaces''), TEqual, TOpen]"
  "lexes (as_bytes ''    },'') [TClose, TComma]"
  "lexes (as_bytes ''}'') [TClose]"
  by (simp_all add: lexes_def as_bytes_def name_char_def option.map_comp comp_def)

subsection \<open>The tokens of the literal\<close>

definition str_tokens :: "bytes list \<Rightarrow> lua_token list" where
  "str_tokens xs = (if xs = [] then [] else TString (hd xs) # concat (map (\<lambda>x. [TComma, TString x]) (tl xs)))"

definition opt_tokens :: "string \<Rightarrow> bytes \<Rightarrow> lua_token list" where
  "opt_tokens k v = (if v = [] then [] else [TComma, TName (as_bytes k), TEqual, TString v])"

definition pool_tokens :: "pool_cr \<Rightarrow> lua_token list" where
  "pool_tokens p =
     [TOpen, TName (as_bytes ''name''), TEqual, TString (pr_name p), TComma, TName (as_bytes ''addrs''), TEqual, TOpen] @
     str_tokens (pr_addrs p) @ [TClose] @ opt_tokens ''hash'' (pr_hash p) @ opt_tokens ''dist'' (pr_dist p) @
     [TClose, TComma]"

definition keyspace_tokens :: "keyspace_cr \<Rightarrow> lua_token list" where
  "keyspace_tokens ks =
     [TOpen, TName (as_bytes ''prefix''), TEqual, TString (kr_prefix ks), TComma, TName (as_bytes ''read''), TEqual, TOpen] @
     str_tokens (kr_read ks) @ [TClose, TComma, TName (as_bytes ''write''), TEqual, TOpen] @
     str_tokens (kr_write ks) @ [TClose] @ opt_tokens ''write_policy'' (kr_write_policy ks) @
     (case kr_merge ks of None \<Rightarrow> [] | Some m \<Rightarrow> [TComma, TName (as_bytes ''merge''), TEqual, TString (ms_name m)]) @
     [TClose, TComma]"

lemma lexes_quote_list: "lexes (luaQuoteList xs) (str_tokens xs)"
  using lexes_join [OF lexes_const(1), of luaQuote "\<lambda>x. [TString x]" xs] lexes_quote
  by (simp add: luaQuoteList_def str_tokens_def split: if_splits)

lemma lexes_if: "(b \<Longrightarrow> lexes x tx) \<Longrightarrow> (\<not> b \<Longrightarrow> lexes y ty) \<Longrightarrow> lexes (if b then x else y) (if b then tx else ty)"
  by simp

lemma lexes_pool: "lexes (render_pool p) (pool_tokens p)"
proof -
  have opt: "lexes (if v \<noteq> [] then pre @ luaQuote v else []) (opt_tokens k v)"
    if "lexes pre [TComma, TName (as_bytes k), TEqual]" for pre k v
    using lexes_append [OF that lexes_quote, of v] lexes_Nil by (simp add: opt_tokens_def)
  have "lexes (render_pool p)
    ([TOpen, TName (as_bytes ''name''), TEqual] @ [TString (pr_name p)] @
     [TComma, TName (as_bytes ''addrs''), TEqual, TOpen] @ str_tokens (pr_addrs p) @ [TClose] @
     opt_tokens ''hash'' (pr_hash p) @ opt_tokens ''dist'' (pr_dist p) @ [TClose, TComma] @ [])"
    unfolding render_pool_def
    by (intro lexes_append lexes_const lexes_quote lexes_quote_list lexes_NL opt)
  then show ?thesis
    by (simp add: pool_tokens_def)
qed

lemma lexes_keyspace: "lexes (render_keyspace ks) (keyspace_tokens ks)"
proof -
  have policy: "lexes (if v \<noteq> [] then as_bytes '','' @ NL @ as_bytes ''          write_policy = '' @ luaQuote v else [])
      (opt_tokens ''write_policy'' v)" for v
    using lexes_append [OF lexes_const(2) lexes_append [OF lexes_NL lexes_append [OF lexes_const(12) lexes_quote]], of v] lexes_Nil
    by (simp add: opt_tokens_def)
  have merge: "lexes (case kr_merge ks of None \<Rightarrow> [] | Some m \<Rightarrow> as_bytes '','' @ NL @ as_bytes ''          merge = '' @ luaQuote (ms_name m))
      (case kr_merge ks of None \<Rightarrow> [] | Some m \<Rightarrow> [TComma, TName (as_bytes ''merge''), TEqual, TString (ms_name m)])"
    using lexes_append [OF lexes_const(2) lexes_append [OF lexes_NL lexes_append [OF lexes_const(13) lexes_quote]]] lexes_Nil
    by (simp split: option.split)
  have "lexes (render_keyspace ks)
    ([TOpen, TName (as_bytes ''prefix''), TEqual] @ [TString (kr_prefix ks)] @ [TComma] @ [] @
     [TName (as_bytes ''read''), TEqual, TOpen] @ str_tokens (kr_read ks) @ [TClose, TComma] @ [] @
     [TName (as_bytes ''write''), TEqual, TOpen] @ str_tokens (kr_write ks) @ [TClose] @
     opt_tokens ''write_policy'' (kr_write_policy ks) @
     (case kr_merge ks of None \<Rightarrow> [] | Some m \<Rightarrow> [TComma, TName (as_bytes ''merge''), TEqual, TString (ms_name m)]) @
     [TClose, TComma] @ [])"
    unfolding render_keyspace_def
    by (intro lexes_append lexes_const lexes_quote lexes_quote_list lexes_NL policy merge)
  then show ?thesis
    by (simp add: keyspace_tokens_def)
qed

lemma lex_config:
  "lua_lex (renderConfig pools kss) =
   Some (TName (as_bytes ''return'') # TOpen # TName (as_bytes ''pools'') # TEqual # TOpen #
     concat (map pool_tokens pools) @ [TClose, TComma, TName (as_bytes ''keyspaces''), TEqual, TOpen] @
     concat (map keyspace_tokens kss) @ [TClose, TComma, TClose])"
proof -
  have "lexes (renderConfig pools kss)
    ([TName (as_bytes ''return''), TOpen] @ [] @ [TName (as_bytes ''pools''), TEqual, TOpen] @ [] @
     concat (map pool_tokens pools) @ [TClose, TComma] @ [] @
     [TName (as_bytes ''keyspaces''), TEqual, TOpen] @ [] @ concat (map keyspace_tokens kss) @ [TClose, TComma] @ [] @
     [TClose] @ [])"
    unfolding renderConfig_def
    by (intro lexes_append lexes_const lexes_NL lexes_concat lexes_pool lexes_keyspace)
  then have "lua_lex (renderConfig pools kss @ []) = Some (TName (as_bytes ''return'') # TOpen # TName (as_bytes ''pools'') # TEqual # TOpen #
     concat (map pool_tokens pools) @ [TClose, TComma, TName (as_bytes ''keyspaces''), TEqual, TOpen] @
     concat (map keyspace_tokens kss) @ [TClose, TComma, TClose])"
    unfolding lexes_def by (simp only: append.simps append_Nil append_assoc) simp
  then show ?thesis
    by simp
qed

subsection \<open>Reading the tokens\<close>

lemma read_more_strings:
  "fr_sep fr \<Longrightarrow> fr_key fr = None \<Longrightarrow>
   read_table (fr # st) (concat (map (\<lambda>x. [TComma, TString x]) xs) @ ts) =
     read_table (fr\<lparr>fr_seq := rev (map LStr xs) @ fr_seq fr\<rparr> # st) ts"
proof (induction xs arbitrary: fr)
  case (Cons x xs)
  then show ?case
    by (cases fr) (simp add: add_value_def)
qed simp

lemma read_strings:
  "read_table (\<lparr>fr_seq = [], fr_fields = [], fr_key = None, fr_sep = False\<rparr> # fr # st) (str_tokens xs @ TClose # ts) =
   read_table (add_value (lua_strings xs) fr # st) ts"
proof (cases xs)
  case (Cons y ys)
  then show ?thesis
    using read_more_strings [of "add_value (LStr y) frame_new" "fr # st" ys "TClose # ts"]
    by (simp add: str_tokens_def add_value_def frame_new_def frame_value_def lua_strings_def)
qed (simp add: str_tokens_def frame_value_def lua_strings_def)

lemma read_opt:
  assumes "fr_sep fr" "fr_key fr = None"
  shows "read_table (fr # st) (opt_tokens k v @ ts) =
    read_table (fr\<lparr>fr_fields := rev (opt_str k v) @ fr_fields fr\<rparr> # st) ts"
  using assms by (cases fr) (simp add: opt_tokens_def opt_str_def add_value_def)

lemma read_pool:
  assumes "\<not> fr_sep fr" "fr_key fr = None"
  shows "read_table (fr # st) (pool_tokens p @ ts) = read_table (fr\<lparr>fr_seq := pool_value p # fr_seq fr\<rparr> # st) ts"
  using assms
  by (cases fr) (simp add: pool_tokens_def frame_new_def read_strings read_opt add_value_def frame_value_def pool_value_def)

lemma read_keyspace:
  assumes "\<not> fr_sep fr" "fr_key fr = None"
  shows "read_table (fr # st) (keyspace_tokens ks @ ts) =
    read_table (fr\<lparr>fr_seq := keyspace_value ks # fr_seq fr\<rparr> # st) ts"
  using assms
  by (cases fr) (simp add: keyspace_tokens_def frame_new_def read_strings read_opt add_value_def frame_value_def keyspace_value_def
      split: option.split)

lemma read_pools:
  "\<not> fr_sep fr \<Longrightarrow> fr_key fr = None \<Longrightarrow>
   read_table (fr # st) (concat (map pool_tokens ps) @ ts) =
     read_table (fr\<lparr>fr_seq := rev (map pool_value ps) @ fr_seq fr\<rparr> # st) ts"
  by (induction ps arbitrary: fr) (simp_all add: read_pool)

lemma read_keyspaces:
  "\<not> fr_sep fr \<Longrightarrow> fr_key fr = None \<Longrightarrow>
   read_table (fr # st) (concat (map keyspace_tokens kss) @ ts) =
     read_table (fr\<lparr>fr_seq := rev (map keyspace_value kss) @ fr_seq fr\<rparr> # st) ts"
  by (induction kss arbitrary: fr) (simp_all add: read_keyspace)

lemma lua_chunk_config: "lua_chunk (renderConfig pools kss) = Some (config_value pools kss)"
  by (simp add: lua_chunk_def lex_config frame_new_def read_pools read_keyspaces add_value_def frame_value_def
      config_value_def)

subsection \<open>The gateway accepts the literal\<close>

lemma valid_lists: "validHash = VALID_HASH" "validDist = VALID_DIST" "validWritePolicy = VALID_WRITE_POLICY"
  by (simp_all add: validHash_def VALID_HASH_def validDist_def VALID_DIST_def validWritePolicy_def VALID_WRITE_POLICY_def)

lemma firstBad_None: "firstBad xs = None \<longleftrightarrow> [] \<notin> set xs"
  by (auto simp: firstBad_def find_None_iff in_set_conv_nth)

lemma first_some_None: "first_some a b = None \<longleftrightarrow> a = None \<and> b = None"
  by (cases a) (simp_all add: first_some_def)

lemma if_Some_None: "(if c then Some x else r) = None \<longleftrightarrow> \<not> c \<and> r = None"
  by simp

lemma pool_problem_None:
  "pool_problem p = None \<longleftrightarrow> wf_pool (cfg_pool p)"
  by (simp add: pool_problem_def wf_pool_def cfg_pool_def nonempty_def valid_lists firstBad_None first_some_None if_Some_None)

lemma validate_pool_value:
  assumes "pool_problem p = None" "pr_name p \<notin> set seen"
  shows "validate_pool (pool_value p) seen = Inr (cfg_pool p, pr_name p # seen)"
proof -
  have "pool_value p = lua_of_pool (cfg_pool p)"
    by (simp add: pool_value_def lua_of_pool_def cfg_pool_def opt_str_def opt_field_def nonempty_def)
  then show ?thesis
    using validate_pool_complete [of "cfg_pool p" seen] assms by (simp add: pool_problem_None cfg_pool_def)
qed

lemma validate_pools_value:
  "\<forall>p \<in> set ps. pool_problem p = None \<Longrightarrow> distinct (map pr_name ps) \<Longrightarrow> set (map pr_name ps) \<inter> set seen = {} \<Longrightarrow>
   validate_pools (map pool_value ps) seen = Inr (map cfg_pool ps, rev (map pr_name ps) @ seen)"
  by (induction ps arbitrary: seen) (auto simp: validate_pool_value and_then_def)

lemma pool_list_check_None:
  "pool_list_check field poolNames i seen names = None \<longleftrightarrow>
   [] \<notin> set names \<and> distinct names \<and> set names \<subseteq> set poolNames \<and> set names \<inter> set seen = {}"
  by (induction names arbitrary: i seen) auto

lemma checkPoolList_None: "checkPoolList field names poolNames = None \<longleftrightarrow> wf_pool_list poolNames names"
  by (auto simp: checkPoolList_def wf_pool_list_def pool_list_check_None)

text \<open>What a keyspace without a problem has; the prefixes seen only matter for duplicates.\<close>

definition sound_cr :: "bytes list \<Rightarrow> (bytes, bytes) btree \<Rightarrow> keyspace_cr \<Rightarrow> bool" where
  "sound_cr poolNames modules ks \<longleftrightarrow>
     kr_prefix ks \<noteq> [] \<and> 0x3A \<notin> set (kr_prefix ks) \<and>
     kr_prefix ks \<noteq> as_bytes ''__udf'' \<and> kr_prefix ks \<noteq> as_bytes ''__mcgw'' \<and>
     wf_pool_list poolNames (kr_read ks) \<and> wf_pool_list poolNames (kr_write ks) \<and>
     (kr_write_policy ks = [] \<or> kr_write_policy ks \<in> set VALID_WRITE_POLICY) \<and>
     (cr_merge ks \<in> set builtinMerges \<or> bt_get modules (cr_merge ks) \<noteq> None)"

lemma keyspace_problem_None:
  "keyspace_problem poolNames modules seen ks = None \<longleftrightarrow> sound_cr poolNames modules ks \<and> kr_prefix ks \<notin> set seen"
proof -
  have "DEFAULT_MERGE \<in> set builtinMerges"
    by (simp add: DEFAULT_MERGE_def builtinMerges_def)
  then have merge: "(case kr_merge ks of None \<Rightarrow> None
      | Some m \<Rightarrow> if ms_name m \<notin> set builtinMerges \<and> bt_get modules (ms_name m) = None
          then Some (UnresolvedMerge (ms_name m)) else None) = None \<longleftrightarrow>
      cr_merge ks \<in> set builtinMerges \<or> bt_get modules (cr_merge ks) \<noteq> None"
    by (auto simp: cr_merge_def split: option.split)
  show ?thesis
    unfolding keyspace_problem_def sound_cr_def
    unfolding if_Some_None first_some_None merge checkPoolList_None valid_lists by (auto split del: if_split)
qed

lemma validate_keyspace_value:
  assumes "sound_cr poolNames modules ks" "merges_resolve regs modules" "kr_prefix ks \<notin> set seen"
  shows "validate_keyspace regs (keyspace_value ks) seen poolNames = Inr (cfg_keyspace regs ks, kr_prefix ks # seen)"
proof -
  note sound = assms(1) [unfolded sound_cr_def]
  obtain flags where flags: "native_required_flags regs (cr_merge ks) = Inr flags"
    using sound assms(2) by (auto simp: merges_resolve_def)
  have index: "lua_index (keyspace_value ks) ''prefix'' = Inr (LStr (kr_prefix ks))"
      "lua_index (keyspace_value ks) ''read'' = Inr (lua_strings (kr_read ks))"
      "lua_index (keyspace_value ks) ''write'' = Inr (lua_strings (kr_write ks))"
      "lua_index (keyspace_value ks) ''write_policy'' =
        Inr (case nonempty (kr_write_policy ks) of None \<Rightarrow> LNil | Some p \<Rightarrow> LStr p)"
      "lua_index (keyspace_value ks) ''merge'' = Inr (case kr_merge ks of None \<Rightarrow> LNil | Some m \<Rightarrow> LStr (ms_name m))"
    by (auto simp: lua_index_def keyspace_value_def opt_str_def nonempty_def map_add_def split: option.splits)
  have merge: "validate_merge regs prefix (case kr_merge ks of None \<Rightarrow> LNil | Some m \<Rightarrow> LStr (ms_name m)) =
      Inr (cr_merge ks, flags)" for prefix
    using flags by (simp add: validate_merge_def cr_merge_def split: option.splits)
  have policy: "validate_write_policy prefix (case nonempty (kr_write_policy ks) of None \<Rightarrow> LNil | Some p \<Rightarrow> LStr p) =
      Inr (case nonempty (kr_write_policy ks) of None \<Rightarrow> DEFAULT_WRITE_POLICY | Some p \<Rightarrow> p)" for prefix
    using sound by (auto simp: validate_write_policy_def one_of_def and_then_def nonempty_def)
  show ?thesis
    using sound assms(3) flags validate_pool_list_complete [of poolNames "kr_read ks"]
      validate_pool_list_complete [of poolNames "kr_write ks"]
    by (simp add: validate_keyspace_def index merge policy ok_or_def and_then_def cfg_keyspace_def merge_flags_of_def)
qed

lemma validate_keyspaces_value:
  "\<forall>ks \<in> set kss. sound_cr poolNames modules ks \<Longrightarrow> merges_resolve regs modules \<Longrightarrow>
   distinct (map kr_prefix kss) \<Longrightarrow> set (map kr_prefix kss) \<inter> set seen = {} \<Longrightarrow>
   validate_keyspaces regs poolNames (map keyspace_value kss) seen = Inr (map (cfg_keyspace regs) kss)"
proof (induction kss arbitrary: seen)
  case (Cons ks kss)
  then show ?case
    using validate_keyspace_value [of poolNames modules ks regs seen] by (auto simp: and_then_def)
qed simp

subsection \<open>What is rendered\<close>

lemma keyspace_loop_sound:
  "keyspace_loop poolNames modules seen kss = (out, ws) \<Longrightarrow>
   set out \<subseteq> set kss \<and> (\<forall>ks \<in> set out. sound_cr poolNames modules ks) \<and> distinct (map kr_prefix out) \<and>
   set (map kr_prefix out) \<inter> set seen = {}"
proof (induction kss arbitrary: seen out ws)
  case (Cons ks kss)
  show ?case
  proof (cases "keyspace_problem poolNames modules seen ks")
    case None
    obtain out' ws' where rest: "keyspace_loop poolNames modules (kr_prefix ks # seen) kss = (out', ws')"
      by (cases "keyspace_loop poolNames modules (kr_prefix ks # seen) kss")
    with Cons.prems None have "out = ks # out'"
      by simp
    with Cons.IH [OF rest] None show ?thesis
      by (auto simp: keyspace_problem_None)
  next
    case (Some m)
    obtain out' ws' where rest: "keyspace_loop poolNames modules seen kss = (out', ws')"
      by (cases "keyspace_loop poolNames modules seen kss")
    with Cons.prems Some have "out = out'"
      by simp
    with Cons.IH [OF rest] show ?thesis
      by auto
  qed
qed simp

lemma keyspace_loop_accounts:
  "keyspace_loop poolNames modules seen kss = (out, ws) \<Longrightarrow> ks \<in> set kss \<Longrightarrow>
   ks \<in> set out \<or> (\<exists>m. (KeyspaceKind, kr_name ks, m) \<in> set ws)"
proof (induction kss arbitrary: seen out ws)
  case (Cons k kss)
  show ?case
  proof (cases "keyspace_problem poolNames modules seen k")
    case None
    obtain out' ws' where rest: "keyspace_loop poolNames modules (kr_prefix k # seen) kss = (out', ws')"
      by (cases "keyspace_loop poolNames modules (kr_prefix k # seen) kss")
    with Cons.prems(1) None have "out = k # out'" "ws = ws'"
      by simp_all
    with Cons.IH [OF rest] Cons.prems(2) show ?thesis
      by auto
  next
    case (Some m)
    obtain out' ws' where rest: "keyspace_loop poolNames modules seen kss = (out', ws')"
      by (cases "keyspace_loop poolNames modules seen kss")
    with Cons.prems(1) Some have "out = out'" "ws = (KeyspaceKind, kr_name k, m) # ws'"
      by simp_all
    with Cons.IH [OF rest] Cons.prems(2) show ?thesis
      by auto
  qed
qed simp

lemma rendered_keyspaces_sound:
  "(\<forall>ks \<in> set (rendered_keyspaces s). sound_cr (map pr_name (rendered_pools s)) (rendered_modules s) ks) \<and>
   distinct (map kr_prefix (rendered_keyspaces s))"
proof -
  let ?kss = "sort_key kr_name (fst (dedupByName KeyspaceKind (sn_keyspaces s) kr_name))"
  obtain out ws where loop: "keyspace_loop (map pr_name (rendered_pools s)) (rendered_modules s) [] ?kss = (out, ws)"
    by (cases "keyspace_loop (map pr_name (rendered_pools s)) (rendered_modules s) [] ?kss")
  then have "rendered_keyspaces s = sort_key kr_prefix out"
    by (simp add: rendered_keyspaces_def renderableKeyspaces_def)
  moreover have "distinct (map kr_prefix (sort_key kr_prefix out)) = distinct (map kr_prefix out)"
    by (metis mset_map mset_sort mset_eq_imp_distinct_iff)
  ultimately show ?thesis
    using keyspace_loop_sound [OF loop] by simp
qed

lemma dedup_distinct: "distinct (map name (fst (dedupByName kind xs name)))"
proof -
  have "distinct (map name (filter (\<lambda>x. count_list (map name ys) (name x) = 1) xs))"
    if "\<And>n. count_list (map name xs) n \<le> count_list (map name ys) n" for ys
    using that
  proof (induction xs)
    case (Cons x xs)
    have le: "count_list (map name xs) n \<le> count_list (map name ys) n" for n
      using Cons.prems [of n] by (simp split: if_splits)
    have "name x \<notin> set (map name (filter (\<lambda>x. count_list (map name ys) (name x) = 1) xs))"
      if "count_list (map name ys) (name x) = 1"
    proof
      assume "name x \<in> set (map name (filter (\<lambda>x. count_list (map name ys) (name x) = 1) xs))"
      then have "count_list (map name xs) (name x) \<noteq> 0"
        by (auto simp: count_list_0_iff)
      with Cons.prems [of "name x"] that show False
        by simp
    qed
    with Cons.IH [OF le] show ?case
      by simp
  qed simp
  from this [of xs] show ?thesis
    by (simp add: dedupByName_def Let_def)
qed

lemma dedup_accounts:
  assumes "x \<in> set xs"
  shows "x \<in> set (fst (dedupByName kind xs name)) \<or>
    (\<exists>m. (kind, name x, m) \<in> set (snd (dedupByName kind xs name)))"
proof (cases "count_list (map name xs) (name x) = 1")
  case False
  moreover have "count_list (map name xs) (name x) \<noteq> 0"
    using assms by (auto simp: count_list_0_iff)
  ultimately have "1 < count_list (map name xs) (name x)"
    by simp
  then have "(kind, name x, SharedName (count_list (map name xs) (name x))) \<in> set (snd (dedupByName kind xs name))"
    using assms by (simp add: dedupByName_def Let_def)
  then show ?thesis
    by blast
qed (use assms in \<open>simp add: dedupByName_def Let_def\<close>)

lemma renderablePools_accounts:
  assumes "p \<in> set ps"
  shows "p \<in> set (fst (renderablePools ps)) \<or> (\<exists>m. (PoolKind, pr_name p, m) \<in> set (snd (renderablePools ps)))"
proof (cases "pool_problem p")
  case (Some m)
  then have "(PoolKind, pr_name p, m) \<in> set (snd (renderablePools ps))"
    using assms by (force simp: renderablePools_def Let_def map_filter_def)
  then show ?thesis by blast
qed (use assms in \<open>simp add: renderablePools_def Let_def\<close>)

lemma rendered_pools_sound:
  "(\<forall>p \<in> set (rendered_pools s). pool_problem p = None) \<and> distinct (map pr_name (rendered_pools s))"
proof -
  let ?ps = "fst (dedupByName PoolKind (sn_pools s) pr_name)"
  have "distinct (map pr_name (sort_key pr_name ?ps))"
    using dedup_distinct [of pr_name PoolKind "sn_pools s"] by (metis mset_map mset_sort mset_eq_imp_distinct_iff)
  then show ?thesis
    by (auto simp: rendered_pools_def renderablePools_def Let_def distinct_map_filter)
qed

lemma Render_parts:
  "Render s =
    (fold (\<lambda>(name, wasm). bt_insert (module_path name) wasm) (rendered_modules s)
       [(ConfigFile, renderConfig (rendered_pools s) (rendered_keyspaces s))],
     snd (dedupByName PoolKind (sn_pools s) pr_name) @
     snd (renderablePools (fst (dedupByName PoolKind (sn_pools s) pr_name))) @
     snd (dedupByName KeyspaceKind (sn_keyspaces s) kr_name) @
     snd (collectModules (fst (dedupByName KeyspaceKind (sn_keyspaces s) kr_name))) @
     snd (renderableKeyspaces (fst (dedupByName KeyspaceKind (sn_keyspaces s) kr_name))
       (map pr_name (rendered_pools s)) (rendered_modules s)))"
  by (simp add: Render_def rendered_pools_def rendered_modules_def rendered_keyspaces_def Let_def split: prod.split)

text \<open>The files: config.lua and one file per module.\<close>

lemma module_path_inj: "module_path n = module_path n' \<longleftrightarrow> n = n'"
  by (simp add: module_path_def)

lemma module_path_not_config: "module_path n \<noteq> ConfigFile"
  by (simp add: module_path_def ConfigFile_def UdfDir_def as_bytes_def)

lemma fold_modules:
  "bt_ok files \<Longrightarrow> bt_ok (fold (\<lambda>(name, wasm). bt_insert (module_path name) wasm) ms files) \<and>
   bt_get (fold (\<lambda>(name, wasm). bt_insert (module_path name) wasm) ms files) =
     bt_get files ++ map_of (rev (map (\<lambda>(name, wasm). (module_path name, wasm)) ms))"
proof (induction ms arbitrary: files)
  case (Cons m ms)
  obtain name wasm where m: "m = (name, wasm)"
    by (cases m)
  have "bt_ok (bt_insert (module_path name) wasm files)"
    using Cons.prems by (rule bt_ok_insert)
  from Cons.IH [OF this] show ?case
    by (auto simp: m bt_get_insert [OF Cons.prems] map_add_def fun_eq_iff split: option.splits)
qed simp

lemma render_config_file:
  "bt_ok (fst (Render s)) \<and>
   bt_get (fst (Render s)) ConfigFile = Some (renderConfig (rendered_pools s) (rendered_keyspaces s))"
proof -
  have "map_of (rev (map (\<lambda>(name, wasm). (module_path name, wasm)) (rendered_modules s))) ConfigFile = None"
    by (auto simp: map_of_eq_None_iff module_path_not_config [symmetric])
  then show ?thesis
    using fold_modules [of "[(ConfigFile, renderConfig (rendered_pools s) (rendered_keyspaces s))]" "rendered_modules s"]
    by (simp add: Render_parts bt_ok_def bt_get_def map_add_def)
qed

subsection \<open>Order of the snapshot\<close>

lemma count_list_mset: "count_list xs n = count (mset xs) n"
  by (induction xs) auto

lemma sort_key_mset_eq:
  assumes "mset xs = mset ys" "distinct (map f xs)"
  shows "sort_key f xs = sort_key f ys"
proof -
  have "inj_on f (set xs)"
    using assms(2) by (simp add: distinct_map)
  then show ?thesis
    using assms(1) by (intro sort_key_inj_key_eq) simp_all
qed

lemma dedup_mset:
  assumes "mset xs = mset ys"
  shows "mset (fst (dedupByName kind xs name)) = mset (fst (dedupByName kind ys name))"
    and "snd (dedupByName kind xs name) = snd (dedupByName kind ys name)"
proof -
  have count: "count_list (map name xs) = count_list (map name ys)"
    using assms by (simp add: fun_eq_iff count_list_mset)
  show "mset (fst (dedupByName kind xs name)) = mset (fst (dedupByName kind ys name))"
    using assms by (simp add: dedupByName_def Let_def count)
  have "set xs = set ys"
    using assms by (rule mset_eq_setD)
  then have "sort (remdups (filter (\<lambda>n. 1 < count_list (map name ys) n) (map name xs))) =
      sort (remdups (filter (\<lambda>n. 1 < count_list (map name ys) n) (map name ys)))"
    by (simp only: flip: sorted_list_of_set_sort_remdups) simp
  then show "snd (dedupByName kind xs name) = snd (dedupByName kind ys name)"
    by (simp add: dedupByName_def Let_def count)
qed

lemma dedup_sort:
  assumes "mset xs = mset ys"
  shows "sort_key name (fst (dedupByName kind xs name)) = sort_key name (fst (dedupByName kind ys name))"
  using dedup_mset(1) [OF assms] dedup_distinct by (rule sort_key_mset_eq)

lemma sample_rendered:
  "rendered_pools sample_snapshot = sn_pools sample_snapshot" "rendered_modules sample_snapshot = []"
  "rendered_keyspaces sample_snapshot = [sn_keyspaces sample_snapshot ! 1]"
  by code_simp+

lemma merges_resolve_builtin: "merges_resolve builtin_registries []"
proof -
  have "is_str ''first-hit''" "is_str ''last-write-wins''" "is_str ''pool-preferred''"
    unfolding is_str_def by code_simp+
  then show ?thesis
    by (auto simp: merges_resolve_def builtinMerges_def bt_get_def native_required_flags_def name_str_def from_utf8_as_bytes
        ok_or_def and_then_def registries_required_flags_def builtin_registries_def registries_new_def registry_get_register)
qed

section \<open>Properties\<close>

text \<open>
  C38. The gateway accepts whatever the operator renders: for every snapshot, config.lua is
  in the tree, Lua reads it as a table constructor, and validation returns exactly the
  rendered pools and keyspaces, provided the gateway knows its built-ins and has loaded the
  rendered modules.
\<close>

theorem render_accepted:
  assumes "merges_resolve regs (rendered_modules s)"
  shows "\<exists>text v. bt_get (fst (Render s)) ConfigFile = Some text \<and> lua_chunk text = Some v \<and>
    validate regs v =
      Inr \<lparr>gc_pools = map cfg_pool (rendered_pools s), gc_keyspaces = map (cfg_keyspace regs) (rendered_keyspaces s)\<rparr>"
proof -
  let ?pools = "rendered_pools s" and ?kss = "rendered_keyspaces s"
  let ?names = "rev (map pr_name ?pools)"
  have pools: "validate_pools (map pool_value ?pools) [] = Inr (map cfg_pool ?pools, ?names)"
    using validate_pools_value [of ?pools "[]"] rendered_pools_sound [of s] by simp
  have "sound_cr ?names (rendered_modules s) ks" if "ks \<in> set ?kss" for ks
    using rendered_keyspaces_sound [of s] that by (auto simp: sound_cr_def wf_pool_list_def)
  then have keyspaces: "validate_keyspaces regs ?names (map keyspace_value ?kss) [] = Inr (map (cfg_keyspace regs) ?kss)"
    using validate_keyspaces_value [of ?kss ?names "rendered_modules s" regs "[]"] rendered_keyspaces_sound [of s] assms by simp
  have seq: "sequence_of (map pool_value ps) = map pool_value ps" "sequence_of (map keyspace_value ks) = map keyspace_value ks" for ps ks
    by (auto simp: sequence_of_def pool_value_def keyspace_value_def takeWhile_eq_all_conv)
  have "validate regs (config_value ?pools ?kss) =
      Inr \<lparr>gc_pools = map cfg_pool ?pools, gc_keyspaces = map (cfg_keyspace regs) ?kss\<rparr>"
    using pools keyspaces by (simp add: validate_def config_value_def lua_index_def seq and_then_def)
  with render_config_file [of s] lua_chunk_config [of ?pools ?kss] show ?thesis
    by blast
qed

theorem render_accepted_witness:
  "\<exists>text v. bt_get (fst (Render sample_snapshot)) ConfigFile = Some text \<and> lua_chunk text = Some v \<and>
     validate builtin_registries v = Inr \<lparr>gc_pools = map cfg_pool (sn_pools sample_snapshot),
       gc_keyspaces = map (cfg_keyspace builtin_registries) [sn_keyspaces sample_snapshot ! 1]\<rparr>"
  using render_accepted [of builtin_registries sample_snapshot] merges_resolve_builtin sample_rendered by simp

text \<open>
  C39. Nothing is dropped in silence: every pool and every keyspace of the snapshot is
  rendered or has a warning under its name.
\<close>

theorem render_accounts:
  "(p \<in> set (sn_pools s) \<longrightarrow>
      p \<in> set (rendered_pools s) \<or> (\<exists>m. (PoolKind, pr_name p, m) \<in> set (snd (Render s)))) \<and>
   (ks \<in> set (sn_keyspaces s) \<longrightarrow>
      ks \<in> set (rendered_keyspaces s) \<or> (\<exists>m. (KeyspaceKind, kr_name ks, m) \<in> set (snd (Render s))))"
proof (intro conjI impI)
  assume "p \<in> set (sn_pools s)"
  then consider "p \<in> set (fst (dedupByName PoolKind (sn_pools s) pr_name))"
    | m where "(PoolKind, pr_name p, m) \<in> set (snd (dedupByName PoolKind (sn_pools s) pr_name))"
    using dedup_accounts [of p "sn_pools s" PoolKind pr_name] by blast
  then show "p \<in> set (rendered_pools s) \<or> (\<exists>m. (PoolKind, pr_name p, m) \<in> set (snd (Render s)))"
  proof cases
    case 1
    then show ?thesis
      using renderablePools_accounts [of p "fst (dedupByName PoolKind (sn_pools s) pr_name)"]
      by (auto simp: Render_parts rendered_pools_def)
  next
    case 2
    then show ?thesis
      by (auto simp: Render_parts)
  qed
next
  assume "ks \<in> set (sn_keyspaces s)"
  then consider "ks \<in> set (fst (dedupByName KeyspaceKind (sn_keyspaces s) kr_name))"
    | m where "(KeyspaceKind, kr_name ks, m) \<in> set (snd (dedupByName KeyspaceKind (sn_keyspaces s) kr_name))"
    using dedup_accounts [of ks "sn_keyspaces s" KeyspaceKind kr_name] by blast
  then show "ks \<in> set (rendered_keyspaces s) \<or> (\<exists>m. (KeyspaceKind, kr_name ks, m) \<in> set (snd (Render s)))"
  proof cases
    case 1
    let ?kss = "sort_key kr_name (fst (dedupByName KeyspaceKind (sn_keyspaces s) kr_name))"
    obtain out ws where loop: "keyspace_loop (map pr_name (rendered_pools s)) (rendered_modules s) [] ?kss = (out, ws)"
      by (cases "keyspace_loop (map pr_name (rendered_pools s)) (rendered_modules s) [] ?kss")
    have "ks \<in> set out \<or> (\<exists>m. (KeyspaceKind, kr_name ks, m) \<in> set ws)"
      using keyspace_loop_accounts [OF loop] 1 by simp
    then show ?thesis
      using loop by (auto simp: Render_parts rendered_keyspaces_def renderableKeyspaces_def)
  next
    case 2
    then show ?thesis
      by (auto simp: Render_parts)
  qed
qed

theorem render_accounts_witness:
  "sn_keyspaces sample_snapshot ! 0 \<notin> set (rendered_keyspaces sample_snapshot) \<and>
   (\<exists>m. (KeyspaceKind, as_bytes ''b'', m) \<in> set (snd (Render sample_snapshot)))"
proof -
  let ?ks = "sn_keyspaces sample_snapshot ! 0"
  have "?ks \<in> set (sn_keyspaces sample_snapshot)" "kr_name ?ks = as_bytes ''b''" "?ks \<noteq> sn_keyspaces sample_snapshot ! 1"
    by (simp_all add: sample_snapshot_def)
  with render_accounts [of undefined sample_snapshot ?ks] sample_rendered show ?thesis
    by auto
qed

text \<open>
  C40. Rendering does not depend on the order of the snapshot: two listings of the same
  objects give the same files and the same warnings, to the byte.
\<close>

theorem render_order:
  assumes "mset (sn_pools s) = mset (sn_pools s')" "mset (sn_keyspaces s) = mset (sn_keyspaces s')"
  shows "Render s = Render s'"
proof -
  note sorts = dedup_sort [OF assms(1), of pr_name PoolKind] dedup_sort [OF assms(2), of kr_name KeyspaceKind]
  have pools: "renderablePools (fst (dedupByName PoolKind (sn_pools s) pr_name)) =
      renderablePools (fst (dedupByName PoolKind (sn_pools s') pr_name))"
    by (simp add: renderablePools_def sorts)
  have modules: "collectModules (fst (dedupByName KeyspaceKind (sn_keyspaces s) kr_name)) =
      collectModules (fst (dedupByName KeyspaceKind (sn_keyspaces s') kr_name))"
    by (simp add: collectModules_def sorts)
  have keyspaces: "renderableKeyspaces (fst (dedupByName KeyspaceKind (sn_keyspaces s) kr_name)) names ms =
      renderableKeyspaces (fst (dedupByName KeyspaceKind (sn_keyspaces s') kr_name)) names ms" for names ms
    by (simp add: renderableKeyspaces_def sorts)
  show ?thesis
    unfolding Render_parts rendered_pools_def rendered_modules_def rendered_keyspaces_def
      pools modules keyspaces dedup_mset(2) [OF assms(1)] dedup_mset(2) [OF assms(2)] ..
qed

theorem render_order_witness:
  "Render sample_snapshot = Render (sample_snapshot\<lparr>sn_keyspaces := rev (sn_keyspaces sample_snapshot)\<rparr>)"
  by (rule render_order) simp_all

end
